(* ===== verification/Prelude.thy ===== *)
theory Prelude
  imports Main "HOL-Library.Sublist" "HOL-Library.Multiset"
begin

text \<open>
  The vocabulary every component shares. Rust's \<open>str\<close> and \<open>String\<close> are sequences of
  Unicode scalar values, so they are lists of code points here (type \<open>rstr\<close>), and the
  source's string literals are written \<open>u ''...''\<close>. The functions below are the part of
  Rust's standard library that the modelled code calls on strings and slices; the lemmas about
  them are what the component theories reason with. The one thing of the standard library that
  is not written out is the Unicode lower-case table: it is the parameter \<open>unicode\<close>.
\<close>

named_theorems rust_std "unfolding rules of the standard-library functions"
named_theorems scan_eval "definitions that closed examples evaluate by simp"

section \<open>Strings as code points\<close>

type_synonym uchar = nat
type_synonym rstr = "uchar list"

primrec u :: "string \<Rightarrow> rstr" where
  "u [] = []"
| "u (c # cs) = of_char c # u cs"

text \<open>\<open>char::is_whitespace\<close>: the Unicode property \<open>White_Space\<close>.\<close>

definition is_ws :: "uchar \<Rightarrow> bool" where
  "is_ws c \<longleftrightarrow> 9 \<le> c \<and> c \<le> 13 \<or> c = 32 \<or> c = 133 \<or> c = 160 \<or> c = 5760 \<or>
     8192 \<le> c \<and> c \<le> 8202 \<or> c = 8232 \<or> c = 8233 \<or> c = 8239 \<or> c = 8287 \<or> c = 12288"

text \<open>\<open>char::is_control\<close>.\<close>

definition is_control :: "uchar \<Rightarrow> bool" where
  "is_control c \<longleftrightarrow> c < 32 \<or> 127 \<le> c \<and> c < 160"

definition is_ascii_digit :: "uchar \<Rightarrow> bool" where
  "is_ascii_digit c \<longleftrightarrow> 48 \<le> c \<and> c \<le> 57"

definition is_ascii_alpha :: "uchar \<Rightarrow> bool" where
  "is_ascii_alpha c \<longleftrightarrow> 65 \<le> c \<and> c \<le> 90 \<or> 97 \<le> c \<and> c \<le> 122"

definition ascii_lower :: "uchar \<Rightarrow> uchar" where
  "ascii_lower c = (if 65 \<le> c \<and> c \<le> 90 then c + 32 else c)"

definition ascii_upper :: "uchar \<Rightarrow> uchar" where
  "ascii_upper c = (if 97 \<le> c \<and> c \<le> 122 then c - 32 else c)"

definition eq_ignore_ascii_case :: "rstr \<Rightarrow> rstr \<Rightarrow> bool" where
  "eq_ignore_ascii_case a b \<longleftrightarrow> map ascii_lower a = map ascii_lower b"

text \<open>
  \<open>char::to_lowercase\<close> (one to three code points) and \<open>str::to_lowercase\<close> (which treats a
  final sigma specially, so it is not the first mapped over the string).
\<close>

record unicode =
  lower_char :: "uchar \<Rightarrow> uchar list"
  lower_str :: "rstr \<Rightarrow> rstr"

text \<open>The tables restricted to ASCII, for closed examples.\<close>

definition ascii_unicode :: unicode where
  "ascii_unicode = \<lparr>lower_char = (\<lambda>c. [ascii_lower c]), lower_str = map ascii_lower\<rparr>"

section \<open>Trimming, prefixes, splitting\<close>

definition trim_end_matches :: "(uchar \<Rightarrow> bool) \<Rightarrow> rstr \<Rightarrow> rstr" where
  "trim_end_matches P t = rev (dropWhile P (rev t))"

definition trim_matches :: "(uchar \<Rightarrow> bool) \<Rightarrow> rstr \<Rightarrow> rstr" where
  "trim_matches P t = trim_end_matches P (dropWhile P t)"

definition trim_start :: "rstr \<Rightarrow> rstr" where
  "trim_start t = dropWhile is_ws t"

definition trim_end :: "rstr \<Rightarrow> rstr" where
  "trim_end t = trim_end_matches is_ws t"

definition trim :: "rstr \<Rightarrow> rstr" where
  "trim t = trim_matches is_ws t"

primrec strip_pre :: "rstr \<Rightarrow> rstr \<Rightarrow> rstr option" where
  "strip_pre [] t = Some t"
| "strip_pre (x # p) t = (case t of [] \<Rightarrow> None | y # t' \<Rightarrow> if x = y then strip_pre p t' else None)"

definition starts_with :: "rstr \<Rightarrow> rstr \<Rightarrow> bool" where
  "starts_with t p \<longleftrightarrow> strip_pre p t \<noteq> None"

definition ends_with :: "rstr \<Rightarrow> rstr \<Rightarrow> bool" where
  "ends_with t p \<longleftrightarrow> starts_with (rev t) (rev p)"

fun has_sub :: "rstr \<Rightarrow> rstr \<Rightarrow> bool" where
  "has_sub [] p \<longleftrightarrow> p = []"
| "has_sub (c # t) p \<longleftrightarrow> starts_with (c # t) p \<or> has_sub t p"

text \<open>\<open>str::split\<close> on a class of characters: never empty.\<close>

fun split_on :: "(uchar \<Rightarrow> bool) \<Rightarrow> rstr \<Rightarrow> rstr list" where
  "split_on P [] = [[]]"
| "split_on P (c # t) =
     (if P c then [] # split_on P t
      else (case split_on P t of [] \<Rightarrow> [[c]] | w # ws \<Rightarrow> (c # w) # ws))"

text \<open>\<open>str::split_whitespace\<close>: the maximal runs of non-white characters, left to right.\<close>

fun words_from :: "rstr \<Rightarrow> rstr \<Rightarrow> rstr list" where
  "words_from w [] = (if w = [] then [] else [w])"
| "words_from w (c # t) =
     (if is_ws c then (if w = [] then words_from [] t else w # words_from [] t)
      else words_from (w @ [c]) t)"

definition split_whitespace :: "rstr \<Rightarrow> rstr list" where
  "split_whitespace t = words_from [] t"

text \<open>\<open>slice::join\<close> with a separator.\<close>

fun join_with :: "rstr \<Rightarrow> rstr list \<Rightarrow> rstr" where
  "join_with s [] = []"
| "join_with s [w] = w"
| "join_with s (w # ws) = w @ s @ join_with s ws"

text \<open>\<open>str::split_once\<close>: what stands before and after the first occurrence.\<close>

fun split_once :: "rstr \<Rightarrow> rstr \<Rightarrow> (rstr \<times> rstr) option" where
  "split_once p [] = (if p = [] then Some ([], []) else None)"
| "split_once p (c # t) =
     (case strip_pre p (c # t) of
        Some r \<Rightarrow> Some ([], r)
      | None \<Rightarrow> map_option (\<lambda>(a, b). (c # a, b)) (split_once p t))"

text \<open>\<open>Iterator::find_map\<close>: the first \<open>Some\<close>.\<close>

primrec find_map :: "('a \<Rightarrow> 'b option) \<Rightarrow> 'a list \<Rightarrow> 'b option" where
  "find_map f [] = None"
| "find_map f (x # xs) = (case f x of Some y \<Rightarrow> Some y | None \<Rightarrow> find_map f xs)"

text \<open>\<open>Result::and_then\<close>, which is what the \<open>?\<close> operator does with the rest of a function.\<close>

definition and_then :: "'e + 'a \<Rightarrow> ('a \<Rightarrow> 'e + 'b) \<Rightarrow> 'e + 'b" where
  "and_then r f = (case r of Inl e \<Rightarrow> Inl e | Inr x \<Rightarrow> f x)"

text \<open>\<open>Iterator::position\<close>.\<close>

primrec position :: "('a \<Rightarrow> bool) \<Rightarrow> 'a list \<Rightarrow> nat option" where
  "position P [] = None"
| "position P (x # xs) = (if P x then Some 0 else map_option Suc (position P xs))"

declare is_ws_def [rust_std] is_ascii_digit_def [rust_std] is_ascii_alpha_def [rust_std]
declare ascii_lower_def [rust_std] ascii_upper_def [rust_std] eq_ignore_ascii_case_def [rust_std]
declare trim_end_matches_def [rust_std] trim_matches_def [rust_std] trim_start_def [rust_std]
declare trim_end_def [rust_std] trim_def [rust_std] starts_with_def [rust_std] ends_with_def [rust_std]
declare split_whitespace_def [rust_std]

section \<open>Lemmas\<close>

lemma ex_eq_rev [simp]: "\<exists>r. xs = rev r"
  by (rule exI [of _ "rev xs"]) simp

lemma strip_pre_iff: "strip_pre p t = Some r \<longleftrightarrow> t = p @ r"
  by (induction p arbitrary: t) (auto split: list.splits)

lemma starts_with_iff [simp]: "starts_with t p \<longleftrightarrow> (\<exists>r. t = p @ r)"
  by (auto simp: starts_with_def strip_pre_iff)

lemma starts_with_prefix: "starts_with t p \<longleftrightarrow> prefix p t"
  by (auto simp: prefix_def)

lemma has_sub_iff: "has_sub t p \<longleftrightarrow> (\<exists>a b. t = a @ p @ b)"
proof (induction t)
  case (Cons c t)
  note IH = Cons.IH
  show ?case
  proof
    assume "has_sub (c # t) p"
    then consider r where "c # t = p @ r" | "has_sub t p" by auto
    then show "\<exists>a b. c # t = a @ p @ b"
    proof cases
      case (1 r)
      then show ?thesis by (intro exI [of _ "[]"] exI [of _ r]) simp
    next
      case 2
      with Cons.IH obtain a b where "t = a @ p @ b" by auto
      then show ?thesis by (intro exI [of _ "c # a"] exI [of _ b]) simp
    qed
  next
    assume "\<exists>a b. c # t = a @ p @ b"
    then obtain a b where e: "c # t = a @ p @ b" by auto
    show "has_sub (c # t) p"
    proof (cases a)
      case Nil
      with e have "starts_with (c # t) p" by simp
      then show ?thesis by (simp only: has_sub.simps simp_thms)
    next
      case (Cons x a')
      with e have "has_sub t p" using IH by auto
      then show ?thesis by simp
    qed
  qed
qed auto

lemma trim_end_matches_suffix: "\<exists>s. t = trim_end_matches P t @ s \<and> (\<forall>c\<in>set s. P c)"
proof (intro exI conjI)
  show "t = trim_end_matches P t @ rev (takeWhile P (rev t))"
    unfolding trim_end_matches_def by (metis rev_append rev_rev_ident takeWhile_dropWhile_id)
  show "\<forall>c\<in>set (rev (takeWhile P (rev t))). P c"
    by (auto dest: set_takeWhileD)
qed

lemma set_trim_end_matches: "set (trim_end_matches P t) \<subseteq> set t"
  by (metis set_append Un_upper1 trim_end_matches_suffix)

lemma set_trim_matches: "set (trim_matches P t) \<subseteq> set t"
  unfolding trim_matches_def
  using set_trim_end_matches [of P "dropWhile P t"] set_dropWhileD [of _ P t] by blast

lemma set_trim: "set (trim t) \<subseteq> set t"
  by (simp add: trim_def set_trim_matches)

lemma trim_end_matches_id: "t = [] \<or> \<not> P (last t) \<Longrightarrow> trim_end_matches P t = t"
  by (cases t rule: rev_cases) (auto simp: trim_end_matches_def)

lemma last_trim_end_matches: "trim_end_matches P t \<noteq> [] \<Longrightarrow> \<not> P (last (trim_end_matches P t))"
  by (metis hd_dropWhile last_rev rev_is_Nil_conv trim_end_matches_def)

lemma hd_trim_end_matches: "trim_end_matches P t \<noteq> [] \<Longrightarrow> hd (trim_end_matches P t) = hd t"
  by (metis hd_append2 trim_end_matches_suffix)

lemma trim_matches_ends:
  assumes "trim_matches P t \<noteq> []"
  shows "\<not> P (hd (trim_matches P t))" and "\<not> P (last (trim_matches P t))"
proof -
  have ne: "trim_end_matches P (dropWhile P t) \<noteq> []"
    using assms by (simp add: trim_matches_def)
  then have "dropWhile P t \<noteq> []" by (metis dropWhile.simps(1) rev.simps(1) trim_end_matches_def)
  then have "\<not> P (hd (dropWhile P t))" by (rule hd_dropWhile)
  with ne show "\<not> P (hd (trim_matches P t))"
    by (simp add: trim_matches_def hd_trim_end_matches)
  from ne show "\<not> P (last (trim_matches P t))"
    unfolding trim_matches_def by (rule last_trim_end_matches)
qed

lemma trim_matches_trim_matches: "trim_matches P (trim_matches P t) = trim_matches P t"
proof (cases "trim_matches P t = []")
  case False
  then have "dropWhile P (trim_matches P t) = trim_matches P t"
    using trim_matches_ends(1) [OF False] by (cases "trim_matches P t") simp_all
  then show ?thesis
    using trim_matches_ends(2) [OF False] by (simp add: trim_matches_def [of P "trim_matches P t"] trim_end_matches_id)
next
  case True
  then show ?thesis
    unfolding True by (simp add: trim_matches_def trim_end_matches_def)
qed

lemma trim_trim: "trim (trim t) = trim t"
  by (simp add: trim_def trim_matches_trim_matches)

text \<open>What a filter keeps is not lost by trimming the characters it drops.\<close>

lemma filter_dropWhile: "(\<And>c. P c \<Longrightarrow> \<not> Q c) \<Longrightarrow> filter Q (dropWhile P t) = filter Q t"
  by (induction t) auto

lemma filter_trim_end_matches:
  "(\<And>c. P c \<Longrightarrow> \<not> Q c) \<Longrightarrow> filter Q (trim_end_matches P t) = filter Q t"
  by (simp add: trim_end_matches_def rev_filter [symmetric] filter_dropWhile)

lemma filter_trim_matches:
  "(\<And>c. P c \<Longrightarrow> \<not> Q c) \<Longrightarrow> filter Q (trim_matches P t) = filter Q t"
  by (simp add: trim_matches_def filter_trim_end_matches filter_dropWhile)

lemma split_on_nonempty [simp]: "split_on P t \<noteq> []"
  by (induction t) (auto split: list.splits)

lemma split_on_clean: "w \<in> set (split_on P t) \<Longrightarrow> c \<in> set w \<Longrightarrow> \<not> P c"
proof (induction t arbitrary: w)
  case (Cons x t)
  then show ?case
    by (cases "split_on P t") (fastforce split: if_splits)+
qed auto

lemma words_from_clean:
  "list_all (\<lambda>c. \<not> is_ws c) a \<Longrightarrow> w \<in> set (words_from a t) \<Longrightarrow>
     w \<noteq> [] \<and> list_all (\<lambda>c. \<not> is_ws c) w"
proof (induction a t rule: words_from.induct)
  case (1 a)
  then show ?case by (simp split: if_splits)
next
  case (2 a c t)
  then show ?case by (cases "is_ws c"; cases "a = []") auto
qed

lemma split_whitespace_clean:
  "w \<in> set (split_whitespace t) \<Longrightarrow> w \<noteq> [] \<and> (\<forall>c\<in>set w. \<not> is_ws c)"
  using words_from_clean [of "[]" w t] by (simp add: split_whitespace_def list_all_iff)

lemma and_then_simps [simp]: "and_then (Inl e) f = Inl e" "and_then (Inr x) f = f x"
  by (simp_all add: and_then_def)

lemma and_then_Inr: "and_then r f = Inr y \<longleftrightarrow> (\<exists>x. r = Inr x \<and> f x = Inr y)"
  by (cases r) simp_all

lemma find_map_None [simp]: "find_map f xs = None \<longleftrightarrow> (\<forall>x\<in>set xs. f x = None)"
  by (induction xs) (auto split: option.splits)

lemma find_map_SomeD: "find_map f xs = Some y \<Longrightarrow> \<exists>x\<in>set xs. f x = Some y"
  by (induction xs) (auto split: option.splits)

lemma position_None [simp]: "position P xs = None \<longleftrightarrow> (\<forall>x\<in>set xs. \<not> P x)"
  by (induction xs) auto

lemma position_SomeD: "position P xs = Some i \<Longrightarrow> i < length xs \<and> P (xs ! i)"
  by (induction xs arbitrary: i) (auto split: if_splits)

lemma find_SomeD: "List.find P xs = Some x \<Longrightarrow> x \<in> set xs \<and> P x"
  by (auto simp: find_Some_iff)

end
