(* ===== verification/Glob.thy ===== *)
theory Glob
  imports Prelude
begin

text \<open>
  How the sandbox compares a written pattern with a path or a command word: the matching half of
  \<open>crates/pane/src/sandbox/profile.rs\<close>. A path is compared as its list of components
  (\<open>spelling\<close>, theory Paths); a component, an MCP tool name or one part of a command line is
  compared character by character. Every comparison comes in two forms: the exact one an
  \<open>allow\<close> uses and the folding one (\<open>folds = True\<close>) a refusing rule uses. The lemmas relate
  each matcher to a declarative reading of the glob and the folding form to the exact one.
\<close>

section \<open>Characters and components\<close>

definition same :: "('u) unicode_scheme \<Rightarrow> uchar \<Rightarrow> uchar \<Rightarrow> bool \<Rightarrow> bool" where
  "same uc expected actual folds \<longleftrightarrow>
     expected = actual \<or> folds \<and> lower_char uc expected = lower_char uc actual"

definition refusing_form :: "rstr \<Rightarrow> rstr" where
  "refusing_form component =
     (let trimmed = trim_end_matches (\<lambda>c. c = 46 \<or> c = 32) component
      in if trimmed = [] then component else trimmed)"

definition same_component :: "('u) unicode_scheme \<Rightarrow> rstr \<Rightarrow> rstr \<Rightarrow> bool" where
  "same_component uc expected actual \<longleftrightarrow>
     eq_ignore_ascii_case expected actual \<or> lower_str uc expected = lower_str uc actual"

text \<open>\<open>*\<close> is code point 42, \<open>?\<close> is 63; the slice \<open>text[skip..]\<close> is \<open>drop skip text\<close>.\<close>

primrec match_chars :: "('u) unicode_scheme \<Rightarrow> rstr \<Rightarrow> rstr \<Rightarrow> bool \<Rightarrow> bool" where
  "match_chars uc [] t folds \<longleftrightarrow> t = []"
| "match_chars uc (head # tail) t folds \<longleftrightarrow>
     (if head = 42 then list_ex (\<lambda>skip. match_chars uc tail (drop skip t) folds) [0..<Suc (length t)]
      else if head = 63 then t \<noteq> [] \<and> match_chars uc tail (drop 1 t) folds
      else (case t of [] \<Rightarrow> False
            | actual # rest \<Rightarrow> same uc head actual folds \<and> match_chars uc tail rest folds))"

definition match_segment :: "('u) unicode_scheme \<Rightarrow> rstr \<Rightarrow> rstr \<Rightarrow> bool \<Rightarrow> bool" where
  "match_segment uc pattern t folds =
     (if folds then match_chars uc (refusing_form pattern) (refusing_form t) folds
      else match_chars uc pattern t folds)"

section \<open>Component lists\<close>

text \<open>The component that stands for any number of components.\<close>

definition any_depth :: rstr where
  "any_depth = u ''**''"

primrec match_components :: "('u) unicode_scheme \<Rightarrow> rstr list \<Rightarrow> rstr list \<Rightarrow> bool \<Rightarrow> bool" where
  "match_components uc [] candidate folds \<longleftrightarrow> candidate = []"
| "match_components uc (head # tail) candidate folds \<longleftrightarrow>
     (if head = any_depth
      then list_ex (\<lambda>skip. match_components uc tail (drop skip candidate) folds)
             [0..<Suc (length candidate)]
      else (case candidate of [] \<Rightarrow> False
            | first # rest \<Rightarrow> match_segment uc head first folds \<and> match_components uc tail rest folds))"

definition covers :: "('u) unicode_scheme \<Rightarrow> rstr list \<Rightarrow> rstr list \<Rightarrow> bool \<Rightarrow> bool" where
  "covers uc glob candidate folds \<longleftrightarrow>
     list_ex (\<lambda>n. match_components uc glob (take n candidate) folds) [0..<Suc (length candidate)]"

definition contains :: "rstr list \<Rightarrow> rstr list \<Rightarrow> bool" where
  "contains pre candidate \<longleftrightarrow>
     length pre \<le> length candidate \<and> list_all (\<lambda>(a, b). a = b) (zip pre candidate)"

definition contains_refusing :: "('u) unicode_scheme \<Rightarrow> rstr list \<Rightarrow> rstr list \<Rightarrow> bool" where
  "contains_refusing uc pre candidate \<longleftrightarrow>
     length pre \<le> length candidate \<and>
     list_all (\<lambda>(a, b). same_component uc (refusing_form a) (refusing_form b)) (zip pre candidate)"

definition subtree_glob :: "rstr list \<Rightarrow> rstr list" where
  "subtree_glob pre = pre @ [any_depth]"

section \<open>The declarative reading\<close>

text \<open>
  What a glob means, without the search: \<open>*\<close> stands for any run of characters, \<open>?\<close> for one,
  any other character for itself (up to the comparison the mode uses).
\<close>

inductive chars_match :: "(uchar \<Rightarrow> uchar \<Rightarrow> bool) \<Rightarrow> rstr \<Rightarrow> rstr \<Rightarrow> bool" for eq where
  done_chars: "chars_match eq [] []"
| star: "chars_match eq p t \<Longrightarrow> chars_match eq (42 # p) (s @ t)"
| any_char: "chars_match eq p t \<Longrightarrow> chars_match eq (63 # p) (c # t)"
| one_char: "h \<noteq> 42 \<Longrightarrow> h \<noteq> 63 \<Longrightarrow> eq h c \<Longrightarrow> chars_match eq p t \<Longrightarrow> chars_match eq (h # p) (c # t)"

inductive_simps chars_match_Nil [simp]: "chars_match eq [] t"
inductive_simps chars_match_Cons: "chars_match eq (h # p) t"

inductive components_match :: "(rstr \<Rightarrow> rstr \<Rightarrow> bool) \<Rightarrow> rstr list \<Rightarrow> rstr list \<Rightarrow> bool" for seg where
  done_components: "components_match seg [] []"
| double_star: "components_match seg g c \<Longrightarrow> components_match seg (any_depth # g) (s @ c)"
| one_component: "h \<noteq> any_depth \<Longrightarrow> seg h x \<Longrightarrow> components_match seg g c \<Longrightarrow>
     components_match seg (h # g) (x # c)"

inductive_simps components_match_Nil [simp]: "components_match seg [] c"
inductive_simps components_match_Cons: "components_match seg (h # g) c"

lemma ex_drop_iff: "(\<exists>n<Suc (length t). P (drop n t)) \<longleftrightarrow> (\<exists>a b. t = a @ b \<and> P b)"
proof
  assume "\<exists>n<Suc (length t). P (drop n t)"
  then show "\<exists>a b. t = a @ b \<and> P b" by (metis append_take_drop_id)
next
  assume "\<exists>a b. t = a @ b \<and> P b"
  then obtain a b where "t = a @ b" "P b" by blast
  then show "\<exists>n<Suc (length t). P (drop n t)" by (intro exI [of _ "length a"]) simp
qed

lemma ex_take_iff: "(\<exists>n<Suc (length t). P (take n t)) \<longleftrightarrow> (\<exists>a b. t = a @ b \<and> P a)"
proof
  assume "\<exists>n<Suc (length t). P (take n t)"
  then show "\<exists>a b. t = a @ b \<and> P a" by (metis append_take_drop_id)
next
  assume "\<exists>a b. t = a @ b \<and> P a"
  then obtain a b where "t = a @ b" "P a" by blast
  then show "\<exists>n<Suc (length t). P (take n t)" by (intro exI [of _ "length a"]) simp
qed

lemma list_ex_upt: "list_ex P [0..<n] \<longleftrightarrow> (\<exists>i<n. P i)"
  by (auto simp: list_ex_iff)

lemma match_chars_star:
  "match_chars uc (42 # p) t folds \<longleftrightarrow> (\<exists>a b. t = a @ b \<and> match_chars uc p b folds)"
  by (simp only: match_chars.simps if_True list_ex_upt simp_thms
        ex_drop_iff [where P = "\<lambda>s. match_chars uc p s folds"])

lemma match_chars_iff:
  "match_chars uc p t folds \<longleftrightarrow> chars_match (\<lambda>a b. same uc a b folds) p t"
proof (induction p arbitrary: t)
  case (Cons h p)
  consider "h = 42" | "h = 63" | "h \<noteq> 42" "h \<noteq> 63" by blast
  then show ?case
  proof cases
    case 1
    then show ?thesis
      by (auto simp: match_chars_star chars_match_Cons Cons.IH simp del: match_chars.simps)
  next
    case 2
    then show ?thesis by (cases t) (auto simp: chars_match_Cons Cons.IH)
  next
    case 3
    then show ?thesis by (cases t) (auto simp: chars_match_Cons Cons.IH)
  qed
qed simp

lemma match_components_double_star:
  "match_components uc (any_depth # g) c folds \<longleftrightarrow> (\<exists>a b. c = a @ b \<and> match_components uc g b folds)"
  by (simp only: match_components.simps if_True list_ex_upt simp_thms
        ex_drop_iff [where P = "\<lambda>s. match_components uc g s folds"])

lemma match_components_iff:
  "match_components uc g c folds \<longleftrightarrow> components_match (\<lambda>a b. match_segment uc a b folds) g c"
proof (induction g arbitrary: c)
  case (Cons h g)
  show ?case
  proof (cases "h = any_depth")
    case True
    then show ?thesis
      by (auto simp: match_components_double_star components_match_Cons Cons.IH
            simp del: match_components.simps)
  next
    case False
    then show ?thesis
      by (cases c) (auto simp: components_match_Cons Cons.IH)
  qed
qed simp

lemma covers_iff_prefix:
  "covers uc g c folds \<longleftrightarrow> (\<exists>a b. c = a @ b \<and> match_components uc g a folds)"
  by (simp only: covers_def list_ex_upt
        ex_take_iff [where P = "\<lambda>s. match_components uc g s folds"])

section \<open>Exact and refusing comparisons\<close>

lemma same_exact [simp]: "same uc a b False \<longleftrightarrow> a = b"
  by (simp add: same_def)

lemma same_refl [simp]: "same uc a a folds"
  by (simp add: same_def)

lemma chars_match_mono:
  "chars_match eq p t \<Longrightarrow> (\<And>a b. eq a b \<Longrightarrow> eq' a b) \<Longrightarrow> chars_match eq' p t"
  by (induction rule: chars_match.induct) (auto intro: chars_match.intros)

lemma match_chars_folds: "match_chars uc p t False \<Longrightarrow> match_chars uc p t True"
  unfolding match_chars_iff by (erule chars_match_mono) (auto simp: same_def)

lemma refusing_form_id: "t = [] \<or> last t \<noteq> 46 \<and> last t \<noteq> 32 \<Longrightarrow> refusing_form t = t"
  by (auto simp: refusing_form_def trim_end_matches_id)

lemma refusing_form_idem [simp]: "refusing_form (refusing_form t) = refusing_form t"
proof (cases "trim_end_matches (\<lambda>c. c = 46 \<or> c = 32) t = []")
  case True
  then have "refusing_form t = t" by (simp add: refusing_form_def)
  then show ?thesis by simp
next
  case False
  then have "refusing_form t = trim_end_matches (\<lambda>c. c = 46 \<or> c = 32) t"
    by (simp add: refusing_form_def Let_def)
  moreover have "\<not> (\<lambda>c. c = 46 \<or> c = 32) (last (trim_end_matches (\<lambda>c. c = 46 \<or> c = 32) t))"
    using False by (rule last_trim_end_matches)
  ultimately show ?thesis by (intro refusing_form_id) auto
qed

lemma refusing_form_Nil_iff [simp]: "refusing_form t = [] \<longleftrightarrow> t = []"
  by (auto simp: refusing_form_def Let_def trim_end_matches_def)

lemma same_component_refl [simp]: "same_component uc a a"
  by (simp add: same_component_def)

lemma contains_iff: "contains p c \<longleftrightarrow> (\<exists>r. c = p @ r)"
proof
  assume h: "contains p c"
  then have "take (length p) c = p"
    by (auto simp: contains_def list_all_length intro!: nth_equalityI)
  then show "\<exists>r. c = p @ r" by (metis append_take_drop_id)
next
  assume "\<exists>r. c = p @ r"
  then show "contains p c" by (auto simp: contains_def list_all_length nth_append)
qed

lemma contains_prefix: "contains p c \<longleftrightarrow> prefix p c"
  by (auto simp: contains_iff prefix_def)

lemma contains_refl [simp]: "contains p p"
  by (simp add: contains_prefix)

lemma contains_imp_refusing: "contains p c \<Longrightarrow> contains_refusing uc p c"
  by (auto simp: contains_def contains_refusing_def list_all_length)

text \<open>A component with no wildcard matches itself only.\<close>

definition literal :: "rstr \<Rightarrow> bool" where
  "literal p \<longleftrightarrow> list_all (\<lambda>c. c \<noteq> 42 \<and> c \<noteq> 63) p"

lemma literal_any_depth [simp]: "\<not> literal any_depth"
  by (simp add: literal_def any_depth_def)

lemma match_chars_literal: "literal p \<Longrightarrow> match_chars uc p t False \<longleftrightarrow> t = p"
proof (induction p arbitrary: t)
  case (Cons h p)
  then show ?case by (cases t) (auto simp: literal_def)
qed simp

lemma match_segment_literal: "literal p \<Longrightarrow> match_segment uc p t False \<longleftrightarrow> t = p"
  by (simp add: match_segment_def match_chars_literal)

lemma match_components_subtree:
  assumes "list_all literal pre"
  shows "match_components uc (subtree_glob pre) c False \<longleftrightarrow> (\<exists>r. c = pre @ r)"
  using assms
proof (induction pre arbitrary: c)
  case Nil
  have "match_components uc (any_depth # []) c False \<longleftrightarrow> True"
    unfolding match_components_double_star by auto
  then show ?case by (simp add: subtree_glob_def del: match_components.simps)
next
  case (Cons h pre)
  then have "h \<noteq> any_depth" by auto
  with Cons show ?case
    by (cases c) (auto simp: subtree_glob_def match_segment_literal)
qed

section \<open>Properties\<close>

text \<open>
  The executable search for a match (\<open>covers\<close>, with its loops over split points) decides
  the declarative reading of a path glob: some ancestor of the path, or the path itself, matches
  the components one by one, \<open>**\<close> standing for any number of components, \<open>*\<close> for any run of
  characters within one component and \<open>?\<close> for exactly one character.
\<close>

theorem covers_declarative:
  "covers uc glob candidate folds \<longleftrightarrow>
     (\<exists>ancestor rest. candidate = ancestor @ rest \<and>
        components_match
          (\<lambda>p t. chars_match (\<lambda>a b. same uc a b folds)
             (if folds then refusing_form p else p) (if folds then refusing_form t else t))
          glob ancestor)"
  unfolding covers_iff_prefix match_components_iff match_segment_def match_chars_iff
  by (cases folds) simp_all

text \<open>
  The glob \<open>prefix/**\<close> that a never-grantable rule shows to the platform appliers renders
  the rule's own prefix test exactly, for a prefix whose components hold no wildcard character:
  the subtree's root is covered, everything below it is, and nothing else.
\<close>

theorem subtree_glob_renders_prefix:
  "list_all literal pre \<Longrightarrow> covers uc (subtree_glob pre) candidate False \<longleftrightarrow> contains pre candidate"
  unfolding covers_iff_prefix
  by (auto simp: match_components_subtree contains_iff)

theorem subtree_glob_renders_prefix_witness:
  "covers ascii_unicode (subtree_glob [u ''etc'', u ''ssh'']) [u ''etc'', u ''ssh'', u ''key''] False \<longleftrightarrow>
     contains [u ''etc'', u ''ssh''] [u ''etc'', u ''ssh'', u ''key'']"
  by (rule subtree_glob_renders_prefix) (simp add: literal_def)

text \<open>
  A refusing comparison refuses at least what the exact one matches, as long as neither the
  pattern nor the text ends in a dot or a space: case folding only widens.
\<close>

theorem refusing_match_widens:
  assumes "pattern = [] \<or> last pattern \<noteq> 46 \<and> last pattern \<noteq> 32"
    and "t = [] \<or> last t \<noteq> 46 \<and> last t \<noteq> 32"
    and "match_segment uc pattern t False"
  shows "match_segment uc pattern t True"
  using assms by (simp add: match_segment_def refusing_form_id match_chars_folds)

theorem refusing_match_widens_witness:
  "match_segment ascii_unicode (u ''rm *'') (u ''rm -rf'') True"
proof (rule refusing_match_widens)
  show "match_segment ascii_unicode (u ''rm *'') (u ''rm -rf'') False" by code_simp
qed simp_all

text \<open>
  Without that condition it does not: the trailing dot of the text is cut before a refusing
  comparison, so a \<open>deny\<close> pattern can miss a text that the same pattern matches as an
  \<open>allow\<close>. A command pattern \<open>git checkout *\<close> matches \<open>git checkout .\<close> exactly and does not
  match it as a refusing pattern, whatever the Unicode tables.
\<close>

theorem refusing_match_misses_final_dot:
  "match_segment uc (u ''git checkout *'') (u ''git checkout .'') False \<and>
   \<not> match_segment uc (u ''git checkout *'') (u ''git checkout .'') True"
proof
  show "match_segment uc (u ''git checkout *'') (u ''git checkout .'') False"
    by (simp add: match_segment_def)
  have "refusing_form (u ''git checkout .'') = u ''git checkout''" by code_simp
  moreover have "refusing_form (u ''git checkout *'') = u ''git checkout *''" by code_simp
  ultimately show "\<not> match_segment uc (u ''git checkout *'') (u ''git checkout .'') True"
    by (simp add: match_segment_def)
qed

end
