(* ===== verification/Command_Line.thy ===== *)
theory Command_Line
  imports Glob
begin

text \<open>
  The command-line scanner of \<open>crates/pane/src/sandbox/profile.rs\<close>: it cuts a line into every
  part a shell would run as a command of its own, and is used by command admission (theory
  Profile) and by the read-only check of the request modes (theory Modes). The source walks a
  \<open>Vec<char>\<close> by index; here the walk carries the character before the current one and the rest
  of the line. Code points: \<open>$\<close> 36, \<open>(\<close> 40, \<open>)\<close> 41, backtick 96, \<open>&\<close> 38, \<open>;\<close> 59, newline 10,
  \<open>|\<close> 124, \<open><\<close> 60, \<open>>\<close> 62.
\<close>

section \<open>The scanner\<close>

text \<open>
  \<open>balanced\<close> returns the text up to the closing delimiter that balances the one already
  consumed, and the rest of the line after it.
\<close>

fun balanced :: "uchar option \<Rightarrow> uchar \<Rightarrow> nat \<Rightarrow> rstr \<Rightarrow> rstr \<times> rstr" where
  "balanced opn close depth [] = ([], [])"
| "balanced opn close depth (c # cs) =
     (if c = close then
        (if depth - 1 = 0 then ([], cs)
         else (let (inner, rest) = balanced opn close (depth - 1) cs in (c # inner, rest)))
      else if Some c = opn then
        (let (inner, rest) = balanced opn close (depth + 1) cs in (c # inner, rest))
      else (let (inner, rest) = balanced opn close depth cs in (c # inner, rest)))"

definition is_redirect_ampersand :: "uchar option \<Rightarrow> uchar option \<Rightarrow> bool" where
  "is_redirect_ampersand prev next \<longleftrightarrow> prev = Some 62 \<or> prev = Some 60 \<or> next = Some 62"

text \<open>\<open>chars.get(index + 1)\<close> on the rest of the line.\<close>

definition first_char :: "rstr \<Rightarrow> uchar option" where
  "first_char cs = (case cs of [] \<Rightarrow> None | c # _ \<Rightarrow> Some c)"

definition flush_segment :: "rstr \<Rightarrow> rstr list" where
  "flush_segment current = (let segment = trim current in if segment = [] then [] else [segment])"

lemma balanced_length: "length (fst (balanced opn close d cs)) + length (snd (balanced opn close d cs)) \<le> length cs"
  by (induction opn close d cs rule: balanced.induct) (auto simp: Let_def split: prod.splits)

lemma balanced_shorter:
  "balanced opn close d cs = (inner, rest) \<Longrightarrow> length inner \<le> length cs \<and> length rest \<le> length cs"
  using balanced_length [of opn close d cs] by simp

text \<open>The loop of \<open>command_segments\<close>: what is pushed, in order, from here to the end of the line.\<close>

function segments_from :: "uchar option \<Rightarrow> rstr \<Rightarrow> rstr \<Rightarrow> rstr list" where
  "segments_from prev current [] = flush_segment current"
| "segments_from prev current (c # cs) =
     (if c = 36 \<and> first_char cs = Some 40 then
        (let (inner, rest) = balanced (Some 40) 41 1 (drop 1 cs)
         in segments_from None [] inner @ segments_from (Some 41) current rest)
      else if c = 96 then
        (let (inner, rest) = balanced None 96 1 cs
         in segments_from None [] inner @ segments_from (Some 96) current rest)
      else if c = 38 \<and> is_redirect_ampersand prev (first_char cs) then
        segments_from (Some c) (current @ [c]) cs
      else if c = 59 \<or> c = 10 \<or> c = 38 \<or> c = 124 then
        flush_segment current @ segments_from (Some c) [] cs
      else segments_from (Some c) (current @ [c]) cs)"
  by pat_completeness auto
termination
proof (relation "measure (\<lambda>(prev, current, cs). length cs)", goal_cases)
  case (2 prev current c cs x inner rest)
  then show ?case using balanced_shorter [of "Some 40" 41 1 "drop 1 cs" inner rest] by auto
next
  case (3 prev current c cs x inner rest)
  then show ?case using balanced_shorter [of "Some 40" 41 1 "drop 1 cs" inner rest] by auto
next
  case (4 prev current c cs x inner rest)
  then show ?case using balanced_shorter [of None 96 1 cs inner rest] by auto
next
  case (5 prev current c cs x inner rest)
  then show ?case using balanced_shorter [of None 96 1 cs inner rest] by auto
qed auto

definition command_segments :: "rstr \<Rightarrow> rstr list" where
  "command_segments command_line = segments_from None [] command_line"

section \<open>Words of one segment\<close>

definition is_redirect_word :: "rstr \<Rightarrow> bool" where
  "is_redirect_word word =
     (case (case strip_pre (u ''&>>'') word of Some r \<Rightarrow> Some r | None \<Rightarrow> strip_pre (u ''&>'') word) of
        Some rest \<Rightarrow> rest \<noteq> []
      | None \<Rightarrow>
          (let rest = dropWhile is_ascii_digit word;
               operand = (case strip_pre (u ''>>'') rest of Some r \<Rightarrow> Some r
                          | None \<Rightarrow> (case strip_pre (u ''>'') rest of Some r \<Rightarrow> Some r
                                     | None \<Rightarrow> strip_pre (u ''<'') rest))
           in case operand of Some r \<Rightarrow> r \<noteq> [] | None \<Rightarrow> False))"

text \<open>The loop of \<open>skip_leading_redirects\<close>; \<open>rest\<close> never starts with white space.\<close>

function skip_redirects :: "rstr \<Rightarrow> rstr" where
  "skip_redirects rest =
     (let word = takeWhile (\<lambda>c. \<not> is_ws c) rest
      in if word = [] \<or> \<not> is_redirect_word word then rest
         else skip_redirects (trim_start (dropWhile (\<lambda>c. \<not> is_ws c) rest)))"
  by pat_completeness auto
termination
proof (relation "measure length", goal_cases)
  case (2 rest word)
  then obtain c cs where r: "rest = c # cs" "\<not> is_ws c"
    by (cases rest) (auto split: if_splits)
  have "length (trim_start (dropWhile (\<lambda>c. \<not> is_ws c) rest))
          \<le> length (dropWhile (\<lambda>c. \<not> is_ws c) rest)"
    by (simp add: trim_start_def length_dropWhile_le)
  also have "\<dots> \<le> length cs" using r by (simp add: length_dropWhile_le)
  finally show ?case using r by simp
qed simp

declare skip_redirects.simps [simp del]

definition skip_leading_redirects :: "rstr \<Rightarrow> rstr" where
  "skip_leading_redirects segment = skip_redirects (trim_start segment)"

definition opaque_char :: "uchar \<Rightarrow> bool" where
  "opaque_char c \<longleftrightarrow> c \<in> set (u [CHR ''$'', CHR 0x60, CHR 0x27, CHR 0x22, CHR 0x5C, CHR ''*'',
     CHR ''?'', CHR ''['', CHR '']'', CHR ''{'', CHR ''}'', CHR ''('', CHR '')''])"

definition literal_executable :: "rstr \<Rightarrow> rstr option" where
  "literal_executable command =
     (case split_whitespace command of [] \<Rightarrow> None
      | word # _ \<Rightarrow> if list_ex opaque_char word then None else Some word)"

section \<open>Names that re-enter the sandbox launcher or attach a debugger\<close>

definition NEVER_GRANTABLE_LAUNCHERS :: "rstr list" where
  "NEVER_GRANTABLE_LAUNCHERS = [u ''sandbox-exec'', u ''bwrap'', u ''bubblewrap'']"

definition NEVER_GRANTABLE_DEBUGGERS :: "rstr list" where
  "NEVER_GRANTABLE_DEBUGGERS =
     [u ''lldb'', u ''gdb'', u ''strace'', u ''ltrace'', u ''dtrace'', u ''dtruss'', u ''windbg'',
      u ''x64dbg'', u ''vsjitdebugger.exe'']"

definition never_grantable_commands :: "bool \<Rightarrow> rstr list" where
  "never_grantable_commands container_mode =
     NEVER_GRANTABLE_LAUNCHERS @ (if container_mode then [] else NEVER_GRANTABLE_DEBUGGERS)"

text \<open>The word without its quoting and grouping characters, after its last slash or backslash.\<close>

definition escape_base :: "rstr \<Rightarrow> rstr" where
  "escape_base word =
     last (split_on (\<lambda>c. c = 47 \<or> c = 92)
       (trim_matches
         (\<lambda>c. c \<in> set (u [CHR 0x22, CHR 0x27, CHR 0x60, CHR ''('', CHR '')'', CHR '';'', CHR ''&'',
                          CHR ''|''])) word))"

definition escaping_command :: "rstr \<Rightarrow> bool \<Rightarrow> rstr option" where
  "escaping_command command_line container_mode =
     find_map (\<lambda>word. List.find (\<lambda>name. eq_ignore_ascii_case (escape_base word) name)
                        (never_grantable_commands container_mode))
       (split_whitespace command_line)"

declare is_redirect_ampersand_def [scan_eval] first_char_def [scan_eval] flush_segment_def [scan_eval]
declare command_segments_def [scan_eval] is_redirect_word_def [scan_eval]
declare skip_redirects.simps [scan_eval] skip_leading_redirects_def [scan_eval]
declare opaque_char_def [scan_eval] literal_executable_def [scan_eval] escape_base_def [scan_eval]
declare NEVER_GRANTABLE_LAUNCHERS_def [scan_eval] NEVER_GRANTABLE_DEBUGGERS_def [scan_eval]
declare never_grantable_commands_def [scan_eval] escaping_command_def [scan_eval]

section \<open>Lemmas about the scanner\<close>

text \<open>The operators that end a segment; \<open>&\<close> is one only outside a redirect.\<close>

definition separator :: "uchar \<Rightarrow> bool" where
  "separator c \<longleftrightarrow> c = 59 \<or> c = 10 \<or> c = 124"

text \<open>Characters the scanner copies into a segment wherever they stand.\<close>

definition plain_char :: "uchar \<Rightarrow> bool" where
  "plain_char c \<longleftrightarrow> c \<noteq> 36 \<and> c \<noteq> 96 \<and> c \<noteq> 38 \<and> \<not> separator c"

definition ordinary :: "uchar \<Rightarrow> bool" where
  "ordinary c \<longleftrightarrow> plain_char c \<and> c \<noteq> 40 \<and> c \<noteq> 41 \<and> \<not> is_ws c"

lemma flush_segment_clean:
  "s \<in> set (flush_segment cur) \<Longrightarrow> s \<noteq> [] \<and> \<not> is_ws (hd s) \<and> \<not> is_ws (last s) \<and> set s \<subseteq> set cur"
  using set_trim [of cur] trim_matches_ends [of is_ws cur]
  by (auto simp: flush_segment_def Let_def trim_def split: if_splits)

lemma segments_from_clean:
  assumes "list_all (\<lambda>c. \<not> separator c \<and> c \<noteq> 96) cur"
  shows "list_all (\<lambda>s. s \<noteq> [] \<and> \<not> is_ws (hd s) \<and> \<not> is_ws (last s) \<and>
           list_all (\<lambda>c. \<not> separator c \<and> c \<noteq> 96) s) (segments_from prev cur cs)"
    (is "list_all ?clean _")
  using assms
proof (induction prev cur cs rule: segments_from.induct)
  case (1 prev cur)
  then show ?case
    by (auto simp: list_all_iff dest!: flush_segment_clean)
next
  case (2 prev cur c cs)
  consider (dollar) "c = 36 \<and> first_char cs = Some 40"
    | (tick) "\<not> (c = 36 \<and> first_char cs = Some 40)" "c = 96"
    | (redir) "\<not> (c = 36 \<and> first_char cs = Some 40)" "c \<noteq> 96"
        "c = 38 \<and> is_redirect_ampersand prev (first_char cs)"
    | (sep) "\<not> (c = 36 \<and> first_char cs = Some 40)" "c \<noteq> 96"
        "\<not> (c = 38 \<and> is_redirect_ampersand prev (first_char cs))"
        "c = 59 \<or> c = 10 \<or> c = 38 \<or> c = 124"
    | (other) "\<not> (c = 36 \<and> first_char cs = Some 40)" "c \<noteq> 96"
        "\<not> (c = 38 \<and> is_redirect_ampersand prev (first_char cs))"
        "\<not> (c = 59 \<or> c = 10 \<or> c = 38 \<or> c = 124)"
    by blast
  then show ?case
  proof cases
    case dollar
    obtain inner rest where b: "balanced (Some 40) 41 1 (drop 1 cs) = (inner, rest)"
      by fastforce
    have "list_all ?clean (segments_from None [] inner)"
      using dollar b by (intro "2.IH"(1)) auto
    moreover have "list_all ?clean (segments_from (Some 41) cur rest)"
      using dollar b "2.prems" by (intro "2.IH"(2)) auto
    ultimately show ?thesis using dollar b by simp
  next
    case tick
    obtain inner rest where b: "balanced None 96 1 cs = (inner, rest)"
      by fastforce
    have "list_all ?clean (segments_from None [] inner)"
      using tick b by (intro "2.IH"(3)) auto
    moreover have "list_all ?clean (segments_from (Some 96) cur rest)"
      using tick b "2.prems" by (intro "2.IH"(4)) auto
    ultimately show ?thesis using tick b by simp
  next
    case redir
    then have "list_all ?clean (segments_from (Some c) (cur @ [c]) cs)"
      using "2.prems" by (intro "2.IH"(5)) (auto simp: separator_def)
    then show ?thesis using redir by simp
  next
    case sep
    then have "list_all ?clean (segments_from (Some c) [] cs)"
      by (intro "2.IH"(6)) auto
    moreover have "list_all ?clean (flush_segment cur)"
      using "2.prems" by (auto simp: list_all_iff dest!: flush_segment_clean)
    ultimately show ?thesis using sep by auto
  next
    case other
    then have "list_all ?clean (segments_from (Some c) (cur @ [c]) cs)"
      using "2.prems" by (intro "2.IH"(7)) (auto simp: separator_def)
    then show ?thesis using other by (auto simp del: One_nat_def)
  qed
qed

lemma ordinary_ws: "is_ws c \<Longrightarrow> \<not> ordinary c"
  by (simp add: ordinary_def)

lemma ordinary_special [simp]:
  "\<not> ordinary 36" "\<not> ordinary 96" "\<not> ordinary 38" "\<not> ordinary 40" "\<not> ordinary 41"
  "\<not> ordinary 59" "\<not> ordinary 10" "\<not> ordinary 124"
  by (simp_all add: ordinary_def plain_char_def separator_def)

lemma balanced_keeps:
  assumes "\<not> ordinary close"
  shows "mset (filter ordinary (fst (balanced opn close d cs))) +
         mset (filter ordinary (snd (balanced opn close d cs))) = mset (filter ordinary cs)"
  using assms by (induction opn close d cs rule: balanced.induct) (auto simp: Let_def split: prod.splits)

lemma flush_segment_keeps:
  "filter_mset ordinary (mset (concat (flush_segment cur))) = filter_mset ordinary (mset cur)"
proof -
  have "filter ordinary (concat (flush_segment cur)) = filter ordinary cur"
    using filter_trim_matches [of is_ws ordinary cur]
    by (auto simp: flush_segment_def Let_def trim_def ordinary_ws)
  then show ?thesis by (simp flip: mset_filter)
qed

lemma first_char_SomeD: "first_char cs = Some c \<Longrightarrow> cs = c # drop 1 cs"
  by (auto simp: first_char_def split: list.splits)

lemma segments_from_keeps:
  "mset (filter ordinary (concat (segments_from prev cur cs))) =
     mset (filter ordinary cur) + mset (filter ordinary cs)"
proof (induction prev cur cs rule: segments_from.induct)
  case (1 prev cur)
  then show ?case by (simp add: flush_segment_keeps)
next
  case (2 prev cur c cs)
  consider (dollar) "c = 36 \<and> first_char cs = Some 40"
    | (tick) "\<not> (c = 36 \<and> first_char cs = Some 40)" "c = 96"
    | (rest) "\<not> (c = 36 \<and> first_char cs = Some 40)" "c \<noteq> 96"
    by blast
  then show ?case
  proof cases
    case dollar
    obtain inner rest where b: "balanced (Some 40) 41 1 (drop 1 cs) = (inner, rest)"
      by fastforce
    have "filter ordinary cs = filter ordinary (drop 1 cs)"
      using dollar first_char_SomeD [of cs 40] by (metis filter.simps(2) ordinary_special(4))
    then show ?thesis
      using dollar b "2.IH"(1,2) [of "(inner, rest)" inner rest]
        balanced_keeps [of 41 "Some 40" 1 "drop 1 cs"] by (simp add: ac_simps)
  next
    case tick
    obtain inner rest where b: "balanced None 96 1 cs = (inner, rest)"
      by fastforce
    then show ?thesis
      using tick "2.IH"(3,4) [of "(inner, rest)" inner rest] balanced_keeps [of 96 None 1 cs]
      by (simp add: ac_simps)
  next
    case rest
    then show ?thesis
      using "2.IH"(5-7) by (auto simp: flush_segment_keeps)
  qed
qed

lemma segments_from_prev:
  "p \<noteq> Some 60 \<Longrightarrow> p \<noteq> Some 62 \<Longrightarrow> segments_from p cur cs = segments_from None cur cs"
  by (cases cs) (simp_all add: is_redirect_ampersand_def)

lemma segments_from_plain:
  "list_all plain_char a \<Longrightarrow>
     segments_from p cur (a @ cs) = segments_from (if a = [] then p else Some (last a)) (cur @ a) cs"
proof (induction a arbitrary: p cur)
  case (Cons c a)
  then show ?case by (auto simp: plain_char_def separator_def)
qed simp

lemma balanced_flat:
  "list_all (\<lambda>c. Some c \<noteq> opn \<and> c \<noteq> close) a \<Longrightarrow> balanced opn close 1 (a @ close # cs) = (a, cs)"
  by (induction a) auto

lemma flush_segment_plain: "list_all plain_char a \<Longrightarrow> command_segments a = flush_segment a"
  using segments_from_plain [of a None "[]" "[]"] by (simp add: command_segments_def)

lemma command_segments_split:
  assumes "list_all plain_char a" and "separator s"
  shows "command_segments (a @ s # rest) = command_segments a @ command_segments rest"
proof -
  have "segments_from (Some s) [] rest = segments_from None [] rest"
    using assms(2) by (intro segments_from_prev) (auto simp: separator_def)
  moreover have "command_segments (a @ s # rest) = flush_segment a @ segments_from (Some s) [] rest"
    using assms by (auto simp: command_segments_def segments_from_plain separator_def)
  ultimately show ?thesis
    using flush_segment_plain [OF assms(1)] by (simp add: command_segments_def)
qed

section \<open>Properties\<close>

text \<open>
  Every segment the scanner hands to the pattern check is one command: it is not empty, it
  has no white space at either end, and no sequence operator, pipe, newline or backtick is left
  inside it, whatever the command line.
\<close>

theorem command_segments_clean:
  "list_all (\<lambda>s. s \<noteq> [] \<and> \<not> is_ws (hd s) \<and> \<not> is_ws (last s) \<and>
      list_all (\<lambda>c. \<not> separator c \<and> c \<noteq> 96) s) (command_segments command_line)"
  unfolding command_segments_def by (rule segments_from_clean) simp

text \<open>
  Nothing of a command line escapes the check: every character that is not white space, an
  operator, a parenthesis, a dollar sign or a backtick stands in exactly one segment, also when
  it stands inside a command substitution, closed or not.
\<close>

theorem command_segments_complete:
  "mset (filter ordinary (concat (command_segments command_line))) =
     mset (filter ordinary command_line)"
  unfolding command_segments_def by (simp add: segments_from_keeps del: mset_filter)

text \<open>
  The scanner works part by part: at the first sequence operator, pipe or newline the part
  before it is one segment and the rest of the line is scanned as a line of its own.
\<close>

theorem command_segments_sequence:
  assumes "list_all plain_char a" and "separator sep"
  shows "command_segments (a @ sep # rest) = flush_segment a @ command_segments rest"
  using command_segments_split [OF assms] flush_segment_plain [OF assms(1)] by simp

theorem command_segments_sequence_witness:
  "command_segments (u ''ls -l '' @ 59 # u '' rm x'') =
     flush_segment (u ''ls -l '') @ command_segments (u '' rm x'')"
  by (rule command_segments_sequence) (simp_all add: plain_char_def separator_def)

text \<open>
  The contents of a command substitution are scanned as a command line in their own right,
  before the command that holds it, so a command hidden in an argument is asked about too.
\<close>

theorem command_segments_substitution:
  assumes "list_all plain_char a" and "list_all (\<lambda>c. c \<noteq> 40 \<and> c \<noteq> 41) inner"
  shows "command_segments (a @ u ''$('' @ inner @ 41 # rest) =
           command_segments inner @ segments_from (Some 41) a rest"
proof -
  have "balanced (Some 40) 41 1 (inner @ 41 # rest) = (inner, rest)"
    using assms(2) by (intro balanced_flat) (auto simp: list_all_iff)
  then show ?thesis
    using assms(1) by (simp add: command_segments_def segments_from_plain first_char_def)
qed

theorem command_segments_substitution_witness:
  "command_segments (u ''echo '' @ u ''$('' @ u ''rm x'' @ 41 # u '' | cat'') =
     command_segments (u ''rm x'') @ segments_from (Some 41) (u ''echo '') (u '' | cat'')"
  by (rule command_segments_substitution) (simp_all add: plain_char_def separator_def)

end
