(* ===== verification/Paths.thy ===== *)
theory Paths
  imports Glob
begin

text \<open>
  Paths as \<open>crates/pane/src/sandbox/profile.rs\<close> handles them on a Unix host. A path a caller
  passes is its raw text (\<open>rstr\<close>); a path the code has rebuilt component by component is an
  \<open>npath\<close>: absolute or not, and its normal components. The file system and the environment are
  the record \<open>host\<close>, whose fields are the calls the code makes (\<open>std::fs\<close>, \<open>std::env\<close>); each
  takes the path's text. Paths are assumed to be valid Unicode, so \<open>to_string_lossy\<close> is the
  identity. The lemmas relate the spellings of one path and show that a resolved path is absolute.
\<close>

section \<open>The host and the standard library's paths\<close>

text \<open>A \<open>PathBuf\<close> built by pushing components: \<open>NPath True [usr, bin]\<close> is \<open>/usr/bin\<close>.\<close>

datatype npath = NPath (np_abs: bool) (np_names: "rstr list")

text \<open>
  What \<open>fs::metadata\<close> says of the link count: whether it is a regular file and how many names
  it has, that nothing is there, or another error.
\<close>

datatype link_meta = Linked bool nat | NothingThere | MetaError rstr

record host = unicode +
  canonicalize :: "rstr \<Rightarrow> npath option"
  path_exists :: "rstr \<Rightarrow> bool"
  read_link :: "rstr \<Rightarrow> rstr option"
  is_dir :: "rstr \<Rightarrow> bool"
  is_file :: "rstr \<Rightarrow> bool"
  read_to_string :: "rstr \<Rightarrow> rstr option"
  link_metadata :: "rstr \<Rightarrow> link_meta"
  env_var :: "rstr \<Rightarrow> rstr option"
  current_dir :: "rstr option"

definition sep :: uchar where "sep = 47"

definition display :: "npath \<Rightarrow> rstr" where
  "display p = (if np_abs p then [sep] else []) @ join_with [sep] (np_names p)"

definition is_absolute :: "rstr \<Rightarrow> bool" where
  "is_absolute path \<longleftrightarrow> starts_with path [sep]"

text \<open>\<open>Path::join\<close>: an absolute argument replaces the base.\<close>

definition join_path :: "rstr \<Rightarrow> rstr \<Rightarrow> rstr" where
  "join_path base path =
     (if is_absolute path then path
      else if base = [] \<or> last base = sep then base @ path
      else base @ [sep] @ path)"

datatype comp = RootDir | CurDir | ParentDir | Normal rstr

definition part_comps :: "rstr \<Rightarrow> comp list" where
  "part_comps part =
     (if part = [] \<or> part = u ''.'' then [] else if part = u ''..'' then [ParentDir] else [Normal part])"

text \<open>\<open>Path::components\<close>: empty parts and inner \<open>.\<close> parts vanish, a leading \<open>.\<close> stays.\<close>

definition components :: "rstr \<Rightarrow> comp list" where
  "components path =
     (let parts = split_on (\<lambda>c. c = sep) path;
          body = concat (map part_comps parts)
      in if is_absolute path then RootDir # body
         else (if hd parts = u ''.'' then [CurDir] else []) @ body)"

definition push :: "npath \<Rightarrow> comp \<Rightarrow> npath" where
  "push p c = (case c of
     RootDir \<Rightarrow> NPath True []
   | Normal name \<Rightarrow> NPath (np_abs p) (np_names p @ [name])
   | _ \<Rightarrow> p)"

text \<open>\<open>PathBuf::pop\<close>, \<open>Path::parent\<close> and \<open>Path::file_name\<close> on such a path.\<close>

definition pop :: "npath \<Rightarrow> npath" where
  "pop p = NPath (np_abs p) (butlast (np_names p))"

definition file_name :: "npath \<Rightarrow> rstr option" where
  "file_name p = (if np_names p = [] then None else Some (last (np_names p)))"

definition empty_path :: npath where
  "empty_path = NPath False []"

section \<open>Spelling\<close>

definition fold_backslashes :: "rstr \<Rightarrow> rstr" where
  "fold_backslashes t = map (\<lambda>c. if c = 92 then sep else c) t"

definition is_drive_prefixed :: "rstr \<Rightarrow> bool" where
  "is_drive_prefixed t \<longleftrightarrow> (case t of drive # colon # _ \<Rightarrow> is_ascii_alpha drive \<and> colon = 58 | _ \<Rightarrow> False)"

definition reduced_device :: "rstr \<Rightarrow> rstr option" where
  "reduced_device folded =
     (case (case strip_pre (u ''//?/'') folded of Some r \<Rightarrow> Some r | None \<Rightarrow> strip_pre (u ''//./'') folded) of
        None \<Rightarrow> None
      | Some rest \<Rightarrow>
          if is_drive_prefixed rest \<and> 2 < length rest \<and> rest ! 2 = sep then Some rest
          else if 4 \<le> length rest \<and> eq_ignore_ascii_case (take 4 rest) (u ''unc/'')
          then Some (u ''//'' @ drop 4 rest)
          else None)"

definition upper_drive :: "rstr list \<Rightarrow> rstr list" where
  "upper_drive parts = (case parts of
     [] \<Rightarrow> []
   | first # others \<Rightarrow>
       if is_drive_prefixed first then (ascii_upper (hd first) # tl first) # others else parts)"

definition spelling_of :: "rstr \<Rightarrow> rstr list" where
  "spelling_of path =
     (let folded = fold_backslashes path;
          t = (case reduced_device folded of Some r \<Rightarrow> r | None \<Rightarrow> folded);
          parts = filter (\<lambda>part. part \<noteq> []) (split_on (\<lambda>c. c = sep) t)
      in upper_drive parts)"

definition spelling :: "npath \<Rightarrow> rstr list" where
  "spelling p = spelling_of (display p)"

definition shown :: "npath \<Rightarrow> rstr" where
  "shown p = (let t = display p in case reduced_device (fold_backslashes t) of Some r \<Rightarrow> r | None \<Rightarrow> t)"

definition device_refusal :: "npath \<Rightarrow> bool" where
  "device_refusal p =
     (let folded = fold_backslashes (display p);
          device = starts_with folded (u ''//?/'') \<or> starts_with folded (u ''//./'')
      in device \<and> reduced_device folded = None)"

text \<open>The alternate-data-stream suffix cut off the last of at least two components.\<close>

definition stream_stripped :: "rstr list \<Rightarrow> rstr list option" where
  "stream_stripped candidate =
     (if length candidate \<le> 1 then None
      else (let lst = last candidate;
                base = takeWhile (\<lambda>c. c \<noteq> 58) lst
            in if base = [] \<or> length base = length lst then None
               else Some (butlast candidate @ [base])))"

definition windows_rooted :: "rstr \<Rightarrow> bool" where
  "windows_rooted path =
     (let t = fold_backslashes path in starts_with t (u ''//'') \<or> is_drive_prefixed t)"

definition windows_absolute :: "rstr \<Rightarrow> bool" where
  "windows_absolute path =
     (let t = fold_backslashes path
      in starts_with t (u ''//'') \<or>
         (1 < length t \<and> t ! 1 = 58 \<and> 2 < length t \<and> t ! 2 = sep \<and> is_ascii_alpha (t ! 0)))"

definition windows_drive_relative :: "rstr \<Rightarrow> bool" where
  "windows_drive_relative path =
     (let t = fold_backslashes path
      in 1 < length t \<and> t ! 1 = 58 \<and> is_ascii_alpha (t ! 0) \<and> \<not> (2 < length t \<and> t ! 2 = sep))"

text \<open>A project root that could not be anchored: ambiguous, or the working directory's error.\<close>

datatype anchor_error = DriveRelativeRoot | NoCurrentDir

definition anchor_project_root :: "rstr \<Rightarrow> rstr option \<Rightarrow> anchor_error + rstr" where
  "anchor_project_root supplied cwd =
     (if windows_drive_relative supplied then Inl DriveRelativeRoot
      else if is_absolute supplied \<or> windows_absolute supplied then Inr supplied
      else (case cwd of None \<Rightarrow> Inl NoCurrentDir | Some dir \<Rightarrow> Inr (join_path dir supplied)))"

section \<open>Resolution\<close>

definition home_dir :: "('a) host_scheme \<Rightarrow> rstr option" where
  "home_dir h =
     find_map (\<lambda>key. case env_var h key of Some v \<Rightarrow> (if v = [] then None else Some v) | None \<Rightarrow> None)
       [u ''HOME'', u ''USERPROFILE'']"

definition expand_tilde :: "('a) host_scheme \<Rightarrow> rstr \<Rightarrow> npath option \<Rightarrow> rstr" where
  "expand_tilde h path home =
     (case strip_pre (u ''~'') path of
        None \<Rightarrow> path
      | Some rest \<Rightarrow>
          if \<not> (rest = [] \<or> hd rest = sep \<or> hd rest = 92) then path
          else (case (case home of Some p \<Rightarrow> Some (display p) | None \<Rightarrow> home_dir h) of
                  None \<Rightarrow> path
                | Some dir \<Rightarrow>
                    (let rest' = dropWhile (\<lambda>c. c = sep \<or> c = 92) rest
                     in if rest' = [] then dir else join_path dir rest')))"

definition DANGLING_LINK_LIMIT :: nat where
  "DANGLING_LINK_LIMIT = 40"

text \<open>
  The walk of \<open>resolve_components\<close> over the remaining components (with \<open>out\<close>, the path built so
  far) and the loop of \<open>canonical_prefix\<close> (with \<open>tail\<close>, the names taken off so far, in
  path order) call each other; \<open>links\<close> counts the dangling links followed. The \<open>break\<close> after a failed
  \<open>pop\<close> has no branch: a path with a file name can be popped.
\<close>

function resolve_walk :: "('a) host_scheme \<Rightarrow> comp list \<Rightarrow> npath \<Rightarrow> nat \<Rightarrow> npath"
  and prefix_loop :: "('a) host_scheme \<Rightarrow> npath \<Rightarrow> rstr list \<Rightarrow> nat \<Rightarrow> npath" where
  "resolve_walk h [] out links = prefix_loop h out [] links"
| "resolve_walk h (c # cs) out links =
     (case c of
        CurDir \<Rightarrow> resolve_walk h cs out links
      | ParentDir \<Rightarrow> resolve_walk h cs (pop (prefix_loop h out [] links)) links
      | RootDir \<Rightarrow> resolve_walk h cs (push out RootDir) links
      | Normal name \<Rightarrow> resolve_walk h cs (push out (Normal name)) links)"
| "prefix_loop h pre tail links =
     (let finish = (let resolved = (case canonicalize h (display pre) of Some p \<Rightarrow> p | None \<Rightarrow> pre)
                    in NPath (np_abs resolved) (np_names resolved @ tail))
      in if path_exists h (display pre) then finish
         else (case (if links < DANGLING_LINK_LIMIT then read_link h (display pre) else None) of
                 Some target \<Rightarrow>
                   resolve_walk h
                     (components (if np_names pre = [] then target
                                  else join_path (display (pop pre)) target) @ map Normal tail)
                     empty_path (Suc links)
               | None \<Rightarrow>
                   (case file_name pre of
                      None \<Rightarrow> finish
                    | Some name \<Rightarrow> prefix_loop h (pop pre) (name # tail) links)))"
  by pat_completeness auto
termination
  by (relation "measures
       [\<lambda>x. case x of Inl (h, cs, out, links) \<Rightarrow> DANGLING_LINK_LIMIT - links
                    | Inr (h, pre, tail, links) \<Rightarrow> DANGLING_LINK_LIMIT - links,
        \<lambda>x. case x of Inl _ \<Rightarrow> 1 | Inr _ \<Rightarrow> 0,
        \<lambda>x. case x of Inl (h, cs, out, links) \<Rightarrow> length cs
                    | Inr (h, pre, tail, links) \<Rightarrow> length (np_names pre)]")
     (auto simp: file_name_def pop_def split: if_splits)

definition resolve_components :: "('a) host_scheme \<Rightarrow> rstr \<Rightarrow> nat \<Rightarrow> npath" where
  "resolve_components h expanded links = resolve_walk h (components expanded) empty_path links"

definition canonical_prefix :: "('a) host_scheme \<Rightarrow> npath \<Rightarrow> nat \<Rightarrow> npath" where
  "canonical_prefix h path links = prefix_loop h path [] links"

definition resolve :: "('a) host_scheme \<Rightarrow> rstr \<Rightarrow> npath option \<Rightarrow> npath option \<Rightarrow> npath" where
  "resolve h path root home =
     (let expanded = expand_tilde h path home;
          anchored = (case root of
             None \<Rightarrow> expanded
           | Some r \<Rightarrow>
               if \<not> is_absolute expanded \<and> \<not> (windows_rooted expanded \<and> windows_rooted (display r))
               then join_path (display r) expanded else expanded)
      in resolve_components h anchored 0)"

section \<open>Written patterns\<close>

definition is_rooted :: "rstr \<Rightarrow> bool" where
  "is_rooted pattern \<longleftrightarrow>
     starts_with pattern [sep] \<or> pattern = u ''~'' \<or> starts_with pattern (u ''~/'') \<or>
     (1 < length pattern \<and> pattern ! 1 = 58 \<and> is_ascii_alpha (pattern ! 0))"

definition ordinary_spelling :: "rstr \<Rightarrow> rstr" where
  "ordinary_spelling folded = (case reduced_device folded of Some r \<Rightarrow> r | None \<Rightarrow> folded)"

definition has_wildcard :: "rstr \<Rightarrow> bool" where
  "has_wildcard part \<longleftrightarrow> list_ex (\<lambda>c. c = 42 \<or> c = 63) part"

definition resolve_pattern :: "('a) host_scheme \<Rightarrow> npath \<Rightarrow> npath option \<Rightarrow> rstr \<Rightarrow> rstr list" where
  "resolve_pattern h root home pattern =
     (let normalized = ordinary_spelling (fold_backslashes pattern);
          anchored = (if is_rooted normalized then normalized
                      else ordinary_spelling (fold_backslashes (display root)) @ [sep] @ normalized);
          parts = split_on (\<lambda>c. c = sep) anchored;
          literals = takeWhile (\<lambda>part. \<not> has_wildcard part) parts;
          rest = dropWhile (\<lambda>part. \<not> has_wildcard part) parts;
          literal_path = join_with [sep] literals;
          out = (if literal_path = [] then []
                 else spelling (resolve h literal_path (Some root) home))
      in out @ filter (\<lambda>part. part \<noteq> []) rest)"

text \<open>\<open>Name(argument)\<close> split into its parts; a bare \<open>Name\<close> has no argument.\<close>

definition split_pattern :: "rstr \<Rightarrow> rstr \<times> rstr option" where
  "split_pattern pattern0 =
     (let pattern = trim pattern0
      in if \<not> list_ex (\<lambda>c. c = 40) pattern \<or> \<not> ends_with pattern (u '')'') then (pattern, None)
         else (let name = takeWhile (\<lambda>c. c \<noteq> 40) pattern
               in (name, Some (butlast (drop (Suc (length name)) pattern)))))"

section \<open>Lemmas\<close>

lemma is_absolute_Cons [simp]: "is_absolute (sep # t)"
  by (simp add: is_absolute_def)

lemma is_absolute_iff: "is_absolute t \<longleftrightarrow> (\<exists>r. t = sep # r)"
  by (auto simp: is_absolute_def)

lemma is_absolute_join: "is_absolute base \<Longrightarrow> is_absolute (join_path base t)"
  by (auto simp: join_path_def is_absolute_iff)

lemma is_absolute_display: "np_abs p \<Longrightarrow> is_absolute (display p)"
  by (simp add: display_def)

lemma components_absolute: "is_absolute t \<Longrightarrow> \<exists>cs. components t = RootDir # cs"
  by (simp add: components_def Let_def)

lemma push_abs [simp]:
  "np_abs (push p RootDir)" "np_abs (push p (Normal n)) = np_abs p" "np_abs (pop p) = np_abs p"
  by (simp_all add: push_def pop_def)

lemma upper_drive_clean:
  "list_all (\<lambda>w. w \<noteq> [] \<and> sep \<notin> set w \<and> 92 \<notin> set w) ws \<Longrightarrow>
   list_all (\<lambda>w. w \<noteq> [] \<and> sep \<notin> set w \<and> 92 \<notin> set w) (upper_drive ws)"
proof (cases ws)
  case (Cons w others)
  assume clean: "list_all (\<lambda>w. w \<noteq> [] \<and> sep \<notin> set w \<and> 92 \<notin> set w) ws"
  then obtain c cs where w: "w = c # cs" using Cons by (cases w) auto
  have "is_ascii_alpha c \<Longrightarrow> ascii_upper c \<noteq> sep \<and> ascii_upper c \<noteq> 92"
    by (auto simp: is_ascii_alpha_def ascii_upper_def sep_def)
  then show ?thesis
    using clean Cons w by (auto simp: upper_drive_def is_drive_prefixed_def split: list.splits)
qed (simp add: upper_drive_def)

lemma fold_backslashes_clean: "92 \<notin> set (fold_backslashes t)"
  by (auto simp: fold_backslashes_def sep_def)

lemma strip_pre_subset: "strip_pre p t = Some r \<Longrightarrow> set r \<subseteq> set t"
  by (auto simp: strip_pre_iff)

lemma reduced_device_SomeD:
  assumes "reduced_device t = Some r"
  shows "\<exists>rest. set rest \<subseteq> set t \<and> (r = rest \<or> r = u ''//'' @ drop 4 rest)"
proof -
  obtain rest where "strip_pre (u ''//?/'') t = Some rest \<or> strip_pre (u ''//./'') t = Some rest"
    and r: "r = rest \<or> r = u ''//'' @ drop 4 rest"
    using assms unfolding reduced_device_def
    by (auto simp del: strip_pre.simps u.simps split: option.splits if_splits)
  then have "set rest \<subseteq> set t" using strip_pre_subset by blast
  with r show ?thesis by blast
qed

lemma reduced_device_set: "reduced_device t = Some r \<Longrightarrow> set r \<subseteq> set t \<union> {sep}"
  by (auto simp: sep_def dest!: reduced_device_SomeD in_set_dropD)

lemma split_on_set: "w \<in> set (split_on P t) \<Longrightarrow> set w \<subseteq> set t"
proof (induction t arbitrary: w)
  case (Cons x t)
  then show ?case
    by (cases "split_on P t") (fastforce split: if_splits)+
qed auto

lemma spelling_of_parts:
  assumes "92 \<notin> set t"
  shows "list_all (\<lambda>w. w \<noteq> [] \<and> sep \<notin> set w \<and> 92 \<notin> set w)
           (filter (\<lambda>part. part \<noteq> []) (split_on (\<lambda>c. c = sep) t))"
  using assms split_on_clean [of _ "\<lambda>c. c = sep" t] split_on_set [of _ "\<lambda>c. c = sep" t]
  by (auto simp: list_all_iff)

text \<open>What the theorems below use of \<open>std::fs\<close>: the root exists and canonical paths are absolute.\<close>

definition unix_host :: "('a) host_scheme \<Rightarrow> bool" where
  "unix_host h \<longleftrightarrow> path_exists h [sep] \<and> (\<forall>t p. canonicalize h t = Some p \<longrightarrow> np_abs p)"

text \<open>A host on which only the root directory exists, for closed examples.\<close>

definition bare_host :: host where
  "bare_host = \<lparr>lower_char = (\<lambda>c. [ascii_lower c]), lower_str = map ascii_lower,
     canonicalize = (\<lambda>t. if t = [sep] then Some (NPath True []) else None),
     path_exists = (\<lambda>t. t = [sep]), read_link = (\<lambda>_. None), is_dir = (\<lambda>t. t = [sep]),
     is_file = (\<lambda>_. False), read_to_string = (\<lambda>_. None), link_metadata = (\<lambda>_. NothingThere),
     env_var = (\<lambda>_. None), current_dir = None\<rparr>"

lemma unix_host_bare [simp]: "unix_host bare_host"
  by (simp add: unix_host_def bare_host_def)

lemma display_root: "np_abs p \<Longrightarrow> np_names p = [] \<Longrightarrow> display p = [sep]"
  by (simp add: display_def)

lemma resolve_walk_absolute:
  "unix_host h \<Longrightarrow> np_abs out \<or> (\<exists>ds. cs = RootDir # ds) \<Longrightarrow> np_abs (resolve_walk h cs out links)"
  and prefix_loop_absolute:
  "unix_host h \<Longrightarrow> np_abs pre \<Longrightarrow> np_abs (prefix_loop h pre tail links)"
proof (induction h cs out links and h pre tail links rule: resolve_walk_prefix_loop.induct)
  case (1 h out links)
  then show ?case by simp
next
  case (2 h c cs out links)
  then show ?case by (cases c) auto
next
  case (3 h pre tail links)
  have fin: "np_abs (case canonicalize h (display pre) of Some p \<Rightarrow> p | None \<Rightarrow> pre)"
    using 3 by (auto simp: unix_host_def split: option.splits)
  show ?case
  proof (cases "path_exists h (display pre)")
    case True
    then show ?thesis using fin by simp
  next
    case False
    then have ne: "np_names pre \<noteq> []"
      using 3 display_root [of pre] by (auto simp: unix_host_def)
    have pop: "np_abs (prefix_loop h (pop pre) (last (np_names pre) # tail) links)"
      if "(if links < DANGLING_LINK_LIMIT then read_link h (display pre) else None) = None"
      using 3 False that ne by (auto simp: file_name_def)
    have follow: "np_abs (resolve_walk h
        (components (if np_names pre = [] then target else join_path (display (pop pre)) target)
          @ map Normal tail) empty_path (Suc links))"
      if "(if links < DANGLING_LINK_LIMIT then read_link h (display pre) else None) = Some target"
      for target
    proof -
      have "is_absolute (join_path (display (pop pre)) target)"
        using 3 by (simp add: is_absolute_join is_absolute_display)
      then obtain ds where "components (join_path (display (pop pre)) target) = RootDir # ds"
        using components_absolute by blast
      then have "np_abs empty_path \<or> (\<exists>ds. components (if np_names pre = [] then target
          else join_path (display (pop pre)) target) @ map Normal tail = RootDir # ds)"
        using ne by auto
      then show ?thesis by (rule "3.IH"(2) [OF refl False that "3.prems"(1)])
    qed
    show ?thesis
      using False ne pop follow by (auto simp: file_name_def split: option.splits)
  qed
qed

lemma resolve_absolute_root:
  assumes "unix_host h" and "np_abs root" and "\<not> windows_rooted (display root)"
  shows "np_abs (resolve h path (Some root) home)"
proof -
  let ?e = "expand_tilde h path home"
  let ?a = "if \<not> is_absolute ?e \<and> \<not> (windows_rooted ?e \<and> windows_rooted (display root))
            then join_path (display root) ?e else ?e"
  have "is_absolute ?a"
    using assms by (simp add: is_absolute_join is_absolute_display)
  then obtain cs where "components ?a = RootDir # cs" using components_absolute by blast
  then show ?thesis
    using assms(1) by (simp add: resolve_def resolve_components_def resolve_walk_absolute)
qed

section \<open>Properties\<close>

text \<open>
  Every path is compared component by component, and no component of a spelling is empty or
  holds a separator of either kind, so no written or resolved path can smuggle one past a
  comparison.
\<close>

theorem spelling_components_clean:
  "list_all (\<lambda>w. w \<noteq> [] \<and> sep \<notin> set w \<and> 92 \<notin> set w) (spelling p)"
proof -
  let ?f = "fold_backslashes (display p)"
  have "92 \<notin> set (case reduced_device ?f of Some r \<Rightarrow> r | None \<Rightarrow> ?f)"
    using fold_backslashes_clean [of "display p"] reduced_device_set [of ?f]
    by (fastforce simp: sep_def split: option.splits)
  then show ?thesis
    unfolding spelling_def spelling_of_def Let_def
    by (intro upper_drive_clean spelling_of_parts)
qed

text \<open>
  The verbatim and device spellings of a drive-rooted Windows path and its plain spelling are
  one path to every comparison.
\<close>

theorem device_spelling_agrees:
  assumes "is_drive_prefixed t" and "2 < length t" and "t ! 2 = sep \<or> t ! 2 = 92"
    and "dev = 63 \<or> dev = 46"
  shows "spelling_of ([92, 92, dev, 92] @ t) = spelling_of t"
proof -
  let ?f = "fold_backslashes t"
  obtain d c e r where t: "t = d # c # e # r" "is_ascii_alpha d" "c = 58"
    using assms(1,2)
    by (cases t; cases "tl t"; cases "tl (tl t)") (auto simp: is_drive_prefixed_def)
  have f: "?f = d # 58 # sep # fold_backslashes r"
    using t assms(3) by (auto simp: fold_backslashes_def is_ascii_alpha_def sep_def)
  have "d \<noteq> 47" using t by (auto simp: is_ascii_alpha_def)
  then have none: "reduced_device ?f = None"
    by (simp add: f reduced_device_def)
  have pre: "fold_backslashes ([92, 92, dev, 92] @ t) = [47, 47, dev, 47] @ ?f"
    using assms(4) by (auto simp: fold_backslashes_def sep_def)
  have "is_drive_prefixed ?f" "2 < length ?f" "?f ! 2 = sep"
    using t f by (simp_all add: is_drive_prefixed_def)
  then have "reduced_device ([47, 47, dev, 47] @ ?f) = Some ?f"
    using assms(4) by (auto simp: reduced_device_def)
  then show ?thesis
    using none pre by (simp add: spelling_of_def)
qed

theorem device_spelling_agrees_witness:
  "spelling_of ([92, 92, 63, 92] @ [99, 58, 92, 97]) = spelling_of [99, 58, 92, 97]"
  by (rule device_spelling_agrees) (simp_all add: is_drive_prefixed_def is_ascii_alpha_def)

text \<open>
  A path resolved against an absolute root is absolute, whatever symbolic links and parent
  steps it holds: the file a caller opens is never read against the process's own directory.
\<close>

theorem resolve_absolute:
  assumes "unix_host h" and "np_abs root" and "\<not> windows_rooted (display root)"
  shows "np_abs (resolve h path (Some root) home)"
  using assms by (rule resolve_absolute_root)

theorem resolve_absolute_witness:
  "np_abs (resolve bare_host (u ''src/../main.rs'') (Some (NPath True [u ''proj''])) None)"
  by (rule resolve_absolute)
    (simp_all add: windows_rooted_def display_def fold_backslashes_def is_drive_prefixed_def
       is_ascii_alpha_def sep_def)

text \<open>The textual reading of a path, and hosts where no link is involved.\<close>

fun lexical_walk :: "comp list \<Rightarrow> npath \<Rightarrow> npath" where
  "lexical_walk [] out = out"
| "lexical_walk (ParentDir # cs) out = lexical_walk cs (pop out)"
| "lexical_walk (CurDir # cs) out = lexical_walk cs out"
| "lexical_walk (c # cs) out = lexical_walk cs (push out c)"

definition link_free :: "('a) host_scheme \<Rightarrow> bool" where
  "link_free h \<longleftrightarrow> (\<forall>t. read_link h t = None) \<and>
     (\<forall>p. canonicalize h (display p) = (if path_exists h (display p) then Some p else None))"

lemma prefix_loop_link_free:
  "link_free h \<Longrightarrow> prefix_loop h pre tail links = NPath (np_abs pre) (np_names pre @ tail)"
proof (induction "length (np_names pre)" arbitrary: pre tail rule: less_induct)
  case less
  have "canonicalize h (display pre) = (if path_exists h (display pre) then Some pre else None)"
    using less.prems by (simp add: link_free_def)
  moreover have "prefix_loop h (pop pre) (last (np_names pre) # tail) links =
      NPath (np_abs pre) (np_names pre @ tail)" if "np_names pre \<noteq> []"
  proof -
    have "length (np_names (pop pre)) < length (np_names pre)"
      using that by (cases pre) (simp add: pop_def)
    then have "prefix_loop h (pop pre) (last (np_names pre) # tail) links =
        NPath (np_abs (pop pre)) (np_names (pop pre) @ last (np_names pre) # tail)"
      using less by blast
    then show ?thesis
      using that append_butlast_last_id [of "np_names pre"] by (simp add: pop_def)
  qed
  ultimately show ?case
    using less.prems by (auto simp: link_free_def file_name_def)
qed

text \<open>
  Parent steps are applied to the directory a call would stand in, and where nothing on the
  way is a symbolic link (every existing path is its own canonical form, and no missing one is a
  dangling link) that is the textual reading: \<open>..\<close> removes the last component and nothing else
  changes.
\<close>

theorem resolve_components_link_free:
  "link_free h \<Longrightarrow>
     resolve_components h path links = lexical_walk (components path) empty_path"
proof -
  assume h: "link_free h"
  have walk: "resolve_walk h cs out links = lexical_walk cs out" for cs out
    using h by (induction cs arbitrary: out)
      (simp_all add: prefix_loop_link_free del: prefix_loop.simps split: comp.split)
  show ?thesis by (simp add: resolve_components_def walk)
qed

theorem resolve_components_link_free_witness:
  "resolve_components (bare_host\<lparr>path_exists := \<lambda>_. False, canonicalize := \<lambda>_. None\<rparr>)
     (u ''/proj/src/../main.rs'') 0 = NPath True [u ''proj'', u ''main.rs'']"
proof -
  have "link_free (bare_host\<lparr>path_exists := \<lambda>_. False, canonicalize := \<lambda>_. None\<rparr>)"
    by (simp add: link_free_def bare_host_def)
  from resolve_components_link_free [OF this, of "u ''/proj/src/../main.rs''" 0]
  show ?thesis
    by (simp add: components_def part_comps_def is_absolute_def sep_def empty_path_def push_def pop_def)
qed

end
