(* ===== verification/Modes.thy ===== *)
theory Modes
  imports Command_Line Paths
begin

text \<open>
  Request modes, \<open>crates/pane/src/sandbox/modes.rs\<close>: a per-request narrowing of the compiled
  profile (\<open>compile_narrowing\<close>, \<open>write_refusal\<close>, \<open>command_refusal\<close>), and the one reader of
  command lines, \<open>command_reads_only\<close>, that a narrowing mode and the permission ladder share.
  That shared reader is the locale \<open>command_reader\<close>: what its two callers may rely on.
\<close>

section \<open>The modes\<close>

datatype request_mode = Execute | Explore | Plan

definition mode_name :: "request_mode \<Rightarrow> rstr" where
  "mode_name m = (case m of Execute \<Rightarrow> u ''execute'' | Explore \<Rightarrow> u ''explore'' | Plan \<Rightarrow> u ''plan'')"

fun mode_next :: "request_mode \<Rightarrow> request_mode" where
  "mode_next Execute = Explore"
| "mode_next Explore = Plan"
| "mode_next Plan = Execute"

definition mode_parse :: "rstr \<Rightarrow> request_mode option" where
  "mode_parse word0 =
     (let word = trim word0
      in if word = u ''execute'' \<or> word = u ''build'' then Some Execute
         else if word = u ''explore'' then Some Explore
         else if word = u ''plan'' then Some Plan
         else None)"

definition DEFAULT_WRITABLE :: "rstr list" where
  "DEFAULT_WRITABLE = [u ''.pane/scratch/**'']"

definition PLAN_FILE :: rstr where
  "PLAN_FILE = u ''.pane/scratch/plan.md''"

record mode_overlay =
  overlay_writable :: "rstr list"
  overlay_commands :: "rstr list"

definition new_overlay :: "rstr list \<Rightarrow> rstr list \<Rightarrow> mode_overlay" where
  "new_overlay writable commands =
     \<lparr>overlay_writable = DEFAULT_WRITABLE @ writable, overlay_commands = commands\<rparr>"

text \<open>A compiled mode; each writable entry is the glob as written and resolved.\<close>

record narrowing =
  narrow_mode :: request_mode
  narrow_writable :: "(rstr \<times> rstr list) list"
  narrow_commands :: "rstr list"

text \<open>Whether an \<open>explore\<close> glob is kept, and the globs that are dropped with a diagnostic.\<close>

definition explore_keeps ::
    "('a) host_scheme \<Rightarrow> npath \<Rightarrow> npath option \<Rightarrow> rstr list \<Rightarrow> rstr \<Rightarrow> bool" where
  "explore_keeps h root home root_spelling written =
     (let glob = resolve_pattern h root home written
      in \<not> (is_rooted (fold_backslashes written) \<or> glob = [] \<or> \<not> prefix root_spelling glob))"

definition compile_narrowing ::
    "('a) host_scheme \<Rightarrow> request_mode \<Rightarrow> mode_overlay \<Rightarrow> npath \<Rightarrow> npath option \<Rightarrow> rstr list
       \<Rightarrow> narrowing option \<times> rstr list" where
  "compile_narrowing h mode overlay root home root_spelling =
     (case mode of
        Execute \<Rightarrow> (None, [])
      | Plan \<Rightarrow>
          (Some \<lparr>narrow_mode = mode,
                 narrow_writable = [(PLAN_FILE, resolve_pattern h root home PLAN_FILE)],
                 narrow_commands = overlay_commands overlay\<rparr>, [])
      | Explore \<Rightarrow>
          (Some \<lparr>narrow_mode = mode,
                 narrow_writable =
                   map (\<lambda>written. (written, resolve_pattern h root home written))
                     (filter (explore_keeps h root home root_spelling) (overlay_writable overlay)),
                 narrow_commands = overlay_commands overlay\<rparr>,
           filter (\<lambda>written. \<not> explore_keeps h root home root_spelling written)
             (overlay_writable overlay)))"

text \<open>The sentence a refused write earns: the plan mode's, or the globs that are writable.\<close>

datatype write_rule = PlanWrites | ExploreWrites "rstr list"

definition write_refusal :: "('u) unicode_scheme \<Rightarrow> narrowing \<Rightarrow> rstr list \<Rightarrow> write_rule option" where
  "write_refusal uc n candidate =
     (if list_ex (\<lambda>(_, glob). if narrow_mode n = Plan then glob = candidate
                              else covers uc glob candidate False) (narrow_writable n)
      then None
      else Some (if narrow_mode n = Plan then PlanWrites
                 else ExploreWrites (map fst (narrow_writable n))))"

section \<open>Which command lines only read\<close>

definition READ_ONLY_COMMANDS :: "rstr list" where
  "READ_ONLY_COMMANDS =
     [u ''ls'', u ''cat'', u ''head'', u ''tail'', u ''wc'', u ''grep'', u ''rg'', u ''find'',
      u ''stat'', u ''file'', u ''git'', u ''du'', u ''df'', u ''ps'', u ''env'', u ''which'',
      u ''pwd'', u ''echo'', u ''date'', u ''uname'']"

definition GIT_READ_ONLY :: "rstr list" where
  "GIT_READ_ONLY =
     [u ''status'', u ''log'', u ''diff'', u ''show'', u ''blame'', u ''ls-files'', u ''rev-parse'']"

text \<open>Why a line is not vouched for; each constructor is one sentence of the source.\<close>

datatype unread_why =
    CmdUnreadable uchar
  | ProcessSubstitution rstr
  | WritesThroughRedirect rstr
  | SetsVariable rstr
  | HidesName rstr
  | NotReadOnly rstr
  | CanWriteOrRun rstr rstr

definition cmd_line_unreadable :: "rstr \<Rightarrow> unread_why option" where
  "cmd_line_unreadable command_line =
     map_option CmdUnreadable
       (List.find (\<lambda>c. c \<in> set command_line)
          (u [CHR 0x5E, CHR ''%'', CHR ''!'', CHR 0x22, CHR ''('', CHR '')'', CHR ''<'', CHR ''>'',
              CHR ''$'', CHR 0x60]))"

datatype redirect_kind = NoRedirect | Harmless bool | Writes

definition redirect :: "rstr \<Rightarrow> rstr option \<Rightarrow> redirect_kind" where
  "redirect word next =
     (if has_sub word (u ''<>'') then Writes
      else if 62 \<notin> set word then NoRedirect
      else
        (let rest = (case strip_pre (u ''&'') word of Some r \<Rightarrow> r | None \<Rightarrow> dropWhile is_ascii_digit word)
         in case (case strip_pre (u ''>>'') rest of Some t \<Rightarrow> Some t | None \<Rightarrow> strip_pre (u ''>'') rest) of
              None \<Rightarrow> Writes
            | Some target \<Rightarrow>
                if target = u ''/dev/null'' then Harmless False
                else if \<not> starts_with rest (u ''>>'') \<and>
                        (case strip_pre (u ''&'') target of None \<Rightarrow> False
                         | Some fd \<Rightarrow> fd \<noteq> [] \<and> list_all is_ascii_digit fd)
                then Harmless False
                else if target = [] \<and> next = Some (u ''/dev/null'') then Harmless True
                else Writes))"

definition first_word :: "rstr list \<Rightarrow> rstr option" where
  "first_word ws = (case ws of [] \<Rightarrow> None | w # _ \<Rightarrow> Some w)"

text \<open>The \<open>while index < words.len()\<close> loop: the words that are no redirect, or a writing one.\<close>

fun plain_words :: "rstr list \<Rightarrow> rstr list option" where
  "plain_words [] = Some []"
| "plain_words (w # ws) =
     (case redirect w (first_word ws) of
        NoRedirect \<Rightarrow> map_option ((#) w) (plain_words ws)
      | Harmless operand_follows \<Rightarrow> if operand_follows then plain_words (drop 1 ws) else plain_words ws
      | Writes \<Rightarrow> None)"

definition refused_argument :: "rstr \<Rightarrow> rstr list \<Rightarrow> rstr option" where
  "refused_argument name args =
     (if name = u ''git'' then
        (case first_word args of
           None \<Rightarrow> None
         | Some sub \<Rightarrow>
             if sub \<in> set GIT_READ_ONLY
             then List.find (\<lambda>arg. starts_with arg (u ''--output'') \<or> starts_with arg (u ''--ext-diff'') \<or>
                                   arg = u ''--textconv'') args
             else Some sub)
      else if name = u ''find'' then
        List.find (\<lambda>arg. arg \<in> {u ''-delete'', u ''-exec'', u ''-execdir'', u ''-ok'', u ''-okdir'',
                                u ''-fprint'', u ''-fprint0'', u ''-fprintf'', u ''-fls''}) args
      else if name = u ''rg'' then List.find (\<lambda>arg. starts_with arg (u ''--pre'')) args
      else if name = u ''file'' then List.find (\<lambda>arg. arg = u ''-C'' \<or> arg = u ''--compile'') args
      else if name = u ''date'' then
        List.find (\<lambda>arg. arg = u ''-s'' \<or> starts_with arg (u ''--set'') \<or>
                         \<not> (starts_with arg (u ''+'') \<or> starts_with arg (u ''-''))) args
      else if name = u ''env'' then first_word args
      else None)"

text \<open>A character that hides which command a word names: quoting, expansion, or a path.\<close>

definition hides_name :: "uchar \<Rightarrow> bool" where
  "hides_name c \<longleftrightarrow> opaque_char c \<or> c = 47"

definition segment_unread :: "('u) unicode_scheme \<Rightarrow> rstr list \<Rightarrow> rstr \<Rightarrow> unread_why option" where
  "segment_unread uc extra segment =
     (if has_sub segment (u ''<('') \<or> has_sub segment (u ''>('') then Some (ProcessSubstitution segment)
      else (case plain_words (split_whitespace segment) of
              None \<Rightarrow> Some (WritesThroughRedirect segment)
            | Some plain \<Rightarrow>
                if list_ex (\<lambda>pattern. match_segment uc pattern (skip_leading_redirects segment) False) extra
                then None
                else (case plain of
                        [] \<Rightarrow> None
                      | name # args \<Rightarrow>
                          if 61 \<in> set name then Some (SetsVariable segment)
                          else if list_ex hides_name name then Some (HidesName name)
                          else if name \<notin> set READ_ONLY_COMMANDS then Some (NotReadOnly name)
                          else map_option (CanWriteOrRun name) (refused_argument name args))))"

text \<open>\<open>windows\<close> is the compile-time \<open>cfg!(windows)\<close>.\<close>

definition command_reads_only :: "bool \<Rightarrow> ('u) unicode_scheme \<Rightarrow> rstr \<Rightarrow> rstr list \<Rightarrow> unread_why option" where
  "command_reads_only windows uc command_line extra =
     (case (if windows then cmd_line_unreadable command_line else None) of
        Some why \<Rightarrow> Some why
      | None \<Rightarrow> find_map (segment_unread uc extra) (command_segments command_line))"

definition command_refusal ::
    "bool \<Rightarrow> ('u) unicode_scheme \<Rightarrow> narrowing \<Rightarrow> rstr \<Rightarrow> (request_mode \<times> unread_why) option" where
  "command_refusal windows uc n command_line =
     map_option (\<lambda>why. (narrow_mode n, why)) (command_reads_only windows uc command_line (narrow_commands n))"

declare READ_ONLY_COMMANDS_def [scan_eval] GIT_READ_ONLY_def [scan_eval] cmd_line_unreadable_def [scan_eval]
declare redirect_def [scan_eval] first_word_def [scan_eval] refused_argument_def [scan_eval]
declare hides_name_def [scan_eval] segment_unread_def [scan_eval] command_reads_only_def [scan_eval]

section \<open>The shared reader as an interface\<close>

text \<open>
  What a caller of the reader relies on: vouching for more patterns never adds a reason, a line
  of commands joined by an operator is vouched for exactly when its parts are, and so is an empty
  line.
\<close>

locale command_reader =
  fixes reads :: "rstr \<Rightarrow> rstr list \<Rightarrow> 'why option"
  assumes reads_mono: "reads line extra = None \<Longrightarrow> set extra \<subseteq> set wider \<Longrightarrow> reads line wider = None"
    and reads_sequence: "list_all plain_char a \<Longrightarrow> separator s \<Longrightarrow>
      (reads (a @ s # rest) extra = None) = (reads a extra = None \<and> reads rest extra = None)"
    and reads_Nil: "reads [] extra = None"
begin

lemma reads_append: "reads line extra = None \<Longrightarrow> reads line (other @ extra) = None"
  by (erule reads_mono) simp

lemma reads_asked: "reads line wider = Some why \<Longrightarrow> set extra \<subseteq> set wider \<Longrightarrow> reads line extra \<noteq> None"
  using reads_mono [of line extra wider] by auto

lemma reads_script:
  "list_all (list_all plain_char) lines \<Longrightarrow>
     reads (concat (map (\<lambda>l. l @ [10]) lines)) extra = None \<longleftrightarrow>
       list_all (\<lambda>l. reads l extra = None) lines"
proof (induction lines)
  case (Cons l lines)
  have "separator 10" by (simp add: separator_def)
  with Cons show ?case using reads_sequence [of l 10] by simp
qed (simp add: reads_Nil)

end

lemma segment_unread_mono:
  "segment_unread uc extra segment = None \<Longrightarrow> set extra \<subseteq> set wider \<Longrightarrow>
     segment_unread uc wider segment = None"
  by (auto simp: segment_unread_def list_ex_iff split: option.splits if_splits list.splits)

lemma command_reads_only_unix:
  "command_reads_only False uc line extra = None \<longleftrightarrow>
     list_all (\<lambda>s. segment_unread uc extra s = None) (command_segments line)"
  by (simp add: command_reads_only_def list_all_iff)

lemma command_reads_only_None:
  "command_reads_only w uc line extra = None \<longleftrightarrow>
     (w \<longrightarrow> cmd_line_unreadable line = None) \<and>
     list_all (\<lambda>s. segment_unread uc extra s = None) (command_segments line)"
  by (auto simp: command_reads_only_def list_all_iff split: option.splits)

lemma command_segments_Nil [simp]: "command_segments [] = []"
  by (simp add: command_segments_def flush_segment_def trim_def trim_matches_def trim_end_matches_def)

interpretation unix_reader: command_reader "command_reads_only False uc"
proof unfold_locales
  fix line extra wider
  assume "command_reads_only False uc line extra = None" "set extra \<subseteq> set wider"
  then show "command_reads_only False uc line wider = None"
    by (auto simp: command_reads_only_unix list_all_iff intro: segment_unread_mono)
next
  fix a s rest extra
  assume "list_all plain_char a" "separator s"
  then show "(command_reads_only False uc (a @ s # rest) extra = None) =
      (command_reads_only False uc a extra = None \<and> command_reads_only False uc rest extra = None)"
    by (simp add: command_reads_only_unix command_segments_split)
qed (simp add: command_reads_only_unix)

text \<open>The screen of a \<open>cmd.exe\<close> line looks at characters only, so it splits the same way.\<close>

lemma cmd_line_unreadable_None:
  "cmd_line_unreadable line = None \<longleftrightarrow>
     list_all (\<lambda>c. c \<notin> {94, 37, 33, 34, 40, 41, 60, 62, 36, 96}) line"
  by (auto simp: cmd_line_unreadable_def find_None_iff list_all_iff)

interpretation windows_reader: command_reader "command_reads_only True uc"
proof unfold_locales
  fix line extra wider
  assume "command_reads_only True uc line extra = None" "set extra \<subseteq> set wider"
  then show "command_reads_only True uc line wider = None"
    by (auto simp: command_reads_only_None list_all_iff intro: segment_unread_mono)
next
  fix a s rest extra
  assume "list_all plain_char a" "separator s"
  then show "(command_reads_only True uc (a @ s # rest) extra = None) =
      (command_reads_only True uc a extra = None \<and> command_reads_only True uc rest extra = None)"
    by (auto simp: command_reads_only_None command_segments_split cmd_line_unreadable_None separator_def)
qed (simp add: command_reads_only_None cmd_line_unreadable_None)

section \<open>What a vouched-for segment is\<close>

text \<open>
  The declarative reading: no process substitution; every word that holds \<open>>\<close> is one of the two
  harmless redirects or the operand of one; and either a caller's pattern admits the segment, or
  its first plain word is on the list and none of its arguments is a refused one.
\<close>

lemma redirect_NoRedirect: "redirect w n = NoRedirect \<Longrightarrow> 62 \<notin> set w"
  by (auto simp: redirect_def Let_def split: if_splits option.splits)

lemma plain_words_subset: "plain_words ws = Some ps \<Longrightarrow> set ps \<subseteq> set ws"
proof (induction ws arbitrary: ps rule: plain_words.induct)
  case (2 w ws)
  then show ?case
    by (cases ws) (fastforce split: redirect_kind.splits if_splits)+
qed simp

lemma plain_words_no_redirect: "plain_words ws = Some ps \<Longrightarrow> list_all (\<lambda>w. 62 \<notin> set w) ps"
proof (induction ws arbitrary: ps rule: plain_words.induct)
  case (2 w ws)
  then show ?case
    by (auto split: redirect_kind.splits if_splits dest: redirect_NoRedirect)
qed simp

definition reading_command :: "rstr list \<Rightarrow> bool" where
  "reading_command plain \<longleftrightarrow>
     (case plain of [] \<Rightarrow> True
      | name # args \<Rightarrow> name \<in> set READ_ONLY_COMMANDS \<and> refused_argument name args = None)"

lemma READ_ONLY_names_plain:
  "name \<in> set READ_ONLY_COMMANDS \<Longrightarrow> 61 \<notin> set name \<and> \<not> list_ex hides_name name"
  by (auto simp: READ_ONLY_COMMANDS_def hides_name_def opaque_char_def)

lemma segment_unread_None:
  "segment_unread uc extra s = None \<longleftrightarrow>
     \<not> has_sub s (u ''<('') \<and> \<not> has_sub s (u ''>('') \<and>
     (\<exists>plain. plain_words (split_whitespace s) = Some plain \<and>
        (list_ex (\<lambda>p. match_segment uc p (skip_leading_redirects s) False) extra \<or>
         reading_command plain))"
  by (auto simp: segment_unread_def reading_command_def dest: READ_ONLY_names_plain
      simp del: u.simps split: option.splits list.splits)

section \<open>Properties\<close>

text \<open>
  A command line is vouched for as only reading exactly when every segment a shell would run
  is free of process substitution and of every writing redirect, and is either admitted by one of
  the caller's patterns or names a read-only command with no refused argument.
\<close>

theorem command_reads_only_iff:
  "command_reads_only False uc line extra = None \<longleftrightarrow>
     list_all (\<lambda>s. \<not> has_sub s (u ''<('') \<and> \<not> has_sub s (u ''>('') \<and>
        (\<exists>plain. plain_words (split_whitespace s) = Some plain \<and>
           (list_ex (\<lambda>p. match_segment uc p (skip_leading_redirects s) False) extra \<or>
            reading_command plain)))
       (command_segments line)"
  unfolding command_reads_only_unix segment_unread_None ..

text \<open>
  The screen of \<open>cmd.exe\<close> lines keeps Windows no more permissive than POSIX: it can add a
  reason to ask and never removes one.
\<close>

theorem windows_screen_only_adds:
  "command_reads_only True uc line extra = None \<Longrightarrow> command_reads_only False uc line extra = None"
  by (simp add: command_reads_only_None)

theorem windows_screen_only_adds_witness:
  "command_reads_only False ascii_unicode (u ''git status'') [] = None"
  by (rule windows_screen_only_adds) (simp add: rust_std scan_eval Let_def)

text \<open>
  The reader is quote-blind on arguments: \<open>find . -delete\<close> is refused, but the same command
  with its last argument in double quotes, which a shell hands to \<open>find\<close> as \<open>-delete\<close>, is
  vouched for as only reading, with no caller pattern at all.
\<close>

theorem quoted_argument_is_vouched_for:
  "command_reads_only False uc (u ''find . -delete'') [] =
     Some (CanWriteOrRun (u ''find'') (u ''-delete'')) \<and>
   command_reads_only False uc (u ''find . '' @ [34] @ u ''-delete'' @ [34]) [] = None"
  by (simp add: rust_std scan_eval Let_def)

text \<open>
  A script of plain lines is vouched for exactly when each of its lines is, on both kinds of
  host, so no ordering or grouping of the lines changes the answer.
\<close>

theorem script_reads_only_linewise:
  assumes "list_all (list_all plain_char) lines"
  shows "command_reads_only windows uc (concat (map (\<lambda>l. l @ [10]) lines)) extra = None \<longleftrightarrow>
           list_all (\<lambda>l. command_reads_only windows uc l extra = None) lines"
proof (cases windows)
  case True
  then show ?thesis using windows_reader.reads_script [OF assms, of uc extra] by simp
next
  case False
  then show ?thesis using unix_reader.reads_script [OF assms, of uc extra] by simp
qed

theorem script_reads_only_linewise_witness:
  "command_reads_only False ascii_unicode
     (concat (map (\<lambda>l. l @ [10]) [u ''git status'', u ''rm x''])) [] = None \<longleftrightarrow>
   list_all (\<lambda>l. command_reads_only False ascii_unicode l [] = None) [u ''git status'', u ''rm x'']"
  by (rule script_reads_only_linewise) (simp add: plain_char_def separator_def)

text \<open>
  Every glob an \<open>explore\<close> request may write lies inside the project root: compiling the mode
  keeps a configured glob only when its resolved form starts with the root's spelling.
\<close>

theorem explore_writable_inside_root:
  assumes "compile_narrowing h Explore overlay root home root_spelling = (Some n, dropped)"
  shows "list_all (\<lambda>(written, glob). prefix root_spelling glob \<and> glob \<noteq> []) (narrow_writable n)"
  using assms by (auto simp: compile_narrowing_def explore_keeps_def Let_def list_all_iff)

theorem explore_writable_inside_root_witness:
  "\<exists>n dropped.
     compile_narrowing bare_host Explore (new_overlay [u ''/etc/**''] []) (NPath True [u ''proj'']) None
       [u ''proj''] = (Some n, dropped) \<and>
     list_all (\<lambda>(written, glob). prefix [u ''proj''] glob \<and> glob \<noteq> []) (narrow_writable n)"
proof -
  obtain n dropped where c:
    "compile_narrowing bare_host Explore (new_overlay [u ''/etc/**''] []) (NPath True [u ''proj'']) None
       [u ''proj''] = (Some n, dropped)"
    by (simp add: compile_narrowing_def)
  show ?thesis using c explore_writable_inside_root [OF c] by blast
qed

end
