(* ===== verification/Profile.thy ===== *)
theory Profile
  imports Modes
begin

text \<open>
  The compiled sandbox profile and its two questions, \<open>crates/pane/src/sandbox/profile.rs\<close>: what
  a process may touch (\<open>check\<close>, \<open>check_request\<close>) and whether a command line may be attempted
  (\<open>admits_command\<close>, with \<open>admits_mcp_tool\<close> beside it). The refusal sentences of the source are
  the constructors of \<open>denial\<close>. How a profile is built is theory Profile_Build.
\<close>

section \<open>The profile\<close>

datatype access = Read | Write

datatype only_root = OnlyReadableRoot | OnlyWritableRoot | OnlyWritableRootContainer

definition only_root_sentence :: "access \<Rightarrow> bool \<Rightarrow> only_root" where
  "only_root_sentence access container_mode =
     (case access of
        Read \<Rightarrow> OnlyReadableRoot
      | Write \<Rightarrow> if container_mode then OnlyWritableRootContainer else OnlyWritableRoot)"

text \<open>The sentence of a never-grantable rule.\<close>

datatype never_text =
    ClaudeNeverWritable
  | PaneHostOwned
  | NeverInHome rstr
  | Keyring
  | GlasshouseState
  | HomeOutsideProject
  | RegistryToken rstr
  | AdditionalProtected rstr

datatype denial =
    InvalidRoot anchor_error
  | DeviceNamespace
  | NeverGrantable never_text
  | InDeny rstr
  | HardLinked nat
  | LinkCountUnreadable rstr
  | NoGrantCovers only_root
  | ModeWrite write_rule
  | EscapingCommand rstr
  | NoPatternAdmitsLine
  | DeniedSegment rstr rstr
  | NoPatternAdmits rstr
  | ModeCommand request_mode unread_why

record permission_denied =
  denied_tool :: rstr
  denied_path :: rstr
  denied_rule :: denial

record path_rule =
  pr_written :: rstr
  pr_glob :: "rstr list"
  pr_read :: bool
  pr_write :: bool

record never_rule =
  nr_prefix :: "rstr list"
  nr_glob :: "rstr list"
  nr_except :: "npath option"
  nr_except_spelling :: "rstr list option"
  nr_write_only :: bool
  nr_rule :: never_text

datatype diagnostic =
    RootNotEstablished anchor_error
  | SettingsNotJson
  | PermissionsNotObject
  | AskGrantsNothing
  | NotAPatternList rstr
  | NotAnArray rstr
  | NonStringEntry rstr
  | ArgvIsAWordScan
  | UnknownPatternKind rstr rstr
  | NamesNoPath rstr rstr
  | ResolvesToNoPath rstr
  | LeavesTheRoot rstr
  | ModeGlobDropped rstr

record profile =
  p_root :: npath
  p_bypass_os_sandbox :: bool
  p_additional_roots :: "npath list"
  p_invalid_root :: "anchor_error option"
  p_root_spelling :: "rstr list"
  p_home :: "npath option"
  p_allow :: "path_rule list"
  p_deny :: "path_rule list"
  p_never :: "never_rule list"
  p_toolchain :: "(npath \<times> rstr list) list"
  p_toolchain_files :: "(npath \<times> rstr list) list"
  p_repository :: "(npath \<times> rstr list) list"
  p_command_allow :: "rstr list"
  p_command_deny :: "rstr list"
  p_mcp_allow :: "rstr list"
  p_mcp_deny :: "rstr list"
  p_diagnostics :: "diagnostic list"
  p_narrowing :: "narrowing option"

abbreviation container_mode :: "profile \<Rightarrow> bool" where
  "container_mode p \<equiv> p_bypass_os_sandbox p"

definition request_mode_of :: "profile \<Rightarrow> request_mode" where
  "request_mode_of p = (case p_narrowing p of None \<Rightarrow> Execute | Some n \<Rightarrow> narrow_mode n)"

definition writable_roots :: "profile \<Rightarrow> npath list" where
  "writable_roots p = (if p_invalid_root p \<noteq> None then [] else p_root p # p_additional_roots p)"

section \<open>What a process may touch\<close>

definition hard_link_refusal :: "('a) host_scheme \<Rightarrow> npath \<Rightarrow> denial option" where
  "hard_link_refusal h resolved =
     (case link_metadata h (display resolved) of
        Linked regular nlink \<Rightarrow> if regular \<and> nlink > 1 then Some (HardLinked nlink) else None
      | NothingThere \<Rightarrow> None
      | MetaError error \<Rightarrow> Some (LinkCountUnreadable error))"

definition in_additional_root :: "profile \<Rightarrow> rstr list \<Rightarrow> bool" where
  "in_additional_root p candidate \<longleftrightarrow>
     list_ex (\<lambda>root. contains (spelling root) candidate) (p_additional_roots p)"

definition in_repository :: "profile \<Rightarrow> rstr list \<Rightarrow> bool" where
  "in_repository p candidate \<longleftrightarrow> list_ex (\<lambda>(_, pre). contains pre candidate) (p_repository p)"

definition in_toolchain :: "profile \<Rightarrow> rstr list \<Rightarrow> bool" where
  "in_toolchain p candidate \<longleftrightarrow>
     list_ex (\<lambda>(_, pre). contains pre candidate) (p_toolchain p) \<or>
     list_ex (\<lambda>(_, file). file = candidate) (p_toolchain_files p)"

definition is_home_rule :: "profile \<Rightarrow> never_rule \<Rightarrow> bool" where
  "is_home_rule p never \<longleftrightarrow>
     (case p_home p of None \<Rightarrow> False | Some home \<Rightarrow> spelling home = nr_prefix never)"

text \<open>
  One turn of the loop over \<open>self.never\<close>: each \<open>continue\<close> of the source is a conjunct here.
\<close>

definition never_refuses ::
    "('u) unicode_scheme \<Rightarrow> profile \<Rightarrow> access \<Rightarrow> rstr list \<Rightarrow> rstr list list \<Rightarrow> never_rule \<Rightarrow> bool" where
  "never_refuses uc p access candidate refusable never \<longleftrightarrow>
     \<not> (nr_write_only never \<and> access \<noteq> Write) \<and>
     list_ex (contains_refusing uc (nr_prefix never)) refusable \<and>
     \<not> (case nr_except_spelling never of None \<Rightarrow> False | Some except \<Rightarrow> contains except candidate) \<and>
     \<not> (is_home_rule p never \<and>
        (in_additional_root p candidate \<or> in_repository p candidate \<or>
         access = Read \<and> in_toolchain p candidate))"

definition refusable_forms :: "rstr list \<Rightarrow> rstr list list" where
  "refusable_forms candidate =
     candidate # (case stream_stripped candidate of None \<Rightarrow> [] | Some s \<Rightarrow> [s])"

definition allow_covers :: "('u) unicode_scheme \<Rightarrow> profile \<Rightarrow> access \<Rightarrow> rstr list \<Rightarrow> bool" where
  "allow_covers uc p access candidate \<longleftrightarrow>
     list_ex (\<lambda>rule. (case access of Read \<Rightarrow> pr_read rule | Write \<Rightarrow> pr_write rule) \<and>
                     covers uc (pr_glob rule) candidate False) (p_allow p)"

definition check ::
    "('a) host_scheme \<Rightarrow> profile \<Rightarrow> rstr \<Rightarrow> access \<Rightarrow> rstr \<Rightarrow> permission_denied + npath" where
  "check h p tool access path =
     (let resolved = resolve h path (Some (p_root p)) (p_home p);
          candidate = spelling resolved;
          denied = (\<lambda>rule. Inl \<lparr>denied_tool = tool, denied_path = shown resolved, denied_rule = rule\<rparr>);
          refusable = refusable_forms candidate
      in case p_invalid_root p of
           Some reason \<Rightarrow> denied (InvalidRoot reason)
         | None \<Rightarrow>
         if device_refusal resolved then denied DeviceNamespace
         else (case List.find (never_refuses h p access candidate refusable) (p_never p) of
           Some never \<Rightarrow> denied (NeverGrantable (nr_rule never))
         | None \<Rightarrow>
         (case List.find (\<lambda>rule. list_ex (\<lambda>form. covers h (pr_glob rule) form True) refusable) (p_deny p) of
           Some rule \<Rightarrow> denied (InDeny (pr_written rule))
         | None \<Rightarrow>
         (case (if access = Write then hard_link_refusal h resolved else None) of
           Some rule \<Rightarrow> denied rule
         | None \<Rightarrow>
         if contains (p_root_spelling p) candidate \<or> in_additional_root p candidate then Inr resolved
         else if in_repository p candidate then Inr resolved
         else if access = Read \<and> in_toolchain p candidate then Inr resolved
         else if allow_covers h p access candidate then Inr resolved
         else if access = Read \<and> container_mode p then Inr resolved
         else denied (NoGrantCovers (only_root_sentence access (container_mode p)))))))"

definition check_request ::
    "('a) host_scheme \<Rightarrow> profile \<Rightarrow> rstr \<Rightarrow> access \<Rightarrow> rstr \<Rightarrow> permission_denied + npath" where
  "check_request h p tool access path =
     (case check h p tool access path of
        Inl e \<Rightarrow> Inl e
      | Inr resolved \<Rightarrow>
          (case (if access = Write
                 then (case p_narrowing p of None \<Rightarrow> None
                       | Some mode \<Rightarrow> write_refusal h mode (spelling resolved))
                 else None) of
             Some rule \<Rightarrow> Inl \<lparr>denied_tool = tool, denied_path = shown resolved,
                              denied_rule = ModeWrite rule\<rparr>
           | None \<Rightarrow> Inr resolved))"

definition executable_is_refused :: "('a) host_scheme \<Rightarrow> profile \<Rightarrow> rstr \<Rightarrow> bool" where
  "executable_is_refused h p path =
     (if p_invalid_root p \<noteq> None then True
      else
        (let resolved = resolve h path (Some (p_root p)) (p_home p);
             candidate = spelling resolved
         in if device_refusal resolved then True
            else
              list_ex (\<lambda>never. \<not> nr_write_only never \<and>
                 contains_refusing h (nr_prefix never) candidate \<and>
                 \<not> (case nr_except_spelling never of None \<Rightarrow> False
                    | Some except \<Rightarrow> contains except candidate) \<and>
                 \<not> (is_home_rule p never \<and> in_additional_root p candidate)) (p_never p) \<or>
              list_ex (\<lambda>rule. pr_read rule \<and> covers h (pr_glob rule) candidate True) (p_deny p)))"

section \<open>Which command lines may be attempted\<close>

definition admit_segment ::
    "('u) unicode_scheme \<Rightarrow> profile \<Rightarrow> rstr \<Rightarrow> denial + rstr option" where
  "admit_segment uc p segment =
     (let command_word = skip_leading_redirects segment
      in case List.find (\<lambda>pattern. match_segment uc pattern command_word True) (p_command_deny p) of
           Some pattern \<Rightarrow> Inl (DeniedSegment pattern segment)
         | None \<Rightarrow>
             if \<not> list_ex (\<lambda>pattern. match_segment uc pattern command_word False) (p_command_allow p)
             then Inl (NoPatternAdmits segment)
             else Inr (literal_executable command_word))"

fun admit_segments ::
    "('u) unicode_scheme \<Rightarrow> profile \<Rightarrow> rstr list \<Rightarrow> rstr list \<Rightarrow> denial + rstr list" where
  "admit_segments uc p [] executables = Inr executables"
| "admit_segments uc p (segment # segments) executables =
     (case admit_segment uc p segment of
        Inl rule \<Rightarrow> Inl rule
      | Inr exe \<Rightarrow> admit_segments uc p segments
          (case exe of None \<Rightarrow> executables | Some e \<Rightarrow> executables @ [e]))"

definition admits_command ::
    "bool \<Rightarrow> ('u) unicode_scheme \<Rightarrow> profile \<Rightarrow> rstr \<Rightarrow> permission_denied + rstr list" where
  "admits_command windows uc p command_line =
     (let denied = (\<lambda>rule. Inl \<lparr>denied_tool = u ''Bash'', denied_path = command_line, denied_rule = rule\<rparr>);
          segments = command_segments command_line
      in case p_invalid_root p of
           Some reason \<Rightarrow> denied (InvalidRoot reason)
         | None \<Rightarrow>
         (case escaping_command command_line (container_mode p) of
           Some name \<Rightarrow> denied (EscapingCommand name)
         | None \<Rightarrow>
         if segments = [] then denied NoPatternAdmitsLine
         else (case admit_segments uc p segments [] of
           Inl rule \<Rightarrow> denied rule
         | Inr executables \<Rightarrow>
         (case (case p_narrowing p of None \<Rightarrow> None
                | Some mode \<Rightarrow> command_refusal windows uc mode command_line) of
           Some (mode, why) \<Rightarrow> denied (ModeCommand mode why)
         | None \<Rightarrow> Inr executables))))"

definition admits_every_command :: "profile \<Rightarrow> bool" where
  "admits_every_command p \<longleftrightarrow> list_ex (\<lambda>pattern. pattern = u ''*'') (p_command_allow p)"

definition admits_mcp_tool :: "('u) unicode_scheme \<Rightarrow> profile \<Rightarrow> rstr \<Rightarrow> bool" where
  "admits_mcp_tool uc p name =
     (if p_invalid_root p \<noteq> None \<or> p_narrowing p \<noteq> None then False
      else if eq_ignore_ascii_case name (u ''webfetch'') \<or> eq_ignore_ascii_case name (u ''websearch'')
      then False
      else if list_ex (\<lambda>pattern. match_segment uc pattern name True) (p_mcp_deny p) then False
      else list_ex (\<lambda>pattern. match_segment uc pattern name False) (p_mcp_allow p))"

definition admits_mcp_server :: "('u) unicode_scheme \<Rightarrow> profile \<Rightarrow> rstr \<Rightarrow> bool" where
  "admits_mcp_server uc p server \<longleftrightarrow>
     p_narrowing p = None \<and>
     list_ex (\<lambda>pattern.
        case Option.bind (strip_pre (u ''mcp__'') pattern) (split_once (u ''__'')) of
          None \<Rightarrow> admits_mcp_tool uc p (u ''mcp__'' @ server @ u ''__*'')
        | Some (server_pattern, tool_pattern) \<Rightarrow>
            match_segment uc server_pattern server False \<and>
            admits_mcp_tool uc p (u ''mcp__'' @ server @ u ''__'' @ tool_pattern))
       (p_mcp_allow p)"

section \<open>The rules as a platform applier reads them\<close>

datatype effect = Allow | Deny | Never

datatype rule_text = AsWritten rstr | NeverText never_text

record rule_view =
  rv_effect :: effect
  rv_written :: rule_text
  rv_glob :: "rstr list"
  rv_read :: bool
  rv_write :: bool
  rv_except :: "npath option"

definition rules :: "profile \<Rightarrow> rule_view list" where
  "rules p =
     map (\<lambda>r. \<lparr>rv_effect = Never, rv_written = NeverText (nr_rule r), rv_glob = nr_glob r,
              rv_read = (\<not> nr_write_only r), rv_write = True, rv_except = nr_except r\<rparr>) (p_never p) @
     map (\<lambda>r. \<lparr>rv_effect = Deny, rv_written = AsWritten (pr_written r), rv_glob = pr_glob r,
              rv_read = True, rv_write = True, rv_except = None\<rparr>) (p_deny p) @
     map (\<lambda>r. \<lparr>rv_effect = Allow, rv_written = AsWritten (pr_written r), rv_glob = pr_glob r,
              rv_read = pr_read r, rv_write = pr_write r, rv_except = None\<rparr>) (p_allow p)"

section \<open>Lemmas\<close>

definition resolved_path :: "('a) host_scheme \<Rightarrow> profile \<Rightarrow> rstr \<Rightarrow> npath" where
  "resolved_path h p path = resolve h path (Some (p_root p)) (p_home p)"

text \<open>Where a grant comes from, once no refusal applies.\<close>

definition grant_source :: "('u) unicode_scheme \<Rightarrow> profile \<Rightarrow> access \<Rightarrow> rstr list \<Rightarrow> bool" where
  "grant_source uc p access candidate \<longleftrightarrow>
     contains (p_root_spelling p) candidate \<or> in_additional_root p candidate \<or>
     in_repository p candidate \<or> access = Read \<and> in_toolchain p candidate \<or>
     allow_covers uc p access candidate \<or> access = Read \<and> container_mode p"

text \<open>The refusals, each of which decides before any grant is looked at.\<close>

definition refused_path :: "('a) host_scheme \<Rightarrow> profile \<Rightarrow> access \<Rightarrow> npath \<Rightarrow> bool" where
  "refused_path h p access q \<longleftrightarrow>
     p_invalid_root p \<noteq> None \<or> device_refusal q \<or>
     list_ex (never_refuses h p access (spelling q) (refusable_forms (spelling q))) (p_never p) \<or>
     list_ex (\<lambda>rule. list_ex (\<lambda>form. covers h (pr_glob rule) form True)
                      (refusable_forms (spelling q))) (p_deny p) \<or>
     access = Write \<and> hard_link_refusal h q \<noteq> None"

lemma find_None_list_ex: "List.find P xs = None \<longleftrightarrow> \<not> list_ex P xs"
  by (auto simp: find_None_iff list_ex_iff)

lemma find_Some_list_ex: "List.find P xs = Some x \<Longrightarrow> list_ex P xs"
  using find_None_list_ex [of P xs] by auto

lemma check_Inr_iff:
  "check h p tool access path = Inr q \<longleftrightarrow>
     q = resolved_path h p path \<and> \<not> refused_path h p access q \<and> grant_source h p access (spelling q)"
  by (auto simp: check_def Let_def resolved_path_def refused_path_def grant_source_def
        find_None_list_ex [symmetric] split: option.splits)

lemma check_request_Inr_iff:
  "check_request h p tool access path = Inr q \<longleftrightarrow>
     check h p tool access path = Inr q \<and>
     (access = Write \<longrightarrow> (case p_narrowing p of None \<Rightarrow> True
                        | Some n \<Rightarrow> write_refusal h n (spelling q) = None))"
  by (auto simp: check_request_def split: sum.splits option.splits)

lemma places_cong [simp]:
  "in_additional_root (p\<lparr>p_narrowing := n\<rparr>) = in_additional_root p"
  "in_repository (p\<lparr>p_narrowing := n\<rparr>) = in_repository p"
  "in_toolchain (p\<lparr>p_narrowing := n\<rparr>) = in_toolchain p"
  "allow_covers uc (p\<lparr>p_narrowing := n\<rparr>) = allow_covers uc p"
  "in_additional_root (p\<lparr>p_bypass_os_sandbox := b\<rparr>) = in_additional_root p"
  "in_repository (p\<lparr>p_bypass_os_sandbox := b\<rparr>) = in_repository p"
  "in_toolchain (p\<lparr>p_bypass_os_sandbox := b\<rparr>) = in_toolchain p"
  "allow_covers uc (p\<lparr>p_bypass_os_sandbox := b\<rparr>) = allow_covers uc p"
  by (simp_all add: fun_eq_iff in_additional_root_def in_repository_def in_toolchain_def
        allow_covers_def)

lemma never_refuses_cong [simp]:
  "never_refuses uc (p\<lparr>p_allow := rs\<rparr>) = never_refuses uc p"
  "never_refuses uc (p\<lparr>p_narrowing := n\<rparr>) = never_refuses uc p"
  "never_refuses uc (p\<lparr>p_bypass_os_sandbox := b\<rparr>) = never_refuses uc p"
  by (simp_all add: fun_eq_iff never_refuses_def is_home_rule_def
        in_additional_root_def in_repository_def in_toolchain_def)

lemma refused_path_cong [simp]:
  "refused_path h (p\<lparr>p_allow := rs\<rparr>) = refused_path h p"
  "refused_path h (p\<lparr>p_narrowing := n\<rparr>) = refused_path h p"
  "refused_path h (p\<lparr>p_bypass_os_sandbox := b\<rparr>) = refused_path h p"
  by (simp_all add: fun_eq_iff refused_path_def)

lemma resolved_path_cong [simp]:
  "resolved_path h (p\<lparr>p_allow := rs\<rparr>) = resolved_path h p"
  "resolved_path h (p\<lparr>p_narrowing := n\<rparr>) = resolved_path h p"
  "resolved_path h (p\<lparr>p_bypass_os_sandbox := b\<rparr>) = resolved_path h p"
  by (simp_all add: fun_eq_iff resolved_path_def)

lemma check_narrowing [simp]: "check h (p\<lparr>p_narrowing := n\<rparr>) = check h p"
  by (intro ext) (simp add: check_def Let_def cong: option.case_cong if_cong)

lemma admit_segments_Inr_iff:
  "admit_segments uc p ss acc = Inr exes \<longleftrightarrow>
     list_all (\<lambda>s. \<exists>e. admit_segment uc p s = Inr e) ss \<and>
     exes = acc @ List.map_filter (\<lambda>s. literal_executable (skip_leading_redirects s)) ss"
proof (induction ss arbitrary: acc)
  case (Cons s ss)
  show ?case
    using Cons.IH
    by (cases "admit_segment uc p s")
      (auto simp: List.map_filter_def admit_segment_def Let_def split: option.splits if_splits)
qed (auto simp: List.map_filter_def)

lemma admit_segment_Inr_iff:
  "(\<exists>e. admit_segment uc p s = Inr e) \<longleftrightarrow>
     \<not> list_ex (\<lambda>pattern. match_segment uc pattern (skip_leading_redirects s) True) (p_command_deny p) \<and>
     list_ex (\<lambda>pattern. match_segment uc pattern (skip_leading_redirects s) False) (p_command_allow p)"
  by (auto simp: admit_segment_def Let_def find_None_list_ex dest: find_Some_list_ex
      split: option.splits)

lemma admits_command_Inr_iff:
  "admits_command w uc p line = Inr exes \<longleftrightarrow>
     p_invalid_root p = None \<and> escaping_command line (container_mode p) = None \<and>
     command_segments line \<noteq> [] \<and> admit_segments uc p (command_segments line) [] = Inr exes \<and>
     (case p_narrowing p of None \<Rightarrow> True
      | Some n \<Rightarrow> command_reads_only w uc line (narrow_commands n) = None)"
  by (auto simp: admits_command_def Let_def command_refusal_def split: option.splits sum.splits)

text \<open>Refusing patterns only take away, narrowing only takes away.\<close>

lemma admit_segment_deny_mono:
  assumes "set (p_command_deny p) \<subseteq> set deny"
    and "\<exists>e. admit_segment uc (p\<lparr>p_command_deny := deny\<rparr>) s = Inr e"
  shows "\<exists>e. admit_segment uc p s = Inr e"
  using assms unfolding admit_segment_Inr_iff by (auto simp: list_ex_iff)

section \<open>The guard as an interface\<close>

text \<open>
  What a file tool relies on when it asks the profile about a path: a grant names one file, that
  file is the same for a read and for a write of one path, and no refused file is granted. The
  tools of theory Exact_Edit are clients of this interface.
\<close>

locale path_guard =
  fixes ask :: "rstr \<Rightarrow> access \<Rightarrow> rstr \<Rightarrow> permission_denied + npath"
    and target :: "rstr \<Rightarrow> npath"
    and refused :: "access \<Rightarrow> npath \<Rightarrow> bool"
  assumes ask_target: "ask tool access path = Inr q \<Longrightarrow> q = target path"
    and ask_not_refused: "ask tool access path = Inr q \<Longrightarrow> \<not> refused access q"
begin

lemma read_write_same:
  "ask tool Read path = Inr r \<Longrightarrow> ask tool' Write path = Inr w \<Longrightarrow> r = w"
  using ask_target by metis

lemma refused_not_asked: "refused access (target path) \<Longrightarrow> ask tool access path \<noteq> Inr q"
  using ask_target ask_not_refused by metis

end

interpretation profile_guard: path_guard "check h p" "resolved_path h p" "refused_path h p"
  by unfold_locales (simp_all add: check_Inr_iff)

interpretation request_guard: path_guard "check_request h p" "resolved_path h p" "refused_path h p"
  by unfold_locales (simp_all add: check_request_Inr_iff check_Inr_iff)

section \<open>A small profile for closed examples\<close>

definition example_profile :: profile where
  "example_profile = \<lparr>p_root = NPath True [u ''proj''], p_bypass_os_sandbox = False,
     p_additional_roots = [], p_invalid_root = None, p_root_spelling = [u ''proj''], p_home = None,
     p_allow = [], p_deny = [\<lparr>pr_written = u ''Read(/proj/keys/**)'',
       pr_glob = [u ''proj'', u ''keys'', any_depth], pr_read = True, pr_write = False\<rparr>],
     p_never = [\<lparr>nr_prefix = [u ''proj'', u ''.pane''],
       nr_glob = subtree_glob [u ''proj'', u ''.pane''],
       nr_except = Some (NPath True [u ''proj'', u ''.pane'', u ''scratch'']),
       nr_except_spelling = Some [u ''proj'', u ''.pane'', u ''scratch''], nr_write_only = True,
       nr_rule = PaneHostOwned\<rparr>],
     p_toolchain = [], p_toolchain_files = [], p_repository = [], p_command_allow = [u ''*''],
     p_command_deny = [u ''git checkout *''], p_mcp_allow = [], p_mcp_deny = [],
     p_diagnostics = [], p_narrowing = None\<rparr>"

text \<open>Closed paths on a host where nothing exists resolve to their components.\<close>

definition empty_host :: host where
  "empty_host = bare_host\<lparr>path_exists := \<lambda>_. False, canonicalize := \<lambda>_. None\<rparr>"

lemma link_free_empty_host [simp]: "link_free empty_host"
  by (simp add: link_free_def empty_host_def bare_host_def)

lemma empty_host_simps [simp]:
  "link_metadata empty_host t = NothingThere" "env_var empty_host t = None"
  "lower_char empty_host c = [ascii_lower c]" "lower_str empty_host = map ascii_lower"
  "canonicalize empty_host t = None" "read_link empty_host t = None" "\<not> path_exists empty_host t"
  by (simp_all add: empty_host_def bare_host_def)

lemma resolve_walk_empty_host:
  "resolve_walk empty_host cs out links = lexical_walk cs out"
  by (induction cs arbitrary: out)
    (simp_all add: prefix_loop_link_free del: prefix_loop.simps split: comp.split)

named_theorems path_eval "definitions that closed path questions evaluate by simp"

declare resolve_def [path_eval] expand_tilde_def [path_eval] resolve_components_def [path_eval]
declare resolve_walk_empty_host [path_eval] components_def [path_eval] part_comps_def [path_eval]
declare is_absolute_def [path_eval] join_path_def [path_eval] display_def [path_eval]
declare sep_def [path_eval] empty_path_def [path_eval] push_def [path_eval] pop_def [path_eval]
declare spelling_def [path_eval] spelling_of_def [path_eval] fold_backslashes_def [path_eval]
declare reduced_device_def [path_eval] upper_drive_def [path_eval] is_drive_prefixed_def [path_eval]
declare device_refusal_def [path_eval] stream_stripped_def [path_eval] refusable_forms_def [path_eval]
declare windows_rooted_def [path_eval] resolved_path_def [path_eval]

lemmas example_eval =
  refused_path_def grant_source_def example_profile_def never_refuses_def contains_refusing_def
  contains_def covers_def any_depth_def same_component_def is_home_rule_def hard_link_refusal_def
  rust_std match_segment_def refusing_form_def same_def Let_def

lemma admit_segment_narrowing [simp]:
  "admit_segment uc (p\<lparr>p_narrowing := m\<rparr>) s = admit_segment uc p s"
  by (simp add: admit_segment_def Let_def cong: option.case_cong if_cong)

lemma admit_segments_narrowing [simp]:
  "admit_segments uc (p\<lparr>p_narrowing := m\<rparr>) ss acc = admit_segments uc p ss acc"
  by (induction ss arbitrary: acc) (simp_all cong: sum.case_cong)

lemma escaping_command_iff:
  "escaping_command line cm \<noteq> None \<longleftrightarrow>
     list_ex (\<lambda>word. list_ex (\<lambda>name. eq_ignore_ascii_case (escape_base word) name)
                       (never_grantable_commands cm)) (split_whitespace line)"
  by (auto simp: escaping_command_def find_None_list_ex list_ex_iff)

lemma example_dot:
  "command_segments (u ''git checkout .'') = [u ''git checkout .'']"
  "skip_leading_redirects (u ''git checkout .'') = u ''git checkout .''"
  "literal_executable (u ''git checkout .'') = Some (u ''git'')"
  "escaping_command (u ''git checkout .'') False = None"
  by (simp_all add: rust_std scan_eval Let_def)

lemma refusing_form_dot:
  "refusing_form (u ''git checkout .'') = u ''git checkout''"
  "refusing_form (u ''git checkout *'') = u ''git checkout *''"
  by (simp_all add: refusing_form_def trim_end_matches_def)

section \<open>What a decision means\<close>

text \<open>
  The promise of \<open>check\<close> in terms of paths, without its loops and searches: a path lies under
  another when it continues it, a refusing rule is matched by any name of one file, a pattern
  reaches a path by the declarative reading of globs. Every reason to refuse is a value of
  \<open>refusal_applies\<close>; \<open>refusal_rank\<close> is the order in which the source documents them.
\<close>

definition under :: "rstr list \<Rightarrow> rstr list \<Rightarrow> bool" where
  "under place candidate \<longleftrightarrow> (\<exists>rest. candidate = place @ rest)"

definition loosely_under :: "('u) unicode_scheme \<Rightarrow> rstr list \<Rightarrow> rstr list \<Rightarrow> bool" where
  "loosely_under uc place candidate \<longleftrightarrow>
     (\<exists>front rest. candidate = front @ rest \<and>
        list_all2 (\<lambda>a b. same_component uc (refusing_form a) (refusing_form b)) place front)"

text \<open>A file inside a directory is also named with an alternate data stream after a colon.\<close>

definition names_of :: "rstr list \<Rightarrow> rstr list set" where
  "names_of candidate =
     {candidate} \<union>
     {dir @ [base] |dir base. dir \<noteq> [] \<and> base \<noteq> [] \<and> 58 \<notin> set base \<and>
        (\<exists>stream. candidate = dir @ [base @ 58 # stream])}"

definition glob_reaches :: "('u) unicode_scheme \<Rightarrow> bool \<Rightarrow> rstr list \<Rightarrow> rstr list \<Rightarrow> bool" where
  "glob_reaches uc folds glob candidate \<longleftrightarrow>
     (\<exists>ancestor rest. candidate = ancestor @ rest \<and>
        components_match
          (\<lambda>p t. chars_match (\<lambda>a b. same uc a b folds)
             (if folds then refusing_form p else p) (if folds then refusing_form t else t))
          glob ancestor)"

text \<open>A device path that is neither a drive's nor a share's.\<close>

definition names_device :: "npath \<Rightarrow> bool" where
  "names_device q \<longleftrightarrow>
     (\<exists>rest. fold_backslashes (display q) \<in> {u ''//?/'' @ rest, u ''//./'' @ rest} \<and>
        \<not> (\<exists>drive tail. is_ascii_alpha drive \<and> rest = drive # 58 # sep # tail) \<and>
        \<not> (\<exists>share tail. length share = 4 \<and> eq_ignore_ascii_case share (u ''unc/'') \<and>
             rest = share @ tail))"

text \<open>The places the host itself grants beside the root, inside the home or out of it.\<close>

definition host_grants :: "profile \<Rightarrow> access \<Rightarrow> rstr list \<Rightarrow> bool" where
  "host_grants p access candidate \<longleftrightarrow>
     (\<exists>place. under place candidate \<and>
        (place \<in> spelling ` set (p_additional_roots p) \<or> place \<in> snd ` set (p_repository p) \<or>
         access = Read \<and> place \<in> snd ` set (p_toolchain p))) \<or>
     access = Read \<and> candidate \<in> snd ` set (p_toolchain_files p)"

definition rule_stands ::
    "('u) unicode_scheme \<Rightarrow> profile \<Rightarrow> access \<Rightarrow> rstr list \<Rightarrow> never_rule \<Rightarrow> bool" where
  "rule_stands uc p access candidate never \<longleftrightarrow>
     (access = Write \<or> \<not> nr_write_only never) \<and>
     (\<exists>form \<in> names_of candidate. loosely_under uc (nr_prefix never) form) \<and>
     \<not> (\<exists>except. nr_except_spelling never = Some except \<and> under except candidate) \<and>
     \<not> (\<exists>home. p_home p = Some home \<and> spelling home = nr_prefix never \<and>
           host_grants p access candidate)"

definition granted :: "('u) unicode_scheme \<Rightarrow> profile \<Rightarrow> access \<Rightarrow> rstr list \<Rightarrow> bool" where
  "granted uc p access candidate \<longleftrightarrow>
     under (p_root_spelling p) candidate \<or> host_grants p access candidate \<or>
     (\<exists>rule \<in> set (p_allow p).
        (access = Read \<and> pr_read rule \<or> access = Write \<and> pr_write rule) \<and>
        glob_reaches uc False (pr_glob rule) candidate) \<or>
     access = Read \<and> container_mode p"

text \<open>\<open>first_of P xs x\<close>: \<open>x\<close> is the first of \<open>xs\<close> with \<open>P\<close>.\<close>

definition first_of :: "('a \<Rightarrow> bool) \<Rightarrow> 'a list \<Rightarrow> 'a \<Rightarrow> bool" where
  "first_of P xs x \<longleftrightarrow>
     (\<exists>before after. xs = before @ x # after \<and> P x \<and> \<not> (\<exists>y \<in> set before. P y))"

fun refusal_applies ::
    "('a) host_scheme \<Rightarrow> profile \<Rightarrow> access \<Rightarrow> npath \<Rightarrow> denial \<Rightarrow> bool" where
  "refusal_applies h p access q (InvalidRoot e) \<longleftrightarrow> p_invalid_root p = Some e"
| "refusal_applies h p access q DeviceNamespace \<longleftrightarrow> names_device q"
| "refusal_applies h p access q (NeverGrantable rule) \<longleftrightarrow>
     (\<exists>never. first_of (rule_stands h p access (spelling q)) (p_never p) never \<and>
        rule = nr_rule never)"
| "refusal_applies h p access q (InDeny written) \<longleftrightarrow>
     (\<exists>rule. first_of (\<lambda>rule. \<exists>form \<in> names_of (spelling q). glob_reaches h True (pr_glob rule) form)
                (p_deny p) rule \<and> written = pr_written rule)"
| "refusal_applies h p access q (HardLinked names) \<longleftrightarrow>
     access = Write \<and> link_metadata h (display q) = Linked True names \<and> 1 < names"
| "refusal_applies h p access q (LinkCountUnreadable e) \<longleftrightarrow>
     access = Write \<and> link_metadata h (display q) = MetaError e"
| "refusal_applies h p access q (NoGrantCovers roots) \<longleftrightarrow>
     \<not> granted h p access (spelling q) \<and>
     roots = (if access = Read then OnlyReadableRoot
              else if container_mode p then OnlyWritableRootContainer else OnlyWritableRoot)"
| "refusal_applies h p access q _ \<longleftrightarrow> False"

fun refusal_rank :: "denial \<Rightarrow> nat" where
  "refusal_rank (InvalidRoot _) = 0"
| "refusal_rank DeviceNamespace = 1"
| "refusal_rank (NeverGrantable _) = 2"
| "refusal_rank (InDeny _) = 3"
| "refusal_rank (HardLinked _) = 4"
| "refusal_rank (LinkCountUnreadable _) = 4"
| "refusal_rank _ = 5"

lemma contains_under: "contains = under"
  by (simp add: fun_eq_iff contains_iff under_def)

lemma contains_refusing_loosely: "contains_refusing = loosely_under"
proof (intro ext iffI)
  fix uc :: "('u) unicode_scheme" and place c
  assume "contains_refusing uc place c"
  then have "list_all2 (\<lambda>a b. same_component uc (refusing_form a) (refusing_form b)) place
      (take (length place) c)"
    by (auto simp: contains_refusing_def list_all2_conv_all_nth list_all_length)
  then show "loosely_under uc place c"
    unfolding loosely_under_def by (metis append_take_drop_id)
next
  fix uc :: "('u) unicode_scheme" and place c
  assume "loosely_under uc place c"
  then show "contains_refusing uc place c"
    by (auto simp: loosely_under_def contains_refusing_def list_all2_conv_all_nth list_all_length
        nth_append)
qed

lemma covers_reaches: "covers uc glob c folds \<longleftrightarrow> glob_reaches uc folds glob c"
  unfolding glob_reaches_def covers_iff_prefix match_components_iff match_segment_def match_chars_iff
  by (cases folds) simp_all

lemma takeWhile_colon:
  "takeWhile (\<lambda>c. c \<noteq> 58) lst = base \<and> length base \<noteq> length lst \<longleftrightarrow>
     58 \<notin> set base \<and> (\<exists>stream. lst = base @ 58 # stream)"
proof
  assume h: "takeWhile (\<lambda>c. c \<noteq> 58) lst = base \<and> length base \<noteq> length lst"
  then have "dropWhile (\<lambda>c. c \<noteq> 58) lst \<noteq> []"
    by (metis append_Nil2 takeWhile_dropWhile_id)
  then obtain x stream where d: "dropWhile (\<lambda>c. c \<noteq> 58) lst = x # stream" by (cases "dropWhile (\<lambda>c. c \<noteq> 58) lst") auto
  then have "x = 58" using hd_dropWhile [of "\<lambda>c. c \<noteq> 58" lst] by simp
  moreover have "lst = base @ x # stream" using h d by (metis takeWhile_dropWhile_id)
  moreover have "58 \<notin> set base" using h by (auto dest: set_takeWhileD)
  ultimately show "58 \<notin> set base \<and> (\<exists>stream. lst = base @ 58 # stream)" by blast
next
  assume "58 \<notin> set base \<and> (\<exists>stream. lst = base @ 58 # stream)"
  then obtain stream where n: "58 \<notin> set base" and lst: "lst = base @ 58 # stream" by blast
  from n have "\<And>c. c \<in> set base \<Longrightarrow> c \<noteq> 58" by auto
  then show "takeWhile (\<lambda>c. c \<noteq> 58) lst = base \<and> length base \<noteq> length lst"
    by (simp add: lst takeWhile_append)
qed

lemma refusable_names: "set (refusable_forms c) = names_of c"
proof -
  have stripped: "stream_stripped c = Some s \<longleftrightarrow>
      (\<exists>dir base. s = dir @ [base] \<and> dir \<noteq> [] \<and> base \<noteq> [] \<and> 58 \<notin> set base \<and>
         (\<exists>stream. c = dir @ [base @ 58 # stream]))" for s
  proof (cases c rule: rev_cases)
    case (snoc dir lst)
    have "stream_stripped c = Some s \<longleftrightarrow>
        (\<exists>base. dir \<noteq> [] \<and> base \<noteq> [] \<and> s = dir @ [base] \<and>
           takeWhile (\<lambda>c. c \<noteq> 58) lst = base \<and> length base \<noteq> length lst)"
      by (auto simp: stream_stripped_def snoc Let_def split: if_splits)
    then show ?thesis unfolding takeWhile_colon by (auto simp: snoc)
  qed (simp add: stream_stripped_def)
  have "names_of c = {c} \<union> {s. stream_stripped c = Some s}"
    unfolding names_of_def stripped ..
  moreover have "set (refusable_forms c) = {c} \<union> {s. stream_stripped c = Some s}"
    by (cases "stream_stripped c") (auto simp: refusable_forms_def)
  ultimately show ?thesis by simp
qed

lemma find_first_of: "List.find P xs = Some x \<longleftrightarrow> first_of P xs x"
proof
  assume "List.find P xs = Some x"
  then obtain i where i: "i < length xs" "P (xs ! i)" "x = xs ! i" "\<forall>j<i. \<not> P (xs ! j)"
    by (auto simp: find_Some_iff)
  then have "xs = take i xs @ x # drop (Suc i) xs" by (simp add: id_take_nth_drop)
  moreover have "\<not> (\<exists>y \<in> set (take i xs). P y)" using i by (auto simp: in_set_conv_nth)
  ultimately show "first_of P xs x" using i unfolding first_of_def by blast
next
  assume "first_of P xs x"
  then obtain before after where xs: "xs = before @ x # after" and "P x"
    and b: "\<not> (\<exists>y \<in> set before. P y)" by (auto simp: first_of_def)
  moreover have "List.find P (before @ x # after) = Some x" using b \<open>P x\<close>
    by (induction before) auto
  ultimately show "List.find P xs = Some x" by simp
qed

lemma find_None_first_of: "List.find P xs = None \<longleftrightarrow> \<not> (\<exists>x. first_of P xs x)"
  by (simp add: find_first_of [symmetric])

lemma host_grants_iff:
  "host_grants p access c \<longleftrightarrow>
     in_additional_root p c \<or> in_repository p c \<or> access = Read \<and> in_toolchain p c"
  by (auto simp: host_grants_def in_additional_root_def in_repository_def in_toolchain_def
      contains_under list_ex_iff image_iff Bex_def)

lemma never_refuses_stands:
  "never_refuses uc p access c (refusable_forms c) = rule_stands uc p access c"
  by (auto simp: fun_eq_iff never_refuses_def rule_stands_def host_grants_iff is_home_rule_def
      contains_under contains_refusing_loosely list_ex_iff refusable_names
      split: option.splits access.splits)

lemma deny_covers_reaches:
  "list_ex (\<lambda>form. covers uc glob form True) (refusable_forms c) \<longleftrightarrow>
     (\<exists>form \<in> names_of c. glob_reaches uc True glob form)"
  by (simp add: list_ex_iff refusable_names covers_reaches)

lemma grant_source_granted: "grant_source uc p access c \<longleftrightarrow> granted uc p access c"
  by (cases access)
    (auto simp: grant_source_def granted_def host_grants_iff allow_covers_def covers_reaches
      contains_under list_ex_iff)

lemma device_reduced:
  assumes "folded = u ''//?/'' @ rest \<or> folded = u ''//./'' @ rest"
  shows "reduced_device folded = None \<longleftrightarrow>
     \<not> (\<exists>drive tail. is_ascii_alpha drive \<and> rest = drive # 58 # sep # tail) \<and>
     \<not> (\<exists>share tail. length share = 4 \<and> eq_ignore_ascii_case share (u ''unc/'') \<and>
          rest = share @ tail)"
proof -
  have d: "is_drive_prefixed rest \<and> 2 < length rest \<and> rest ! 2 = sep \<longleftrightarrow>
      (\<exists>drive tail. is_ascii_alpha drive \<and> rest = drive # 58 # sep # tail)"
    by (auto simp: is_drive_prefixed_def neq_Nil_conv numeral_2_eq_2 Suc_less_eq2 length_Suc_conv
        split: list.splits)
  have s: "4 \<le> length rest \<and> eq_ignore_ascii_case (take 4 rest) (u ''unc/'') \<longleftrightarrow>
      (\<exists>share tail. length share = 4 \<and> eq_ignore_ascii_case share (u ''unc/'') \<and>
         rest = share @ tail)"
    by (metis append_eq_conv_conj append_take_drop_id length_append length_take le_add1 min.absorb2)
  have "(case strip_pre (u ''//?/'') folded of Some r \<Rightarrow> Some r
         | None \<Rightarrow> strip_pre (u ''//./'') folded) = Some rest"
    using assms by auto
  then show ?thesis unfolding reduced_device_def s [symmetric] d [symmetric] by simp
qed

lemma device_refusal_names: "device_refusal q \<longleftrightarrow> names_device q"
  unfolding device_refusal_def names_device_def Let_def starts_with_iff
  by (auto simp: device_reduced)

lemma refusal_applies_iff:
  "refusal_applies h p access q r \<longleftrightarrow>
     (case r of
        InvalidRoot e \<Rightarrow> p_invalid_root p = Some e
      | DeviceNamespace \<Rightarrow> names_device q
      | NeverGrantable rule \<Rightarrow>
          map_option nr_rule (List.find (rule_stands h p access (spelling q)) (p_never p)) = Some rule
      | InDeny written \<Rightarrow>
          map_option pr_written (List.find
            (\<lambda>rule. \<exists>form \<in> names_of (spelling q). glob_reaches h True (pr_glob rule) form)
            (p_deny p)) = Some written
      | HardLinked _ \<Rightarrow> access = Write \<and> hard_link_refusal h q = Some r
      | LinkCountUnreadable _ \<Rightarrow> access = Write \<and> hard_link_refusal h q = Some r
      | NoGrantCovers roots \<Rightarrow>
          \<not> granted h p access (spelling q) \<and> roots = only_root_sentence access (container_mode p)
      | _ \<Rightarrow> False)"
  by (cases r)
    (auto simp: find_first_of hard_link_refusal_def only_root_sentence_def
      split: link_meta.splits access.splits)

lemma hard_link_refusal_cases:
  "hard_link_refusal h q = Some r \<Longrightarrow> (\<exists>n. r = HardLinked n) \<or> (\<exists>e. r = LinkCountUnreadable e)"
  by (auto simp: hard_link_refusal_def split: link_meta.splits if_splits)

text \<open>The answer is the first refusal that applies, and a grant when none does.\<close>

lemma check_outcome:
  fixes h :: "('a) host_scheme" and p :: profile and path :: rstr
  defines "q \<equiv> resolved_path h p path"
  obtains (grant) "check h p tool access path = Inr q" "\<And>r. \<not> refusal_applies h p access q r"
  | (refusal) r where
      "check h p tool access path = Inl \<lparr>denied_tool = tool, denied_path = shown q, denied_rule = r\<rparr>"
      "refusal_applies h p access q r"
      "\<And>other. refusal_applies h p access q other \<Longrightarrow> refusal_rank r \<le> refusal_rank other"
proof -
  let ?c = "spelling q"
  let ?never = "List.find (rule_stands h p access ?c) (p_never p)"
  let ?deny = "List.find (\<lambda>rule. \<exists>form \<in> names_of ?c. glob_reaches h True (pr_glob rule) form) (p_deny p)"
  let ?link = "if access = Write then hard_link_refusal h q else None"
  have check: "check h p tool access path =
      (let denied = (\<lambda>rule. Inl \<lparr>denied_tool = tool, denied_path = shown q, denied_rule = rule\<rparr>)
       in case p_invalid_root p of Some e \<Rightarrow> denied (InvalidRoot e)
       | None \<Rightarrow> if names_device q then denied DeviceNamespace
       else (case ?never of Some never \<Rightarrow> denied (NeverGrantable (nr_rule never))
       | None \<Rightarrow> (case ?deny of Some rule \<Rightarrow> denied (InDeny (pr_written rule))
       | None \<Rightarrow> (case ?link of Some rule \<Rightarrow> denied rule
       | None \<Rightarrow> if granted h p access ?c then Inr q
                else denied (NoGrantCovers (only_root_sentence access (container_mode p)))))))"
    unfolding q_def check_def Let_def resolved_path_def [symmetric] never_refuses_stands
      deny_covers_reaches device_refusal_names grant_source_granted [symmetric] grant_source_def
    by (simp cong: if_cong option.case_cong)
  note eval = check refusal_applies_iff
  show thesis
  proof (cases "p_invalid_root p")
    case valid: None
    show thesis
    proof (cases "names_device q")
      case plain: False
      show thesis
      proof (cases ?never)
        case unprotected: None
        show thesis
        proof (cases ?deny)
          case undenied: None
          show thesis
          proof (cases ?link)
            case unlinked: None
            note so_far = valid plain unprotected undenied unlinked
            show thesis
            proof (cases "granted h p access ?c")
              case True
              with so_far show thesis
                by (intro grant) (auto simp: eval split: denial.splits if_splits)
            next
              case False
              with so_far show thesis
                by (intro refusal [of "NoGrantCovers (only_root_sentence access (container_mode p))"])
                  (auto simp: eval split: denial.splits if_splits)
            qed
          next
            case (Some r)
            then have w: "access = Write" and r: "hard_link_refusal h q = Some r"
              by (auto split: if_splits)
            note so_far = valid plain unprotected undenied Some
            show thesis
            proof (rule refusal [of r])
              show "check h p tool access path =
                  Inl \<lparr>denied_tool = tool, denied_path = shown q, denied_rule = r\<rparr>"
                unfolding check so_far by (simp add: plain)
            qed (use so_far w r hard_link_refusal_cases [OF r] in
                \<open>auto simp: refusal_applies_iff split: denial.splits\<close>)
          qed
        next
          case (Some rule)
          with valid plain unprotected show thesis
            by (intro refusal [of "InDeny (pr_written rule)"]) (auto simp: eval split: denial.splits)
        qed
      next
        case (Some never)
        with valid plain show thesis
          by (intro refusal [of "NeverGrantable (nr_rule never)"])
            (auto simp: eval split: denial.splits)
      qed
    next
      case True
      with valid show thesis
        by (intro refusal [of DeviceNamespace]) (auto simp: eval split: denial.splits)
    qed
  next
    case (Some e)
    then show thesis by (intro refusal [of "InvalidRoot e"]) (simp_all add: eval)
  qed
qed

lemma refusals_of_one_rank:
  "refusal_applies h p access q r \<Longrightarrow> refusal_applies h p access q r' \<Longrightarrow>
   refusal_rank r = refusal_rank r' \<Longrightarrow> r = r'"
  by (cases r; cases r') (auto simp: refusal_applies_iff)

section \<open>Properties\<close>

text \<open>
  C1. What the path check answers, on every branch, told without its loops: the resolved path is
  granted exactly when no reason to refuse it applies, and otherwise the answer names the tool, the
  path as it is shown and the first reason in the documented order that applies - the root that
  could not be established, a device path, the first never-grantable rule that stands against some
  name of the file, the first \<open>deny\<close> pattern that reaches some name of it, a written file with
  another name, and last that no grant (root, additional root, repository directory, toolchain
  read, \<open>allow\<close> pattern, container read) reaches it.
\<close>

theorem check_decides:
  "(check h p tool access path = Inr q) =
     (q = resolved_path h p path \<and> \<not> (\<exists>reason. refusal_applies h p access q reason)) \<and>
   (check h p tool access path = Inl e) =
     (denied_tool e = tool \<and> denied_path e = shown (resolved_path h p path) \<and>
      refusal_applies h p access (resolved_path h p path) (denied_rule e) \<and>
      \<not> (\<exists>reason. refusal_applies h p access (resolved_path h p path) reason \<and>
           refusal_rank reason < refusal_rank (denied_rule e)))"
proof (cases rule: check_outcome [of h p tool access path])
  case grant
  then show ?thesis by auto
next
  case (refusal r)
  have "refusal_applies h p access (resolved_path h p path) r' \<and> refusal_rank r' \<le> refusal_rank r \<longleftrightarrow>
      r' = r" for r'
    using refusal(2,3) refusals_of_one_rank [OF refusal(2)] by (metis le_antisym)
  then have "r = denied_rule e \<longleftrightarrow>
      refusal_applies h p access (resolved_path h p path) (denied_rule e) \<and>
      \<not> (\<exists>reason. refusal_applies h p access (resolved_path h p path) reason \<and>
           refusal_rank reason < refusal_rank (denied_rule e))"
    using refusal(2,3) by (metis not_less)
  then show ?thesis using refusal(1,2) by (cases e) auto
qed

text \<open>
  Refusals come first: a path that a never-grantable rule, a \<open>deny\<close> pattern, the device rule or
  the hard-link rule refuses stays refused whatever \<open>allow\<close> patterns the profile is given.
\<close>

theorem no_allow_reaches_refused:
  assumes "refused_path h p access (resolved_path h p path)"
  shows "check h (p\<lparr>p_allow := patterns\<rparr>) tool access path \<noteq> Inr q"
  using assms by (auto simp: check_Inr_iff)

theorem no_allow_reaches_refused_witness:
  "\<forall>q. check empty_host (example_profile\<lparr>p_allow := [\<lparr>pr_written = u ''Read(/**)'', pr_glob = [any_depth],
       pr_read = True, pr_write = True\<rparr>]\<rparr>) (u ''read'') Read (u ''keys/a'') \<noteq> Inr q"
proof (intro allI no_allow_reaches_refused)
  show "refused_path empty_host example_profile Read
          (resolved_path empty_host example_profile (u ''keys/a''))"
    by (simp add: path_eval refused_path_def example_profile_def covers_def any_depth_def rust_std
          match_segment_def refusing_form_def same_def Let_def del: prefix_loop.simps)
qed

text \<open>
  Bypassing the OS sandbox (container mode) widens reads only: for a write, the check answers
  the same with it and without it.
\<close>

theorem container_mode_widens_reads_only:
  "check h (p\<lparr>p_bypass_os_sandbox := True\<rparr>) tool Write path = Inr q \<longleftrightarrow>
   check h (p\<lparr>p_bypass_os_sandbox := False\<rparr>) tool Write path = Inr q"
  by (simp add: check_Inr_iff grant_source_def)

text \<open>
  A request mode only narrows paths: whatever mode a profile is narrowed to, a request is
  granted only what the profile alone grants, and a read is never narrowed.
\<close>

theorem mode_narrows_paths:
  "(check_request h (p\<lparr>p_narrowing := n\<rparr>) tool access path = Inr q) =
     (check h p tool access path = Inr q \<and>
      \<not> (access = Write \<and> (\<exists>m. n = Some m \<and> write_refusal h m (spelling q) \<noteq> None)))"
  by (auto simp: check_request_Inr_iff split: option.splits)

text \<open>
  A request mode only narrows commands: a line a narrowed profile admits, the profile without
  the mode admits, with the same executables.
\<close>

theorem mode_narrows_commands:
  assumes "admits_command windows uc (p\<lparr>p_narrowing := Some n\<rparr>) line = Inr executables"
  shows "admits_command windows uc (p\<lparr>p_narrowing := None\<rparr>) line = Inr executables"
  using assms by (simp add: admits_command_Inr_iff)

definition explore_example :: narrowing where
  "explore_example = \<lparr>narrow_mode = Explore, narrow_writable = [], narrow_commands = []\<rparr>"

theorem mode_narrows_commands_witness:
  "admits_command False empty_host (example_profile\<lparr>p_narrowing := None\<rparr>) (u ''ls'') = Inr [u ''ls'']"
proof (rule mode_narrows_commands)
  show "admits_command False empty_host (example_profile\<lparr>p_narrowing := Some explore_example\<rparr>)
          (u ''ls'') = Inr [u ''ls'']"
    by (simp add: admits_command_def admit_segment_def example_profile_def explore_example_def
          command_refusal_def match_segment_def refusing_form_def same_def rust_std scan_eval Let_def)
qed

text \<open>
  C3. In \<open>plan\<close> mode the one file a request may write is the plan file: a granted write names the
  resolved path of \<open>.pane/scratch/plan.md\<close> exactly, never something below it.
\<close>

theorem plan_writes_only_the_plan:
  assumes "compile_narrowing h Plan overlay (p_root p) (p_home p) (p_root_spelling p) = (n, dropped)"
    and "check_request h (p\<lparr>p_narrowing := n\<rparr>) tool Write path = Inr q"
  shows "spelling q = resolve_pattern h (p_root p) (p_home p) PLAN_FILE"
proof -
  have "n = Some \<lparr>narrow_mode = Plan,
      narrow_writable = [(PLAN_FILE, resolve_pattern h (p_root p) (p_home p) PLAN_FILE)],
      narrow_commands = overlay_commands overlay\<rparr>"
    using assms(1) by (simp add: compile_narrowing_def)
  then show ?thesis
    using assms(2) by (auto simp: check_request_Inr_iff write_refusal_def split: if_splits)
qed

theorem plan_writes_only_the_plan_witness:
  "\<exists>n dropped q.
     compile_narrowing empty_host Plan (new_overlay [] []) (p_root example_profile)
       (p_home example_profile) (p_root_spelling example_profile) = (n, dropped) \<and>
     check_request empty_host (example_profile\<lparr>p_narrowing := n\<rparr>) (u ''write'') Write PLAN_FILE = Inr q \<and>
     spelling q = resolve_pattern empty_host (p_root example_profile) (p_home example_profile) PLAN_FILE"
proof -
  let ?q = "NPath True [u ''proj'', u ''.pane'', u ''scratch'', u ''plan.md'']"
  obtain n dropped where c:
    "compile_narrowing empty_host Plan (new_overlay [] []) (p_root example_profile)
       (p_home example_profile) (p_root_spelling example_profile) = (n, dropped)"
    by fastforce
  have "check empty_host example_profile (u ''write'') Write PLAN_FILE = Inr ?q"
    unfolding check_Inr_iff
    by (simp add: example_eval path_eval PLAN_FILE_def del: prefix_loop.simps)
  moreover have "spelling ?q = resolve_pattern empty_host (p_root example_profile)
      (p_home example_profile) PLAN_FILE"
    by (simp add: example_eval path_eval PLAN_FILE_def resolve_pattern_def ordinary_spelling_def
          is_rooted_def has_wildcard_def del: prefix_loop.simps)
  ultimately have r: "check_request empty_host (example_profile\<lparr>p_narrowing := n\<rparr>) (u ''write'') Write
      PLAN_FILE = Inr ?q"
    using c by (auto simp: check_request_Inr_iff write_refusal_def compile_narrowing_def)
  show ?thesis using c r plan_writes_only_the_plan [OF c r] by blast
qed

text \<open>
  C2. A command line is admitted exactly when the root is valid, no word of it names a sandbox
  launcher or a debugger, it has a segment, every segment is matched by an \<open>allow\<close> pattern and by
  no \<open>deny\<close> pattern, and the request mode reads it as read-only; the grant names the literal
  executables of the segments in order.
\<close>

theorem admits_command_decides:
  "admits_command windows uc p line = Inr executables \<longleftrightarrow>
     p_invalid_root p = None \<and>
     \<not> list_ex (\<lambda>word. list_ex (\<lambda>name. eq_ignore_ascii_case (escape_base word) name)
                        (never_grantable_commands (container_mode p))) (split_whitespace line) \<and>
     command_segments line \<noteq> [] \<and>
     list_all (\<lambda>s.
        \<not> list_ex (\<lambda>pat. match_segment uc pat (skip_leading_redirects s) True) (p_command_deny p) \<and>
        list_ex (\<lambda>pat. match_segment uc pat (skip_leading_redirects s) False) (p_command_allow p))
       (command_segments line) \<and>
     executables =
       List.map_filter (\<lambda>s. literal_executable (skip_leading_redirects s)) (command_segments line) \<and>
     (case p_narrowing p of None \<Rightarrow> True
      | Some n \<Rightarrow> command_reads_only windows uc line (narrow_commands n) = None)"
  unfolding admits_command_Inr_iff admit_segments_Inr_iff admit_segment_Inr_iff
    escaping_command_iff [symmetric]
  by auto

text \<open>
  Because a refusing comparison cuts a trailing dot, a profile that allows every command and
  denies \<open>git checkout *\<close> admits \<open>git checkout .\<close>, which discards every change in the working tree.
\<close>

theorem denied_command_is_admitted:
  "admits_command False empty_host example_profile (u ''git checkout .'') = Inr [u ''git'']"
proof -
  have "match_segment empty_host (u ''*'') (u ''git checkout .'') False"
    by (simp add: match_segment_def)
  moreover have "\<not> match_segment empty_host (u ''git checkout *'') (u ''git checkout .'') True"
    unfolding match_segment_def refusing_form_dot if_True by simp
  ultimately show ?thesis
    by (simp add: admits_command_def admit_segment_def example_dot example_profile_def Let_def
          del: u.simps)
qed

text \<open>
  A profile whose root could not be established admits nothing at all: no path, no command
  line, no MCP tool, no executable, and it has no writable root.
\<close>

theorem invalid_root_refuses_everything:
  assumes "p_invalid_root p = Some reason"
  shows "check_request h p tool access path \<noteq> Inr q \<and>
         admits_command windows h p line \<noteq> Inr executables \<and>
         \<not> admits_mcp_tool h p name \<and> executable_is_refused h p path \<and> writable_roots p = []"
  using assms
  by (simp add: check_request_Inr_iff check_Inr_iff refused_path_def admits_command_Inr_iff
        admits_mcp_tool_def executable_is_refused_def writable_roots_def)

theorem invalid_root_refuses_everything_witness:
  "\<forall>q. check_request empty_host (example_profile\<lparr>p_invalid_root := Some NoCurrentDir\<rparr>) (u ''read'') Read
     (u ''a'') \<noteq> Inr q"
  using invalid_root_refuses_everything
    [of "example_profile\<lparr>p_invalid_root := Some NoCurrentDir\<rparr>" NoCurrentDir empty_host "u ''read''"
        Read "u ''a''" _ False "[]" "[]" "[]"] by simp

text \<open>
  \<open>deny\<close> patterns only take away: a line admitted under more of them is admitted under fewer,
  with the same executables.
\<close>

theorem command_deny_only_removes:
  assumes "set (p_command_deny p) \<subseteq> set patterns"
    and "admits_command windows uc (p\<lparr>p_command_deny := patterns\<rparr>) line = Inr executables"
  shows "admits_command windows uc p line = Inr executables"
proof -
  have "list_all (\<lambda>s. \<exists>e. admit_segment uc (p\<lparr>p_command_deny := patterns\<rparr>) s = Inr e)
          (command_segments line)"
    using assms(2) by (simp add: admits_command_Inr_iff admit_segments_Inr_iff)
  then have "list_all (\<lambda>s. \<exists>e. admit_segment uc p s = Inr e) (command_segments line)"
    using admit_segment_deny_mono [OF assms(1), of uc] unfolding list_all_iff by blast
  then show ?thesis
    using assms(2) by (simp add: admits_command_Inr_iff admit_segments_Inr_iff)
qed

theorem command_deny_only_removes_witness:
  "admits_command False empty_host example_profile (u ''ls'') = Inr [u ''ls'']"
proof (rule command_deny_only_removes [where patterns = "[u ''rm *'', u ''git checkout *'']"])
  show "admits_command False empty_host
      (example_profile\<lparr>p_command_deny := [u ''rm *'', u ''git checkout *'']\<rparr>) (u ''ls'') = Inr [u ''ls'']"
    by (simp add: admits_command_def admit_segment_def example_eval scan_eval)
qed (simp add: example_profile_def)

text \<open>
  A granted path is absolute whenever the profile's root is, so the file a tool opens is the
  one the decision was made on.
\<close>

theorem granted_path_absolute:
  assumes "unix_host h" and "np_abs (p_root p)" and "\<not> windows_rooted (display (p_root p))"
    and "check h p tool access path = Inr q"
  shows "np_abs q"
  using assms resolve_absolute_root [of h "p_root p" path "p_home p"]
  by (simp add: check_Inr_iff resolved_path_def)

theorem granted_path_absolute_witness:
  "\<exists>q. check (empty_host\<lparr>path_exists := \<lambda>t. t = [sep], canonicalize := canonicalize bare_host\<rparr>)
       example_profile (u ''read'') Read (u ''/proj'') = Inr q \<and> np_abs q"
proof -
  let ?h = "empty_host\<lparr>path_exists := \<lambda>t. t = [sep], canonicalize := canonicalize bare_host\<rparr>"
  have c: "check ?h example_profile (u ''read'') Read (u ''/proj'') = Inr (NPath True [u ''proj''])"
    unfolding check_Inr_iff
    by (simp add: example_eval path_eval bare_host_def empty_host_def file_name_def)
  have "unix_host ?h" by (simp add: unix_host_def bare_host_def)
  moreover have "np_abs (p_root example_profile)" "\<not> windows_rooted (display (p_root example_profile))"
    by (simp_all add: example_profile_def path_eval rust_std)
  ultimately have "np_abs (NPath True [u ''proj''])"
    using granted_path_absolute [OF _ _ _ c] by blast
  with c show ?thesis by blast
qed

end
