(* ===== verification/Profile_Build.thy ===== *)
theory Profile_Build
  imports Profile
begin

text \<open>
  How a profile is built, \<open>crates/pane/src/sandbox/profile.rs\<close>: the never-grantable set
  (\<open>never_rules\<close>), what is derived from the machine (tool-chain homes, the git directories of a
  work tree), the patterns of \<open>.claude/settings.json\<close> (\<open>compile_profile\<close>, \<open>register\<close>) and the
  construction steps the host may take afterwards (\<open>with_os_sandbox_bypass\<close>, \<open>narrowed_to\<close>,
  \<open>with_additional_root\<close>). The JSON parser is a parameter: the text of the document to its value,
  objects as the association list that iterating over them yields.
\<close>

section \<open>The never-grantable set\<close>

definition NEVER_GRANTABLE_HOME :: "rstr list" where
  "NEVER_GRANTABLE_HOME = [u ''.claude'', u ''.codex'', u ''.ssh'', u ''.aws'', u ''.config'']"

definition SCRATCH_DIR :: "rstr list" where
  "SCRATCH_DIR = [u ''.pane'', u ''scratch'']"

text \<open>A resolved directory joined with one plain name.\<close>

definition child :: "npath \<Rightarrow> rstr \<Rightarrow> npath" where
  "child dir name = push dir (Normal name)"

definition env_path :: "('a) host_scheme \<Rightarrow> rstr \<Rightarrow> rstr option" where
  "env_path h key =
     (case env_var h key of None \<Rightarrow> None | Some value \<Rightarrow> if value = [] then None else Some value)"

definition system_credential_paths :: "('a) host_scheme \<Rightarrow> rstr list" where
  "system_credential_paths h =
     [u ''/etc/sudoers'', u ''/etc/sudoers.d'', u ''/etc/shadow'', u ''/etc/gshadow'',
      u ''/etc/passwd'', u ''/etc/master.passwd'', u ''/etc/group'', u ''/etc/pam.d'',
      u ''/etc/ssh'', u ''/etc/security''] @
     map (\<lambda>value. join_path (join_path value (u ''System32'')) (u ''config''))
       (List.map_filter (env_path h) [u ''SystemRoot'', u ''windir''])"

definition glasshouse_state_dirs :: "('a) host_scheme \<Rightarrow> npath option \<Rightarrow> rstr list" where
  "glasshouse_state_dirs h home =
     (let under = (\<lambda>names. case home of None \<Rightarrow> []
                   | Some dir \<Rightarrow> [foldl join_path (display dir) names]);
          roots = List.map_filter (env_path h)
              [u ''XDG_DATA_HOME'', u ''XDG_STATE_HOME'', u ''XDG_CONFIG_HOME'', u ''XDG_CACHE_HOME'',
               u ''APPDATA'', u ''LOCALAPPDATA''] @
            under [u ''.local'', u ''share''] @ under [u ''.local'', u ''state''] @
            under [u ''.cache''] @ under [u ''Library'', u ''Application Support''] @
            under [u ''Library'', u ''Caches''] @ under [u ''AppData'', u ''Roaming''] @
            under [u ''AppData'', u ''Local'']
      in map (\<lambda>root. join_path root (u ''glasshouse'')) roots @
         under [u ''.glasshouse''] @
         List.map_filter (env_path h) [u ''GLASSHOUSE_STATE_DIR'', u ''GLASSHOUSE_DATA_DIR''])"

definition protected_rule :: "rstr list \<Rightarrow> npath option \<Rightarrow> bool \<Rightarrow> never_text \<Rightarrow> never_rule" where
  "protected_rule pre except write_only rule =
     \<lparr>nr_prefix = pre, nr_glob = subtree_glob pre, nr_except = except,
      nr_except_spelling = map_option spelling except, nr_write_only = write_only, nr_rule = rule\<rparr>"

text \<open>The closure \<open>push\<close>: the subtree is refused, the project root inside it is exempt.\<close>

definition never_rule_for ::
    "('a) host_scheme \<Rightarrow> npath \<Rightarrow> rstr \<Rightarrow> bool \<Rightarrow> never_text \<Rightarrow> never_rule" where
  "never_rule_for h root path write_only rule =
     (let pre = spelling (resolve h path (Some root) None)
      in protected_rule pre (if contains pre (spelling root) then Some root else None)
           write_only rule)"

definition never_rules :: "('a) host_scheme \<Rightarrow> npath \<Rightarrow> npath option \<Rightarrow> never_rule list" where
  "never_rules h root home =
     (let keyring = (\<lambda>path. never_rule_for h root path False Keyring);
          at_home = (\<lambda>rules. case home of None \<Rightarrow> [] | Some dir \<Rightarrow> rules (display dir))
      in [protected_rule (spelling (child root (u ''.claude''))) None True ClaudeNeverWritable,
          protected_rule (spelling (child root (u ''.pane''))) (Some (foldl child root SCRATCH_DIR))
            True PaneHostOwned] @
         at_home (\<lambda>dir.
           map (\<lambda>name. never_rule_for h root (join_path dir name) False (NeverInHome name))
             NEVER_GRANTABLE_HOME @
           [keyring (foldl join_path dir [u ''Library'', u ''Keychains'']),
            keyring (foldl join_path dir [u ''.local'', u ''share'', u ''keyrings'']),
            keyring (join_path dir (u ''.gnupg''))]) @
         [keyring (u ''/Library/Keychains'')] @
         map (\<lambda>state. never_rule_for h root state False GlasshouseState) (glasshouse_state_dirs h home) @
         map (\<lambda>path. never_rule_for h root path True Keyring) (system_credential_paths h) @
         at_home (\<lambda>dir. [never_rule_for h root dir False HomeOutsideProject]))"

section \<open>What is derived from the machine\<close>

definition TOOLCHAIN_HOMES :: "(rstr \<times> rstr) list" where
  "TOOLCHAIN_HOMES =
     [(u ''CARGO_HOME'', u ''.cargo''), (u ''RUSTUP_HOME'', u ''.rustup''),
      (u ''npm_config_cache'', u ''.npm''), (u ''NVM_DIR'', u ''.nvm''),
      (u ''PYENV_ROOT'', u ''.pyenv''), (u ''UV_CACHE_DIR'', u ''.cache/uv'')]"

definition TOOLCHAIN_READ_FILES :: "rstr list" where
  "TOOLCHAIN_READ_FILES = [u ''.gitconfig'']"

definition TOOLCHAIN_CREDENTIAL_FILES :: "rstr list" where
  "TOOLCHAIN_CREDENTIAL_FILES = [u ''credentials.toml'', u ''credentials'']"

fun toolchain_roots_from ::
    "('a) host_scheme \<Rightarrow> npath option \<Rightarrow> (rstr \<times> rstr) list \<Rightarrow> npath list \<Rightarrow> npath list" where
  "toolchain_roots_from h home [] roots = roots"
| "toolchain_roots_from h home ((variable, fallback) # homes) roots =
     (let candidate = (case env_path h variable of
             Some path \<Rightarrow> Some path
           | None \<Rightarrow> map_option (\<lambda>dir. join_path (display dir) fallback) home)
      in case Option.bind candidate (canonicalize h) of
           None \<Rightarrow> toolchain_roots_from h home homes roots
         | Some resolved \<Rightarrow>
             if \<not> is_dir h (display resolved) \<or> resolved \<in> set roots
             then toolchain_roots_from h home homes roots
             else toolchain_roots_from h home homes (roots @ [resolved]))"

definition toolchain_roots :: "('a) host_scheme \<Rightarrow> npath option \<Rightarrow> npath list" where
  "toolchain_roots h home = toolchain_roots_from h home TOOLCHAIN_HOMES []"

definition cargo_home :: "('a) host_scheme \<Rightarrow> npath option" where
  "cargo_home h =
     Option.bind
       (case env_path h (u ''CARGO_HOME'') of
          Some path \<Rightarrow> Some path
        | None \<Rightarrow> map_option (\<lambda>dir. join_path dir (u ''.cargo'')) (home_dir h))
       (canonicalize h)"

definition toolchain_credential_files :: "('a) host_scheme \<Rightarrow> (npath \<times> rstr list) list \<Rightarrow> npath list" where
  "toolchain_credential_files h toolchain =
     (case cargo_home h of
        None \<Rightarrow> []
      | Some cargo \<Rightarrow>
          if \<not> list_ex (\<lambda>(root, _). root = cargo) toolchain then []
          else map (child cargo) TOOLCHAIN_CREDENTIAL_FILES)"

definition toolchain_files :: "('a) host_scheme \<Rightarrow> npath option \<Rightarrow> npath list" where
  "toolchain_files h home =
     (case home of
        None \<Rightarrow> []
      | Some dir \<Rightarrow>
          filter (\<lambda>path. is_file h (display path))
            (List.map_filter (\<lambda>name. canonicalize h (join_path (display dir) name))
               TOOLCHAIN_READ_FILES))"

text \<open>The first of a text's \<open>lines()\<close>, which an empty text does not have.\<close>

definition first_line :: "rstr \<Rightarrow> rstr option" where
  "first_line t = (if t = [] then None else Some (takeWhile (\<lambda>c. c \<noteq> 10) t))"

definition under_dir :: "npath \<Rightarrow> rstr \<Rightarrow> rstr" where
  "under_dir dir named = (if is_absolute named then named else join_path (display dir) named)"

definition repository_dirs :: "('a) host_scheme \<Rightarrow> npath \<Rightarrow> npath list" where
  "repository_dirs h root =
     (case Option.bind (read_to_string h (join_path (display root) (u ''.git''))) first_line of
        None \<Rightarrow> []
      | Some line \<Rightarrow>
     (case strip_pre (u ''gitdir:'') (trim line) of
        None \<Rightarrow> []
      | Some named \<Rightarrow>
     (case canonicalize h (under_dir root (trim named)) of
        None \<Rightarrow> []
      | Some gitdir \<Rightarrow>
          gitdir #
          (case read_to_string h (join_path (display gitdir) (u ''commondir'')) of
             None \<Rightarrow> []
           | Some content \<Rightarrow>
          (case canonicalize h (under_dir gitdir (trim content)) of
             None \<Rightarrow> []
           | Some common \<Rightarrow> if common = gitdir then [] else [common])))))"

section \<open>The settings document\<close>

datatype json =
    JNull | JBool bool | JNumber rstr | JString rstr | JArray "json list" | JObject "(rstr \<times> json) list"

definition add_diagnostic :: "diagnostic \<Rightarrow> profile \<Rightarrow> profile" where
  "add_diagnostic d p = p\<lparr>p_diagnostics := p_diagnostics p @ [d]\<rparr>"

definition register_command :: "rstr \<Rightarrow> bool \<Rightarrow> profile \<Rightarrow> profile" where
  "register_command admitted denying p =
     (if denying then p\<lparr>p_command_deny := p_command_deny p @ [admitted]\<rparr>
      else
        (let q = (if p_command_allow p = [] then add_diagnostic ArgvIsAWordScan p else p)
         in q\<lparr>p_command_allow := p_command_allow q @ [admitted]\<rparr>))"

definition register_mcp :: "rstr \<Rightarrow> bool \<Rightarrow> profile \<Rightarrow> profile" where
  "register_mcp name denying p =
     (if denying then p\<lparr>p_mcp_deny := List.insert name (p_mcp_deny p)\<rparr>
      else p\<lparr>p_mcp_allow := List.insert name (p_mcp_allow p)\<rparr>)"

definition register_path ::
    "('a) host_scheme \<Rightarrow> rstr \<Rightarrow> rstr \<Rightarrow> rstr option \<Rightarrow> bool \<Rightarrow> bool \<Rightarrow> bool \<Rightarrow> profile \<Rightarrow> profile" where
  "register_path h pattern name argument read write denying p =
     (case (case argument of None \<Rightarrow> None | Some a \<Rightarrow> if trim a = [] then None else Some (trim a)) of
        None \<Rightarrow> add_diagnostic (NamesNoPath pattern name) p
      | Some written \<Rightarrow>
     (let glob = resolve_pattern h (p_root p) (p_home p) written
      in if glob = [] then add_diagnostic (ResolvesToNoPath pattern) p
         else if \<not> is_rooted (fold_backslashes written) \<and> \<not> prefix (p_root_spelling p) glob
         then add_diagnostic (LeavesTheRoot pattern) p
         else
           (let rule = \<lparr>pr_written = pattern, pr_glob = glob, pr_read = read, pr_write = write\<rparr>
            in if denying then p\<lparr>p_deny := p_deny p @ [rule]\<rparr>
               else p\<lparr>p_allow := p_allow p @ [rule]\<rparr>)))"

definition register :: "('a) host_scheme \<Rightarrow> rstr \<Rightarrow> bool \<Rightarrow> profile \<Rightarrow> profile" where
  "register h pattern denying p =
     (case split_pattern pattern of (name, argument) \<Rightarrow>
        if name = u ''Read'' then register_path h pattern name argument True False denying p
        else if name = u ''Write'' then register_path h pattern name argument False True denying p
        else if name = u ''Edit'' then register_path h pattern name argument True True denying p
        else if name = u ''Bash''
        then register_command (case argument of None \<Rightarrow> u ''*'' | Some a \<Rightarrow> a) denying p
        else if name = u ''WebFetch'' \<or> name = u ''WebSearch'' then p
        else if starts_with name (u ''mcp__'') then register_mcp name denying p
        else add_diagnostic (UnknownPatternKind name pattern) p)"

definition register_entry :: "('a) host_scheme \<Rightarrow> rstr \<Rightarrow> json \<Rightarrow> profile \<Rightarrow> profile" where
  "register_entry h key entry p =
     (case entry of
        JString pattern \<Rightarrow> register h pattern (key = u ''deny'') p
      | _ \<Rightarrow> add_diagnostic (NonStringEntry key) p)"

definition register_key :: "('a) host_scheme \<Rightarrow> rstr \<times> json \<Rightarrow> profile \<Rightarrow> profile" where
  "register_key h member p =
     (case member of (key, value) \<Rightarrow>
        if key = u ''allow'' \<or> key = u ''deny''
        then (case value of
                JArray entries \<Rightarrow> foldl (\<lambda>p entry. register_entry h key entry p) p entries
              | _ \<Rightarrow> add_diagnostic (NotAnArray key) p)
        else if key = u ''ask'' then add_diagnostic AskGrantsNothing p
        else add_diagnostic (NotAPatternList key) p)"

definition json_get :: "rstr \<Rightarrow> json \<Rightarrow> json option" where
  "json_get key v = (case v of JObject members \<Rightarrow> map_of members key | _ \<Rightarrow> None)"

definition register_settings ::
    "('a) host_scheme \<Rightarrow> (rstr \<Rightarrow> json option) \<Rightarrow> rstr option \<Rightarrow> profile \<Rightarrow> profile" where
  "register_settings h parse settings p =
     (case settings of
        None \<Rightarrow> p
      | Some content \<Rightarrow>
     (case parse content of
        None \<Rightarrow> add_diagnostic SettingsNotJson p
      | Some document \<Rightarrow>
     (case json_get (u ''permissions'') document of
        None \<Rightarrow> p
      | Some (JObject permissions) \<Rightarrow> foldl (\<lambda>p member. register_key h member p) p permissions
      | Some _ \<Rightarrow> add_diagnostic PermissionsNotObject p)))"

section \<open>Compilation\<close>

definition invalid_root_sentinel :: rstr where
  "invalid_root_sentinel = u ''/.pane-invalid-relative-root''"

definition bare_profile :: "('a) host_scheme \<Rightarrow> npath \<Rightarrow> npath option \<Rightarrow> profile" where
  "bare_profile h root home =
     \<lparr>p_root = root, p_bypass_os_sandbox = False, p_additional_roots = [], p_invalid_root = None,
      p_root_spelling = spelling root, p_home = home, p_allow = [], p_deny = [],
      p_never = never_rules h root home, p_toolchain = [], p_toolchain_files = [],
      p_repository = [], p_command_allow = [], p_command_deny = [], p_mcp_allow = [],
      p_mcp_deny = [], p_diagnostics = [], p_narrowing = None\<rparr>"

definition with_spelling :: "npath list \<Rightarrow> (npath \<times> rstr list) list" where
  "with_spelling = map (\<lambda>path. (path, spelling path))"

text \<open>What is derived before the document is read.\<close>

definition derive_grants :: "('a) host_scheme \<Rightarrow> profile \<Rightarrow> profile" where
  "derive_grants h p =
     (let toolchain = with_spelling (toolchain_roots h (p_home p))
      in p\<lparr>p_toolchain := toolchain,
           p_never := p_never p @
             map (\<lambda>file. protected_rule (spelling file) None False (RegistryToken (display file)))
               (toolchain_credential_files h toolchain),
           p_toolchain_files := with_spelling (toolchain_files h (p_home p)),
           p_repository := with_spelling (repository_dirs h (p_root p))\<rparr>)"

definition compile_profile ::
    "('a) host_scheme \<Rightarrow> (rstr \<Rightarrow> json option) \<Rightarrow> rstr \<Rightarrow> rstr option \<Rightarrow> profile" where
  "compile_profile h parse supplied settings =
     (let anchor = anchor_project_root supplied (current_dir h);
          anchored = (case anchor of Inr root \<Rightarrow> root | Inl _ \<Rightarrow> invalid_root_sentinel);
          root = (case canonicalize h anchored of
                    Some root \<Rightarrow> root | None \<Rightarrow> resolve h anchored None None);
          home = map_option (\<lambda>dir. resolve h dir None None) (home_dir h);
          p = bare_profile h root home
      in case anchor of
           Inl error \<Rightarrow>
             add_diagnostic (RootNotEstablished error) (p\<lparr>p_invalid_root := Some error\<rparr>)
         | Inr _ \<Rightarrow> register_settings h parse settings (derive_grants h p))"

section \<open>The host's construction steps\<close>

definition with_os_sandbox_bypass :: "profile \<Rightarrow> profile" where
  "with_os_sandbox_bypass p = p\<lparr>p_bypass_os_sandbox := True\<rparr>"

definition narrowed_to :: "('a) host_scheme \<Rightarrow> request_mode \<Rightarrow> mode_overlay \<Rightarrow> profile \<Rightarrow> profile" where
  "narrowed_to h mode overlay p =
     (if p_narrowing p = None then
        (case compile_narrowing h mode overlay (p_root p) (p_home p) (p_root_spelling p) of
           (mode_rule, dropped) \<Rightarrow>
             p\<lparr>p_narrowing := mode_rule,
               p_diagnostics := p_diagnostics p @ map ModeGlobDropped dropped\<rparr>)
      else p)"

datatype add_root_error =
    AddDirOnWindows
  | AddToInvalidRoot
  | AddDirUnreadable rstr
  | AddDirNotADirectory
  | AddDirWithDeny
  | AddDirRefused never_text

definition blocks_root :: "('u) unicode_scheme \<Rightarrow> profile \<Rightarrow> rstr list \<Rightarrow> never_rule \<Rightarrow> bool" where
  "blocks_root uc p candidate never \<longleftrightarrow>
     \<not> is_home_rule p never \<and>
     (contains_refusing uc (nr_prefix never) candidate \<or> contains_refusing uc candidate (nr_prefix never))"

definition with_additional_root ::
    "bool \<Rightarrow> ('a) host_scheme \<Rightarrow> profile \<Rightarrow> rstr \<Rightarrow> add_root_error + profile" where
  "with_additional_root windows h p path =
     (if windows then Inl AddDirOnWindows
      else if p_invalid_root p \<noteq> None then Inl AddToInvalidRoot
      else
        (let supplied = (if is_absolute path then path else join_path (display (p_root p)) path)
         in case canonicalize h supplied of
              None \<Rightarrow> Inl (AddDirUnreadable supplied)
            | Some root \<Rightarrow>
                if \<not> is_dir h (display root) then Inl AddDirNotADirectory
                else if root = p_root p \<or> root \<in> set (p_additional_roots p) then Inr p
                else if p_deny p \<noteq> [] then Inl AddDirWithDeny
                else (case List.find (blocks_root h p (spelling root)) (p_never p) of
                   Some never \<Rightarrow> Inl (AddDirRefused (nr_rule never))
                 | None \<Rightarrow>
                     Inr (p\<lparr>p_never := p_never p @
                              map (\<lambda>name. protected_rule (spelling (child root name)) None True
                                     (AdditionalProtected name))
                                [u ''.claude'', u ''.pane''],
                            p_additional_roots := p_additional_roots p @ [root]\<rparr>))))"

section \<open>Lemmas\<close>

text \<open>The part of a profile that no pattern of the document changes.\<close>

definition frame :: "profile \<Rightarrow> profile" where
  "frame p = p\<lparr>p_allow := [], p_deny := [], p_command_allow := [], p_command_deny := [],
     p_mcp_allow := [], p_mcp_deny := [], p_diagnostics := []\<rparr>"

lemma frame_register [simp]: "frame (register h pattern denying p) = frame p"
  by (simp add: frame_def register_def register_path_def register_command_def register_mcp_def
      add_diagnostic_def Let_def split: prod.split option.split)

lemma frame_foldl: "(\<And>p x. frame (f p x) = frame p) \<Longrightarrow> frame (foldl f p xs) = frame p"
  by (induction xs arbitrary: p) simp_all

lemma frame_add_diagnostic [simp]: "frame (add_diagnostic d p) = frame p"
  by (simp add: frame_def add_diagnostic_def)

lemma frame_register_entry [simp]: "frame (register_entry h key entry p) = frame p"
  by (simp add: register_entry_def split: json.split)

lemma frame_register_key [simp]: "frame (register_key h member p) = frame p"
  by (simp add: register_key_def frame_foldl split: prod.split json.split)

lemma frame_register_settings [simp]: "frame (register_settings h parse settings p) = frame p"
  by (simp add: register_settings_def frame_foldl split: option.split json.split)

lemma frame_eqD:
  assumes "frame p = frame q"
  shows "p_root p = p_root q" "p_home p = p_home q" "p_root_spelling p = p_root_spelling q"
    "p_never p = p_never q" "p_invalid_root p = p_invalid_root q"
    "p_additional_roots p = p_additional_roots q" "p_toolchain p = p_toolchain q"
    "p_toolchain_files p = p_toolchain_files q" "p_repository p = p_repository q"
    "p_bypass_os_sandbox p = p_bypass_os_sandbox q" "p_narrowing p = p_narrowing q"
  using assms by (cases p; cases q; simp add: frame_def)+

lemma frame_places:
  assumes "frame p = frame q"
  shows "in_additional_root p = in_additional_root q" "in_repository p = in_repository q"
    "in_toolchain p = in_toolchain q" "is_home_rule p = is_home_rule q"
  using frame_eqD [OF assms]
  by (simp_all add: fun_eq_iff in_additional_root_def in_repository_def in_toolchain_def
      is_home_rule_def)

lemma frame_never_refuses:
  assumes "frame p = frame q"
  shows "never_refuses uc p = never_refuses uc q"
  by (simp add: fun_eq_iff never_refuses_def frame_places [OF assms])

text \<open>What \<open>compile\<close> fixes whatever the document says.\<close>

lemma compile_frame:
  "frame (compile_profile h parse supplied settings) = frame (compile_profile h parse supplied None)"
proof -
  have "register_settings h parse None p = p" for p by (simp add: register_settings_def)
  then show ?thesis
    by (cases "anchor_project_root supplied (current_dir h)")
      (simp_all add: compile_profile_def Let_def)
qed

lemma compile_fields:
  defines "c \<equiv> \<lambda>h parse supplied settings. compile_profile h parse supplied settings"
  shows "set (never_rules h (p_root (c h parse supplied settings))
            (p_home (c h parse supplied settings))) \<subseteq> set (p_never (c h parse supplied settings))"
    "p_root_spelling (c h parse supplied settings) = spelling (p_root (c h parse supplied settings))"
    "p_additional_roots (c h parse supplied settings) = []"
    "p_narrowing (c h parse supplied settings) = None"
  unfolding c_def frame_eqD [OF compile_frame [of h parse supplied settings]]
  by (cases "anchor_project_root supplied (current_dir h)"; simp add: compile_profile_def Let_def
      bare_profile_def add_diagnostic_def derive_grants_def register_settings_def)+

text \<open>
  Every profile a session can hold: compiled from a document, then taken through the host's
  construction steps in any order.
\<close>

inductive built ::
    "bool \<Rightarrow> ('a) host_scheme \<Rightarrow> (rstr \<Rightarrow> json option) \<Rightarrow> rstr \<Rightarrow> rstr option \<Rightarrow> profile \<Rightarrow> bool"
  for windows h parse supplied settings where
  compiled: "built windows h parse supplied settings (compile_profile h parse supplied settings)"
| bypassed: "built windows h parse supplied settings p \<Longrightarrow>
    built windows h parse supplied settings (with_os_sandbox_bypass p)"
| narrowed: "built windows h parse supplied settings p \<Longrightarrow>
    built windows h parse supplied settings (narrowed_to h mode overlay p)"
| extended: "built windows h parse supplied settings p \<Longrightarrow>
    with_additional_root windows h p path = Inr q \<Longrightarrow> built windows h parse supplied settings q"

lemma narrowed_to_fields [simp]:
  "p_root (narrowed_to h mode overlay p) = p_root p"
  "p_home (narrowed_to h mode overlay p) = p_home p"
  "p_root_spelling (narrowed_to h mode overlay p) = p_root_spelling p"
  "p_never (narrowed_to h mode overlay p) = p_never p"
  "p_deny (narrowed_to h mode overlay p) = p_deny p"
  "p_additional_roots (narrowed_to h mode overlay p) = p_additional_roots p"
  "p_invalid_root (narrowed_to h mode overlay p) = p_invalid_root p"
  by (simp_all add: narrowed_to_def split: prod.split)

lemma with_os_sandbox_bypass_fields [simp]:
  "p_root (with_os_sandbox_bypass p) = p_root p"
  "p_home (with_os_sandbox_bypass p) = p_home p"
  "p_root_spelling (with_os_sandbox_bypass p) = p_root_spelling p"
  "p_never (with_os_sandbox_bypass p) = p_never p"
  "p_deny (with_os_sandbox_bypass p) = p_deny p"
  "p_additional_roots (with_os_sandbox_bypass p) = p_additional_roots p"
  "p_invalid_root (with_os_sandbox_bypass p) = p_invalid_root p"
  by (simp_all add: with_os_sandbox_bypass_def)

text \<open>What a successful \<open>--add-dir\<close> did.\<close>

lemma with_additional_root_Inr:
  assumes "with_additional_root windows h p path = Inr q" and "q \<noteq> p"
  obtains root where "q = p\<lparr>p_never := p_never p @ map (\<lambda>name. protected_rule (spelling (child root name))
        None True (AdditionalProtected name)) [u ''.claude'', u ''.pane''],
      p_additional_roots := p_additional_roots p @ [root]\<rparr>"
    and "p_deny p = []" and "p_invalid_root p = None" and "\<not> windows" and "is_dir h (display root)"
    and "\<not> list_ex (blocks_root h p (spelling root)) (p_never p)"
  using assms
  by (auto simp: with_additional_root_def Let_def find_None_list_ex split: if_splits option.splits)

lemma built_fields:
  "built windows h parse supplied settings p \<Longrightarrow>
     set (never_rules h (p_root p) (p_home p)) \<subseteq> set (p_never p) \<and>
     p_root_spelling p = spelling (p_root p)"
proof (induction rule: built.induct)
  case (extended p path q)
  then show ?case
    by (cases "q = p") (auto elim!: with_additional_root_Inr)
qed (simp_all add: compile_fields)

lemma is_home_rule_cong: "p_home p = p_home q \<Longrightarrow> is_home_rule p = is_home_rule q"
  by (simp add: fun_eq_iff is_home_rule_def)

text \<open>A granted path inside a rule's subtree is there by one of the rule's own exemptions.\<close>

lemma granted_inside_rule:
  assumes "check h p tool access path = Inr q" and "never \<in> set (p_never p)"
    and "contains (nr_prefix never) (spelling q)" and "nr_write_only never \<longrightarrow> access = Write"
    and "\<not> is_home_rule p never"
  shows "\<exists>except. nr_except_spelling never = Some except \<and> contains except (spelling q)"
proof -
  have "\<not> never_refuses h p access (spelling q) (refusable_forms (spelling q)) never"
    using assms(1,2) by (auto simp: check_Inr_iff refused_path_def list_ex_iff)
  then show ?thesis
    using assms(3-5) contains_imp_refusing [of "nr_prefix never" "spelling q" h]
    by (auto simp: never_refuses_def refusable_forms_def split: option.splits)
qed

lemma never_rules_named:
  assumes "name \<in> set NEVER_GRANTABLE_HOME"
  shows "never_rule_for h root (join_path (display home) name) False (NeverInHome name)
           \<in> set (never_rules h root (Some home))"
  using assms by (simp add: never_rules_def Let_def)

lemma never_rules_own:
  "protected_rule (spelling (child root (u ''.claude''))) None True ClaudeNeverWritable
     \<in> set (never_rules h root home)"
  "protected_rule (spelling (child root (u ''.pane''))) (Some (foldl child root SCRATCH_DIR)) True
     PaneHostOwned \<in> set (never_rules h root home)"
  by (simp_all add: never_rules_def Let_def)

lemma built_additional_roots:
  "built windows h parse supplied settings p \<Longrightarrow> dir \<in> set (p_additional_roots p) \<Longrightarrow>
     p_deny p = [] \<and> p_invalid_root p = None \<and> \<not> windows \<and> is_dir h (display dir) \<and>
     \<not> list_ex (blocks_root h p (spelling dir)) (never_rules h (p_root p) (p_home p))"
proof (induction arbitrary: dir rule: built.induct)
  case (extended p path q)
  note never = built_fields [OF extended.hyps(1)]
  show ?case
  proof (cases "q = p")
    case False
    with extended.hyps(2) obtain root where root:
      "p_root q = p_root p" "p_home q = p_home p" "p_deny q = []" "p_invalid_root q = None"
      "p_additional_roots q = p_additional_roots p @ [root]" "\<not> windows" "is_dir h (display root)"
      "\<not> list_ex (blocks_root h p (spelling root)) (p_never p)"
      by (rule with_additional_root_Inr) auto
    have "blocks_root h q = blocks_root h p"
      by (simp add: fun_eq_iff blocks_root_def is_home_rule_def root)
    moreover have "\<not> list_ex (blocks_root h p (spelling root)) (never_rules h (p_root p) (p_home p))"
      using root never by (auto simp: list_ex_iff)
    ultimately show ?thesis
      using extended.IH [of dir] extended.prems root by auto
  qed (use extended in simp)
qed (simp_all add: compile_fields, auto simp: list_ex_iff blocks_root_def is_home_rule_def)

text \<open>A further \<open>deny\<close> entry takes away and never adds.\<close>

lemma check_frame_cong:
  assumes "frame p = frame q" and "p_allow p = p_allow q" and "p_deny p = p_deny q"
  shows "check h p = check h q"
proof -
  have "allow_covers h p = allow_covers h q"
    by (simp add: fun_eq_iff allow_covers_def assms(2))
  then show ?thesis
    unfolding check_def fun_eq_iff
    by (simp only: assms(3) frame_eqD [OF assms(1)] frame_places [OF assms(1)]
        frame_never_refuses [OF assms(1)] simp_thms)
qed

lemma admits_frame_cong:
  assumes "frame p = frame q" and "p_command_allow p = p_command_allow q"
    and "p_command_deny p = p_command_deny q"
  shows "admits_command w uc p = admits_command w uc q"
proof -
  have seg: "admit_segment uc p = admit_segment uc q"
    by (simp only: fun_eq_iff admit_segment_def assms simp_thms)
  have "admit_segments uc p ss acc = admit_segments uc q ss acc" for ss acc
    by (induction ss arbitrary: acc) (simp_all add: seg cong: sum.case_cong)
  then show ?thesis
    unfolding admits_command_def fun_eq_iff
    by (simp only: frame_eqD [OF assms(1)] simp_thms)
qed

text \<open>What one more refusing entry of the document does to the lists it can touch.\<close>

lemma register_deny_fields:
  "p_allow (register h pattern True p) = p_allow p"
  "p_command_allow (register h pattern True p) = p_command_allow p"
  "p_mcp_allow (register h pattern True p) = p_mcp_allow p"
  "set (p_deny p) \<subseteq> set (p_deny (register h pattern True p))"
  "set (p_command_deny p) \<subseteq> set (p_command_deny (register h pattern True p))"
  "set (p_mcp_deny p) \<subseteq> set (p_mcp_deny (register h pattern True p))"
  by (auto simp: register_def register_path_def register_command_def register_mcp_def
      add_diagnostic_def Let_def split: prod.split option.split)

lemma check_deny_mono:
  assumes "frame p' = frame p" and "p_allow p' = p_allow p" and "set (p_deny p) \<subseteq> set (p_deny p')"
    and "check h p' tool access path = Inr q"
  shows "check h p tool access path = Inr q"
proof -
  have "grant_source h p' access c = grant_source h p access c" for c
    by (simp add: grant_source_def frame_eqD [OF assms(1)] frame_places [OF assms(1)]
        allow_covers_def assms(2))
  moreover have "refused_path h p access c \<Longrightarrow> refused_path h p' access c" for c
    using assms(3) by (auto simp: refused_path_def frame_eqD [OF assms(1)]
        frame_never_refuses [OF assms(1)] list_ex_iff)
  moreover have "resolved_path h p' path = resolved_path h p path"
    by (simp add: resolved_path_def frame_eqD [OF assms(1)])
  ultimately show ?thesis
    using assms(4) by (auto simp: check_Inr_iff)
qed

lemma admits_deny_mono:
  assumes "frame p' = frame p" and "p_command_allow p' = p_command_allow p"
    and "set (p_command_deny p) \<subseteq> set (p_command_deny p')"
    and "admits_command w uc p' line = Inr exes"
  shows "admits_command w uc p line = Inr exes"
proof -
  have "\<exists>e. admit_segment uc p s = Inr e" if "\<exists>e. admit_segment uc p' s = Inr e" for s
    using that assms(2,3) unfolding admit_segment_Inr_iff by (auto simp: list_ex_iff)
  then have "list_all (\<lambda>s. \<exists>e. admit_segment uc p' s = Inr e) ss \<Longrightarrow>
      list_all (\<lambda>s. \<exists>e. admit_segment uc p s = Inr e) ss" for ss
    unfolding list_all_iff by blast
  then show ?thesis
    using assms(4) frame_eqD [OF assms(1)]
    by (auto simp: admits_command_Inr_iff admit_segments_Inr_iff)
qed

lemma admits_mcp_deny_mono:
  assumes "frame p' = frame p" and "p_mcp_allow p' = p_mcp_allow p"
    and "set (p_mcp_deny p) \<subseteq> set (p_mcp_deny p')" and "admits_mcp_tool uc p' name"
  shows "admits_mcp_tool uc p name"
  using assms frame_eqD [OF assms(1)] by (auto simp: admits_mcp_tool_def list_ex_iff split: if_splits)

text \<open>The refusals that no pattern is consulted for.\<close>

definition fixed_refusal :: "denial \<Rightarrow> bool" where
  "fixed_refusal d \<longleftrightarrow> (case d of InvalidRoot _ \<Rightarrow> True | DeviceNamespace \<Rightarrow> True
     | NeverGrantable _ \<Rightarrow> True | _ \<Rightarrow> False)"

lemma check_fixed:
  "check h p tool access path = Inl e \<and> fixed_refusal (denied_rule e) \<longleftrightarrow>
     denied_tool e = tool \<and> denied_path e = shown (resolved_path h p path) \<and>
     (case p_invalid_root p of
        Some r \<Rightarrow> denied_rule e = InvalidRoot r
      | None \<Rightarrow> if device_refusal (resolved_path h p path) then denied_rule e = DeviceNamespace
          else (case List.find (never_refuses h p access (spelling (resolved_path h p path))
                       (refusable_forms (spelling (resolved_path h p path)))) (p_never p) of
                  Some n \<Rightarrow> denied_rule e = NeverGrantable (nr_rule n)
                | None \<Rightarrow> False))"
proof -
  let ?q = "resolved_path h p path"
  have hard: "hard_link_refusal h q = Some d \<Longrightarrow> \<not> fixed_refusal d" for q d
    by (auto simp: hard_link_refusal_def fixed_refusal_def split: link_meta.splits if_splits)
  consider (root) r where "p_invalid_root p = Some r"
    | (dev) "p_invalid_root p = None" "device_refusal ?q"
    | (never) n where "p_invalid_root p = None" "\<not> device_refusal ?q"
        "List.find (never_refuses h p access (spelling ?q) (refusable_forms (spelling ?q)))
           (p_never p) = Some n"
    | (rest) "p_invalid_root p = None" "\<not> device_refusal ?q"
        "List.find (never_refuses h p access (spelling ?q) (refusable_forms (spelling ?q)))
           (p_never p) = None"
    by (cases "p_invalid_root p"; cases "device_refusal ?q";
        cases "List.find (never_refuses h p access (spelling ?q) (refusable_forms (spelling ?q)))
           (p_never p)") auto
  then show ?thesis
  proof cases
    case rest
    then show ?thesis
      by (auto simp: check_def Let_def resolved_path_def fixed_refusal_def dest!: hard
          split: option.splits if_splits)
  qed (cases e; auto simp: check_def Let_def resolved_path_def fixed_refusal_def)+
qed

lemma fixed_refusal_cong:
  assumes "frame p = frame q"
  shows "check h p tool access path = Inl e \<and> fixed_refusal (denied_rule e) \<longleftrightarrow>
         check h q tool access path = Inl e \<and> fixed_refusal (denied_rule e)"
  unfolding check_fixed resolved_path_def frame_eqD [OF assms] frame_never_refuses [OF assms] ..

definition home_host :: host where
  "home_host = empty_host\<lparr>env_var := (\<lambda>k. if k = u ''HOME'' then Some (u ''/home/a'') else None)\<rparr>"

lemma link_free_home_host [simp]: "link_free home_host"
  by (simp add: link_free_def home_host_def empty_host_def bare_host_def)

lemma resolve_walk_home_host [path_eval]: "resolve_walk home_host cs out links = lexical_walk cs out"
  by (induction cs arbitrary: out)
    (simp_all add: prefix_loop_link_free del: prefix_loop.simps split: comp.split)

lemma home_host_simps [simp]:
  "home_dir home_host = Some (u ''/home/a'')" "canonicalize home_host t = None"
  "current_dir home_host = None"
  by (simp_all add: home_host_def home_dir_def empty_host_def bare_host_def)

lemma home_example:
  "p_root (compile_profile home_host (\<lambda>_. None) (u ''/proj'') None) = NPath True [u ''proj'']"
  "p_home (compile_profile home_host (\<lambda>_. None) (u ''/proj'') None) = Some (NPath True [u ''home'', u ''a''])"
  by (simp_all add: compile_profile_def Let_def anchor_project_root_def windows_drive_relative_def windows_absolute_def register_settings_def derive_grants_def bare_profile_def
    path_eval rust_std)

lemmas home_example_eval = home_example [simplified]

text \<open>A project that is the home directory itself.\<close>

lemma at_home:
  "p_home (compile_profile home_host (\<lambda>_. None) (u ''/home/a'') None) = Some (NPath True [u ''home'', u ''a''])"
  "p_root (compile_profile home_host (\<lambda>_. None) (u ''/home/a'') None) = NPath True [u ''home'', u ''a'']"
  by (simp_all add: compile_profile_def Let_def anchor_project_root_def windows_drive_relative_def
      windows_absolute_def register_settings_def derive_grants_def
      bare_profile_def path_eval rust_std)

lemmas at_home_eval = at_home [simplified]

lemma prefix_loop_empty_disk:
  assumes "\<And>t. \<not> path_exists h t" and "\<And>t. read_link h t = None"
    and "canonicalize h [] = None" and "canonicalize h [sep] = None"
  shows "prefix_loop h pre tail links = NPath (np_abs pre) (np_names pre @ tail)"
proof (induction "length (np_names pre)" arbitrary: pre tail rule: less_induct)
  case less
  show ?case
  proof (cases "np_names pre = []")
    case True
    then show ?thesis
      using assms by (cases pre) (simp add: file_name_def display_def)
  next
    case False
    have "length (np_names (pop pre)) < length (np_names pre)"
      using False by (cases pre) (simp add: pop_def)
    then have IH: "prefix_loop h (pop pre) (last (np_names pre) # tail) links =
        NPath (np_abs pre) (np_names pre @ tail)"
      using less [of "pop pre"] append_butlast_last_id [of "np_names pre"] False
      by (simp add: pop_def del: prefix_loop.simps)
    have "prefix_loop h pre tail links = prefix_loop h (pop pre) (last (np_names pre) # tail) links"
      using assms(1,2) False by (subst prefix_loop.simps) (simp add: file_name_def del: prefix_loop.simps)
    then show ?thesis by (simp only: IH)
  qed
qed

definition lib_host :: host where
  "lib_host = empty_host\<lparr>canonicalize := (\<lambda>t. if t = u ''/lib'' then Some (NPath True [u ''lib'']) else None),
     is_dir := (\<lambda>t. t = u ''/lib'')\<rparr>"

lemma lib_host_simps [simp]:
  "\<not> path_exists lib_host t" "read_link lib_host t = None" "env_var lib_host t = None"
  "canonicalize lib_host t = (if t = u ''/lib'' then Some (NPath True [u ''lib'']) else None)"
  "is_dir lib_host t = (t = u ''/lib'')" "current_dir lib_host = None"
  "lower_char lib_host c = [ascii_lower c]" "lower_str lib_host = map ascii_lower"
  by (simp_all add: lib_host_def empty_host_def bare_host_def)

lemma resolve_walk_lib_host [path_eval]: "resolve_walk lib_host cs out links = lexical_walk cs out"
proof -
  have "prefix_loop lib_host pre tail links = NPath (np_abs pre) (np_names pre @ tail)" for pre tail
    by (rule prefix_loop_empty_disk) (simp_all add: sep_def)
  then show ?thesis
    by (induction cs arbitrary: out)
      (simp_all del: prefix_loop.simps lib_host_simps split: comp.split)
qed

lemma lib_fields:
  fixes parse :: "rstr \<Rightarrow> json option"
  defines "p \<equiv> compile_profile lib_host (\<lambda>_. None) (u ''/proj'') None"
  shows "p_root p = NPath True [u ''proj'']" "p_home p = None" "p_deny p = []" "p_invalid_root p = None"
    "p_additional_roots p = []" "p_never p = never_rules lib_host (NPath True [u ''proj'']) None"
  by (simp_all add: p_def compile_profile_def Let_def anchor_project_root_def
      windows_drive_relative_def windows_absolute_def register_settings_def derive_grants_def
      bare_profile_def path_eval rust_std home_dir_def toolchain_credential_files_def cargo_home_def
      env_path_def)

lemma blocks_apart:
  assumes "nr_prefix never = c # cs" and "c \<in> {u ''proj'', u ''Library'', u ''etc''}"
  shows "\<not> blocks_root lib_host p [u ''lib''] never"
proof -
  have "\<not> same_component lib_host (refusing_form c) (refusing_form (u ''lib'')) \<and>
        \<not> same_component lib_host (refusing_form (u ''lib'')) (refusing_form c)"
    using assms(2) by (auto simp: same_component_def refusing_form_def rust_std)
  then show ?thesis
    using assms(1) by (simp add: blocks_root_def contains_refusing_def del: u.simps)
qed

lemma lib_system: "system_credential_paths lib_host =
     [u ''/etc/sudoers'', u ''/etc/sudoers.d'', u ''/etc/shadow'', u ''/etc/gshadow'',
      u ''/etc/passwd'', u ''/etc/master.passwd'', u ''/etc/group'', u ''/etc/pam.d'',
      u ''/etc/ssh'', u ''/etc/security'']"
  by (simp add: system_credential_paths_def env_path_def List.map_filter_def del: u.simps)

lemma lib_etc:
  "\<exists>cs. spelling (resolve lib_host (u ''/etc/sudoers'') (Some r) None) = u ''etc'' # cs"
  "\<exists>cs. spelling (resolve lib_host (u ''/etc/sudoers.d'') (Some r) None) = u ''etc'' # cs"
  "\<exists>cs. spelling (resolve lib_host (u ''/etc/shadow'') (Some r) None) = u ''etc'' # cs"
  "\<exists>cs. spelling (resolve lib_host (u ''/etc/gshadow'') (Some r) None) = u ''etc'' # cs"
  "\<exists>cs. spelling (resolve lib_host (u ''/etc/passwd'') (Some r) None) = u ''etc'' # cs"
  "\<exists>cs. spelling (resolve lib_host (u ''/etc/master.passwd'') (Some r) None) = u ''etc'' # cs"
  "\<exists>cs. spelling (resolve lib_host (u ''/etc/group'') (Some r) None) = u ''etc'' # cs"
  "\<exists>cs. spelling (resolve lib_host (u ''/etc/pam.d'') (Some r) None) = u ''etc'' # cs"
  "\<exists>cs. spelling (resolve lib_host (u ''/etc/ssh'') (Some r) None) = u ''etc'' # cs"
  "\<exists>cs. spelling (resolve lib_host (u ''/etc/security'') (Some r) None) = u ''etc'' # cs"
  by (simp_all add: path_eval rust_std)

lemma lib_other:
  "\<exists>cs. spelling (resolve lib_host (u ''/Library/Keychains'') (Some r) None) = u ''Library'' # cs"
  "\<exists>cs. spelling (child (NPath True [u ''proj'']) (u ''.claude'')) = u ''proj'' # cs"
  "\<exists>cs. spelling (child (NPath True [u ''proj'']) (u ''.pane'')) = u ''proj'' # cs"
  "glasshouse_state_dirs lib_host None = []"
  by (simp_all add: child_def path_eval rust_std glasshouse_state_dirs_def env_path_def
      List.map_filter_def)

lemma lib_prefixes:
  "nr_prefix (never_rule_for h root path write_only rule) =
     spelling (resolve h path (Some root) None)"
  "nr_prefix (protected_rule pre except write_only rule) = pre"
  by (simp_all add: never_rule_for_def protected_rule_def Let_def)

lemma lib_never:
  "\<not> list_ex (blocks_root lib_host p [u ''lib'']) (never_rules lib_host (NPath True [u ''proj'']) None)"
proof -
  have apart: "\<not> blocks_root lib_host p [u ''lib''] never"
    if "\<exists>cs. nr_prefix never = c # cs" "c \<in> {u ''proj'', u ''Library'', u ''etc''}" for never c
    using that blocks_apart by blast
  have "\<not> blocks_root lib_host p [u ''lib''] (never_rule_for lib_host root path True Keyring)"
    if "path \<in> set (system_credential_paths lib_host)" for path root
    using that apart [of "never_rule_for lib_host root path True Keyring" "u ''etc''"] lib_etc [of root]
    by (auto simp only: lib_system lib_prefixes list.set insert_iff empty_iff)
  moreover have "\<not> blocks_root lib_host p [u ''lib'']
      (never_rule_for lib_host root (u ''/Library/Keychains'') False Keyring)" for root
    by (rule apart [of _ "u ''Library''"]) (simp_all only: lib_prefixes lib_other insert_iff simp_thms)
  moreover have "\<not> blocks_root lib_host p [u ''lib''] (protected_rule
      (spelling (child (NPath True [u ''proj'']) name)) except True rule)"
    if "name = u ''.claude'' \<or> name = u ''.pane''" for name except rule
    by (rule apart [of _ "u ''proj''"]) (use that in \<open>auto simp only: lib_prefixes lib_other\<close>)
  ultimately show ?thesis
    by (simp add: never_rules_def Let_def lib_other(4) list_ex_iff del: u.simps)
qed

lemma lib_added:
  "\<exists>q. with_additional_root False lib_host (compile_profile lib_host (\<lambda>_. None) (u ''/proj'') None) (u ''/lib'') =
        Inr q \<and> p_additional_roots q = [NPath True [u ''lib'']] \<and> p_home q = None \<and>
        p_root q = NPath True [u ''proj'']"
proof -
  let ?p = "compile_profile lib_host (\<lambda>_. None) (u ''/proj'') None"
  have s: "spelling (NPath True [u ''lib'']) = [u ''lib'']"
    by (simp add: path_eval rust_std)
  have "List.find (blocks_root lib_host ?p [u ''lib'']) (never_rules lib_host (NPath True [u ''proj'']) None)
      = None"
    using lib_never by (simp only: find_None_list_ex simp_thms)
  moreover have "canonicalize lib_host (u ''/lib'') = Some (NPath True [u ''lib''])"
    "is_dir lib_host (display (NPath True [u ''lib'']))" "is_absolute (u ''/lib'')"
    by (simp_all add: display_def sep_def is_absolute_def rust_std)
  moreover have "NPath True [u ''lib''] \<noteq> NPath True [u ''proj'']" by simp
  ultimately show ?thesis
    by (simp add: with_additional_root_def Let_def lib_fields s del: u.simps lib_host_simps)
qed

lemma register_example:
  "register h (u ''Bash(rm *)'') True p = p\<lparr>p_command_deny := p_command_deny p @ [u ''rm *'']\<rparr>"
proof -
  have "split_pattern (u ''Bash(rm *)'') = (u ''Bash'', Some (u ''rm *''))"
    by (simp add: split_pattern_def rust_std Let_def)
  then show ?thesis
    unfolding register_def by (simp add: register_command_def)
qed

section \<open>Properties\<close>

text \<open>
  A further \<open>deny\<close> entry of the settings document only takes away: every path, command line
  and tool it leaves granted was granted before it, and the granted file is the same.
\<close>

theorem deny_entry_only_removes:
  "(check h (register h pattern True p) tool access path = Inr q \<longrightarrow>
      check h p tool access path = Inr q) \<and>
   (admits_command windows h (register h pattern True p) line = Inr executables \<longrightarrow>
      admits_command windows h p line = Inr executables) \<and>
   (admits_mcp_tool h (register h pattern True p) name \<longrightarrow> admits_mcp_tool h p name)"
  using check_deny_mono [OF frame_register register_deny_fields(1,4)]
    admits_deny_mono [OF frame_register register_deny_fields(2,5)]
    admits_mcp_deny_mono [OF frame_register register_deny_fields(3,6)] by metis

theorem deny_entry_only_removes_witness:
  "check empty_host example_profile (u ''read'') Read (u ''src/a'') =
     Inr (NPath True [u ''proj'', u ''src'', u ''a''])"
proof -
  have "check empty_host (register empty_host (u ''Bash(rm *)'') True example_profile) (u ''read'')
      Read (u ''src/a'') = Inr (NPath True [u ''proj'', u ''src'', u ''a''])"
    unfolding check_Inr_iff register_example by (simp add: example_eval path_eval)
  then show ?thesis
    using deny_entry_only_removes by blast
qed

text \<open>
  A settings document that is not JSON grants nothing: the profile answers every path and
  every command line as the profile without a document does, and without one no command line is
  admitted at all.
\<close>

theorem unreadable_settings_grant_nothing:
  assumes "parse content = None"
  shows "check h (compile_profile h parse supplied (Some content)) =
           check h (compile_profile h parse supplied None) \<and>
         admits_command windows h (compile_profile h parse supplied (Some content)) line \<noteq>
           Inr executables"
proof
  let ?p = "compile_profile h parse supplied (Some content)"
  let ?q = "compile_profile h parse supplied None"
  have "p_allow ?p = p_allow ?q \<and> p_deny ?p = p_deny ?q \<and> p_command_allow ?p = []"
    using assms
    by (cases "anchor_project_root supplied (current_dir h)")
      (simp_all add: compile_profile_def Let_def bare_profile_def derive_grants_def
        add_diagnostic_def register_settings_def)
  then show "check h ?p = check h ?q"
    and "admits_command windows h ?p line \<noteq> Inr executables"
    using check_frame_cong [OF compile_frame]
    by (auto simp: admits_command_Inr_iff admit_segments_Inr_iff admit_segment_Inr_iff
        list_all_iff neq_Nil_conv)
qed

theorem unreadable_settings_grant_nothing_witness:
  "\<forall>e. admits_command False empty_host (compile_profile empty_host (\<lambda>_. None) (u ''/proj'')
     (Some (u ''{''))) (u ''ls'') \<noteq> Inr e"
  using unreadable_settings_grant_nothing [of "\<lambda>_. None" "u ''{''" empty_host] by blast

text \<open>
  C6. The document cannot undo what was refused before it was read: a path the profile without a
  document refuses by a never-grantable rule, as a device path or for want of a root is refused
  with any document, for the same reason and in the same words.
\<close>

theorem document_lifts_no_refusal:
  assumes "check h (compile_profile h parse supplied None) tool access path = Inl e"
    and "fixed_refusal (denied_rule e)"
  shows "check h (compile_profile h parse supplied settings) tool access path = Inl e"
  using assms fixed_refusal_cong [OF compile_frame] by metis

theorem document_lifts_no_refusal_witness:
  "check empty_host (compile_profile empty_host (\<lambda>_. Some JNull) [] (Some (u ''null''))) (u ''read'') Read
     (u ''/a'') = Inl \<lparr>denied_tool = u ''read'', denied_path = u ''/a'',
       denied_rule = InvalidRoot NoCurrentDir\<rparr>"
proof (rule document_lifts_no_refusal)
  have "p_invalid_root (compile_profile empty_host (\<lambda>_. Some JNull) [] None) = Some NoCurrentDir"
    by (simp add: compile_profile_def anchor_project_root_def windows_drive_relative_def
        windows_absolute_def empty_host_def bare_host_def add_diagnostic_def Let_def path_eval rust_std)
  then show "check empty_host (compile_profile empty_host (\<lambda>_. Some JNull) [] None) (u ''read'') Read
     (u ''/a'') = Inl \<lparr>denied_tool = u ''read'', denied_path = u ''/a'',
       denied_rule = InvalidRoot NoCurrentDir\<rparr>"
    by (simp add: check_def Let_def path_eval rust_std shown_def)
qed (simp add: fixed_refusal_def)

text \<open>
  C4. The five credential directories of the home directory are out of reach: whatever the document
  grants and whatever the host did with the profile afterwards, no read and no write under one of
  them is granted, a project that is the home directory or encloses the credential directory
  included. The one exemption is that of the code: a project that itself lies in the credential
  directory reaches its own files. The directory must not be a link to the home directory itself,
  whose rule has exceptions of its own.
\<close>

theorem home_credentials_never_granted:
  assumes "built windows h parse supplied settings p" and "p_home p = Some home"
    and "name \<in> set NEVER_GRANTABLE_HOME"
  defines "store \<equiv> spelling (resolve h (join_path (display home) name) (Some (p_root p)) None)"
  assumes "store \<noteq> spelling home"
    and "contains store (spelling (resolved_path h p path))"
    and "\<not> (contains store (spelling (p_root p)) \<and>
            contains (spelling (p_root p)) (spelling (resolved_path h p path)))"
  shows "check h p tool access path \<noteq> Inr q"
proof
  assume q: "check h p tool access path = Inr q"
  let ?rule = "never_rule_for h (p_root p) (join_path (display home) name) False (NeverInHome name)"
  have "?rule \<in> set (p_never p)"
    using built_fields [OF assms(1)] never_rules_named [OF assms(3)] assms(2) by fastforce
  moreover have "\<not> is_home_rule p ?rule"
    using assms(2,5) by (simp add: is_home_rule_def never_rule_for_def protected_rule_def Let_def store_def)
  ultimately have "\<exists>except. nr_except_spelling ?rule = Some except \<and> contains except (spelling q)"
    using granted_inside_rule [OF q, of ?rule] q assms(6)
    by (simp add: never_rule_for_def protected_rule_def Let_def check_Inr_iff store_def)
  then show False
    using assms(7) q
    by (auto simp: never_rule_for_def protected_rule_def Let_def check_Inr_iff store_def
        split: if_splits)
qed

theorem home_credentials_never_granted_witness:
  "\<forall>q. check home_host (compile_profile home_host (\<lambda>_. None) (u ''/home/a'') None) (u ''read'') Read
     (u ''/home/a/.ssh/id'') \<noteq> Inr q"
proof (intro allI home_credentials_never_granted)
  let ?p = "compile_profile home_host (\<lambda>_. None) (u ''/home/a'') None"
  show "built False home_host (\<lambda>_. None) (u ''/home/a'') None ?p" by (rule built.compiled)
  show "p_home ?p = Some (NPath True [u ''home'', u ''a''])" by (rule at_home)
  show "u ''.ssh'' \<in> set NEVER_GRANTABLE_HOME" by (simp add: NEVER_GRANTABLE_HOME_def)
qed (simp_all add: at_home_eval path_eval contains_def rust_std)

text \<open>
  C5. The project's own configuration is out of reach of a write: whatever the document grants and
  the host did afterwards, nothing under \<open>.claude\<close> and nothing under \<open>.pane\<close> outside
  \<open>.pane/scratch\<close> is granted for writing. (The two directories are not the home directory.)
\<close>

theorem configuration_never_written:
  assumes "built windows h parse supplied settings p"
    and "contains (spelling (child (p_root p) (u ''.claude''))) (spelling (resolved_path h p path)) \<or>
         contains (spelling (child (p_root p) (u ''.pane''))) (spelling (resolved_path h p path)) \<and>
         \<not> contains (spelling (foldl child (p_root p) SCRATCH_DIR)) (spelling (resolved_path h p path))"
    and "\<forall>home. p_home p = Some home \<longrightarrow>
           spelling home \<noteq> spelling (child (p_root p) (u ''.claude'')) \<and>
           spelling home \<noteq> spelling (child (p_root p) (u ''.pane''))"
  shows "check h p tool Write path \<noteq> Inr q"
proof
  assume q: "check h p tool Write path = Inr q"
  let ?claude = "protected_rule (spelling (child (p_root p) (u ''.claude''))) None True ClaudeNeverWritable"
  let ?pane = "protected_rule (spelling (child (p_root p) (u ''.pane'')))
    (Some (foldl child (p_root p) SCRATCH_DIR)) True PaneHostOwned"
  have "?claude \<in> set (p_never p)" "?pane \<in> set (p_never p)"
    using built_fields [OF assms(1)] never_rules_own [of "p_root p" h "p_home p"] by auto
  moreover have "\<not> is_home_rule p ?claude" "\<not> is_home_rule p ?pane"
    using assms(3) by (auto simp: is_home_rule_def protected_rule_def split: option.split)
  ultimately show False
    using assms(2) q granted_inside_rule [OF q, of ?claude] granted_inside_rule [OF q, of ?pane]
    by (auto simp: protected_rule_def check_Inr_iff)
qed

theorem configuration_never_written_witness:
  "\<forall>q. check home_host (with_os_sandbox_bypass (compile_profile home_host (\<lambda>_. None) (u ''/proj'') None))
     (u ''write'') Write (u ''.pane/settings.toml'') \<noteq> Inr q"
proof (rule allI, rule configuration_never_written)
  show "built False home_host (\<lambda>_. None) (u ''/proj'') None
      (with_os_sandbox_bypass (compile_profile home_host (\<lambda>_. None) (u ''/proj'') None))"
    by (intro built.intros)
  show "\<forall>home. p_home (with_os_sandbox_bypass (compile_profile home_host (\<lambda>_. None) (u ''/proj'') None)) =
      Some home \<longrightarrow> spelling home \<noteq> spelling (child (p_root (with_os_sandbox_bypass
        (compile_profile home_host (\<lambda>_. None) (u ''/proj'') None))) (u ''.claude'')) \<and>
      spelling home \<noteq> spelling (child (p_root (with_os_sandbox_bypass
        (compile_profile home_host (\<lambda>_. None) (u ''/proj'') None))) (u ''.pane''))"
    by (simp only: with_os_sandbox_bypass_fields home_example option.inject simp_thms)
      (simp add: path_eval rust_std child_def)
qed (simp_all add: home_example_eval path_eval contains_def rust_std child_def SCRATCH_DIR_def)

text \<open>
  An additional root never overlaps what is never grantable: in every profile a session can
  hold, a root the host added neither lies in the subtree of a rule of the never-grantable set
  (the broad home rule apart) nor contains one, and the profile has no \<open>deny\<close> pattern that the
  platform could not enforce there.
\<close>

theorem additional_roots_disjoint:
  assumes "built windows h parse supplied settings p" and "dir \<in> set (p_additional_roots p)"
    and "never \<in> set (never_rules h (p_root p) (p_home p))"
    and "\<forall>home. p_home p = Some home \<longrightarrow> nr_prefix never \<noteq> spelling home"
  shows "\<not> contains_refusing h (nr_prefix never) (spelling dir) \<and>
         \<not> contains_refusing h (spelling dir) (nr_prefix never) \<and> p_deny p = []"
proof -
  have "\<not> is_home_rule p never"
    using assms(4) by (auto simp: is_home_rule_def split: option.split)
  then show ?thesis
    using built_additional_roots [OF assms(1,2)] assms(3) by (auto simp: list_ex_iff blocks_root_def)
qed

theorem additional_roots_disjoint_witness:
  "\<exists>q. with_additional_root False lib_host (compile_profile lib_host (\<lambda>_. None) (u ''/proj'') None) (u ''/lib'') =
        Inr q \<and> \<not> contains_refusing lib_host (spelling (child (NPath True [u ''proj'']) (u ''.claude'')))
          (spelling (NPath True [u ''lib'']))"
proof -
  obtain q where q:
    "with_additional_root False lib_host (compile_profile lib_host (\<lambda>_. None) (u ''/proj'') None) (u ''/lib'') =
        Inr q" "p_additional_roots q = [NPath True [u ''lib'']]" "p_home q = None"
        "p_root q = NPath True [u ''proj'']"
    using lib_added by blast
  have b: "built False lib_host (\<lambda>_. None) (u ''/proj'') None q"
    by (rule built.extended [OF built.compiled q(1)])
  have d: "NPath True [u ''lib''] \<in> set (p_additional_roots q)" by (simp add: q)
  have "\<forall>home. p_home q = Some home \<longrightarrow> nr_prefix never \<noteq> spelling home" for never
    by (simp add: q)
  then show ?thesis
    using additional_roots_disjoint [OF b d never_rules_own(1)] q
    by (auto simp: protected_rule_def simp del: u.simps)
qed

end
