(* ===== verification/Permissions.thy ===== *)
theory Permissions
  imports Profile_Build "HOL-Library.Word"
begin

text \<open>
  How often the person is asked, \<open>crates/pane/src/permissions.rs\<close>: the four rungs, the live ladder
  with its log of moves, the judgement of one admitted call (\<open>judge\<close>, \<open>judge_command\<close>) and the
  session's memory of answers (\<open>Judged\<close>). The decision model behind \<open>CommandJudge\<close> is a parameter:
  a function from the line and the judge's own state to its answer and the new state.
\<close>

section \<open>The rungs\<close>

datatype rung = Manual | AcceptEdits | Auto | Full

definition rung_rank :: "rung \<Rightarrow> nat" where
  "rung_rank r = (case r of Manual \<Rightarrow> 0 | AcceptEdits \<Rightarrow> 1 | Auto \<Rightarrow> 2 | Full \<Rightarrow> 3)"

text \<open>The derived order of the source: the constructors from the most asking to the least.\<close>

instantiation rung :: linorder
begin

definition less_eq_rung :: "rung \<Rightarrow> rung \<Rightarrow> bool" where
  "less_eq_rung a b \<longleftrightarrow> rung_rank a \<le> rung_rank b"

definition less_rung :: "rung \<Rightarrow> rung \<Rightarrow> bool" where
  "less_rung a b \<longleftrightarrow> rung_rank a < rung_rank b"

instance
  by standard (auto simp: less_eq_rung_def less_rung_def rung_rank_def split: rung.splits)

end

definition rung_name :: "rung \<Rightarrow> rstr" where
  "rung_name r = (case r of Manual \<Rightarrow> u ''manual'' | AcceptEdits \<Rightarrow> u ''accept-edits''
     | Auto \<Rightarrow> u ''auto'' | Full \<Rightarrow> u ''full'')"

definition RUNG_NAMES :: "rstr list" where
  "RUNG_NAMES = [u ''manual'', u ''accept-edits'', u ''auto'', u ''full'']"

definition rung_label :: "rung \<Rightarrow> rstr" where
  "rung_label r = (case r of Manual \<Rightarrow> u ''Every call'' | AcceptEdits \<Rightarrow> u ''Commands''
     | Auto \<Rightarrow> u ''Auto-review'' | Full \<Rightarrow> u ''Never asks'')"

definition rung_parse :: "rstr \<Rightarrow> rung option" where
  "rung_parse word =
     (let w = trim word
      in if w = u ''manual'' then Some Manual
         else if w = u ''accept-edits'' \<or> w = u ''accept_edits'' \<or> w = u ''acceptedits''
         then Some AcceptEdits
         else if w = u ''auto'' then Some Auto
         else if w = u ''full'' then Some Full
         else None)"

fun rung_next :: "rung \<Rightarrow> rung" where
  "rung_next Manual = AcceptEdits"
| "rung_next AcceptEdits = Auto"
| "rung_next Auto = Full"
| "rung_next Full = Manual"

definition ever_asks :: "rung \<Rightarrow> bool" where
  "ever_asks r \<longleftrightarrow> r \<noteq> Full"

definition needs_a_person :: "rung \<Rightarrow> bool" where
  "needs_a_person r \<longleftrightarrow> r = Manual \<or> r = AcceptEdits"

definition rung_code :: "rung \<Rightarrow> 8 word" where
  "rung_code r = (case r of Manual \<Rightarrow> 0 | AcceptEdits \<Rightarrow> 1 | Auto \<Rightarrow> 2 | Full \<Rightarrow> 3)"

definition rung_from_code :: "8 word \<Rightarrow> rung" where
  "rung_from_code c = (if c = 0 then Manual else if c = 1 then AcceptEdits else if c = 3 then Full
     else Auto)"

section \<open>The ladder\<close>

text \<open>\<open>at\<close> is the clock's reading, an argument of every operation that takes one.\<close>

record move =
  move_from :: rung
  move_to :: rung
  move_at :: nat

record ladder =
  ladder_code :: "8 word"
  ladder_moves :: "move list"
  ladder_unattended :: bool

definition ladder_new :: "rung \<Rightarrow> ladder" where
  "ladder_new r = \<lparr>ladder_code = rung_code r, ladder_moves = [], ladder_unattended = False\<rparr>"

definition unattended :: "ladder \<Rightarrow> ladder" where
  "unattended l = l\<lparr>ladder_unattended := True\<rparr>"

definition ladder_rung :: "ladder \<Rightarrow> rung" where
  "ladder_rung l = rung_from_code (ladder_code l)"

definition ladder_set :: "rung \<Rightarrow> nat \<Rightarrow> ladder \<Rightarrow> move option \<times> ladder" where
  "ladder_set r now l =
     (let from = rung_from_code (ladder_code l);
          swapped = l\<lparr>ladder_code := rung_code r\<rparr>
      in if from = r then (None, swapped)
         else (let moved = \<lparr>move_from = from, move_to = r, move_at = now\<rparr>
               in (Some moved, swapped\<lparr>ladder_moves := ladder_moves l @ [moved]\<rparr>)))"

definition ladder_cycle :: "nat \<Rightarrow> ladder \<Rightarrow> move \<times> ladder" where
  "ladder_cycle now l =
     (let to = rung_next (ladder_rung l)
      in case ladder_set to now l of
           (Some m, l') \<Rightarrow> (m, l')
         | (None, l') \<Rightarrow> (\<lparr>move_from = to, move_to = to, move_at = now\<rparr>, l'))"

definition drain_moves :: "ladder \<Rightarrow> move list \<times> ladder" where
  "drain_moves l = (ladder_moves l, l\<lparr>ladder_moves := []\<rparr>)"

section \<open>The judgement of one call\<close>

text \<open>The sentence beside a question: a rung's own, the reader's, or the model's.\<close>

datatype ask_reason =
    EveryCallConfirmed
  | EveryCommandConfirmed
  | NotVouchedFor unread_why
  | ModelSays rstr

datatype verdict = Runs | Ask ask_reason | Refuse rstr

record 's command_judge =
  vouches_for :: "rstr \<Rightarrow> 's \<Rightarrow> bool \<times> 's"
  judge_reason :: "rstr \<Rightarrow> rstr option"

definition is_a_command :: "rstr \<Rightarrow> bool" where
  "is_a_command tool \<longleftrightarrow> tool = u ''bash''"

definition DEVELOPMENT_COMMANDS :: "rstr list" where
  "DEVELOPMENT_COMMANDS =
     [u ''sed -n *'', u ''cargo check*'', u ''cargo test*'', u ''cargo build*'', u ''cargo clippy*'',
      u ''cargo fmt*'', u ''cargo metadata*'', u ''cargo tree*'', u ''cargo doc*'', u ''sort*'',
      u ''uniq*'', u ''cut *'', u ''tr *'', u ''printf *'', u ''diff *'', u ''jq *'', u ''basename*'',
      u ''dirname*'', u ''realpath*'', u ''command -v*'', u ''type *'', u ''pgrep*'', u ''nproc'',
      u ''sw_vers*'', u ''true'', u ''false'', u ''test *'']"

definition judge_command ::
    "bool \<Rightarrow> ('u) unicode_scheme \<Rightarrow> rstr \<Rightarrow> rstr list \<Rightarrow> 's command_judge option \<Rightarrow> 's \<Rightarrow> verdict \<times> 's" where
  "judge_command windows uc line extra_read_only model s =
     (let admitted = DEVELOPMENT_COMMANDS @ extra_read_only
      in case command_reads_only windows uc line admitted of
           None \<Rightarrow> (Runs, s)
         | Some why \<Rightarrow>
             (case model of
                None \<Rightarrow> (Ask (NotVouchedFor why), s)
              | Some j \<Rightarrow>
                  (case vouches_for j line s of
                     (True, s') \<Rightarrow> (Runs, s')
                   | (False, s') \<Rightarrow>
                       (Ask (case judge_reason j line of Some r \<Rightarrow> ModelSays r | None \<Rightarrow> NotVouchedFor why),
                        s'))))"

definition judge ::
    "bool \<Rightarrow> ('u) unicode_scheme \<Rightarrow> rung \<Rightarrow> rstr \<Rightarrow> (rstr \<rightharpoonup> rstr) \<Rightarrow> rstr list \<Rightarrow> 's command_judge option
       \<Rightarrow> 's \<Rightarrow> verdict \<times> 's" where
  "judge windows uc r tool arguments extra_read_only model s =
     (case r of
        Manual \<Rightarrow> (Ask EveryCallConfirmed, s)
      | Full \<Rightarrow> (Runs, s)
      | _ \<Rightarrow>
          if \<not> is_a_command tool then (Runs, s)
          else (case arguments (u ''command'') of
                  None \<Rightarrow> (Runs, s)
                | Some line \<Rightarrow>
                    if r = AcceptEdits then (Ask EveryCommandConfirmed, s)
                    else judge_command windows uc line extra_read_only model s))"

section \<open>The session's memory\<close>

type_synonym 'k judged = "'k \<rightharpoonup> bool"

definition judged_answer :: "'k judged \<Rightarrow> 'k \<Rightarrow> bool option" where
  "judged_answer j k = j k"

definition judged_remember :: "'k \<Rightarrow> bool \<Rightarrow> 'k judged \<Rightarrow> 'k judged" where
  "judged_remember k answer j = (case j k of None \<Rightarrow> j(k \<mapsto> answer) | Some _ \<Rightarrow> j)"

section \<open>Lemmas\<close>

lemma judged_remember_keeps:
  "judged_answer j k = Some b \<Longrightarrow> judged_answer (judged_remember k' a j) k = Some b"
  by (auto simp: judged_answer_def judged_remember_def split: option.splits)

lemma judged_remember_first:
  "judged_answer (judged_remember k a j) k = Some (case judged_answer j k of None \<Rightarrow> a | Some b \<Rightarrow> b)"
  by (auto simp: judged_answer_def judged_remember_def split: option.splits)

lemma judged_remember_None:
  "judged_answer (judged_remember k a j) k' = None \<longleftrightarrow> k' \<noteq> k \<and> judged_answer j k' = None"
  by (auto simp: judged_answer_def judged_remember_def split: option.splits)

lemma rung_code_roundtrip [simp]: "rung_from_code (rung_code r) = r"
  by (cases r) (simp_all add: rung_from_code_def rung_code_def)

lemma rung_next_other [simp]: "rung_next r \<noteq> r"
  by (cases r) simp_all

lemma judge_rungs:
  "judge w uc Manual tool args extra model s = (Ask EveryCallConfirmed, s)"
  "judge w uc Full tool args extra model s = (Runs, s)"
  by (simp_all add: judge_def)

text \<open>The moves recorded between two rungs: each starts where the one before it ended.\<close>

fun chained :: "rung \<Rightarrow> move list \<Rightarrow> rung \<Rightarrow> bool" where
  "chained a [] b \<longleftrightarrow> a = b"
| "chained a (m # ms) b \<longleftrightarrow> move_from m = a \<and> move_to m \<noteq> a \<and> chained (move_to m) ms b"

lemma chained_append: "chained a (ms @ ns) b \<longleftrightarrow> (\<exists>c. chained a ms c \<and> chained c ns b)"
  by (induction ms arbitrary: a) auto

lemma ladder_rung_set [simp]: "ladder_rung (snd (ladder_set r now l)) = r"
  by (simp add: ladder_rung_def ladder_set_def Let_def)

lemma ladder_set_chained:
  "chained a (ladder_moves l) (ladder_rung l) \<Longrightarrow>
     chained a (ladder_moves (snd (ladder_set r now l))) r"
  by (auto simp: ladder_set_def Let_def ladder_rung_def chained_append)

lemma ladder_cycle_set: "ladder_cycle now l =
    (the (fst (ladder_set (rung_next (ladder_rung l)) now l)),
     snd (ladder_set (rung_next (ladder_rung l)) now l))"
  using rung_next_other [of "ladder_rung l"]
  by (simp add: ladder_cycle_def ladder_set_def Let_def ladder_rung_def [symmetric] eq_commute)

text \<open>The operations on a live ladder, and a session of them with the moves it drained.\<close>

datatype ladder_op = SetTo rung nat | Cycle nat | Drain

definition ladder_step :: "ladder_op \<Rightarrow> move list \<times> ladder \<Rightarrow> move list \<times> ladder" where
  "ladder_step oper st =
     (case oper of
        SetTo r now \<Rightarrow> (fst st, snd (ladder_set r now (snd st)))
      | Cycle now \<Rightarrow> (fst st, snd (ladder_cycle now (snd st)))
      | Drain \<Rightarrow> (fst st @ fst (drain_moves (snd st)), snd (drain_moves (snd st))))"

lemma ladder_set_log: "\<exists>ms. ladder_moves (snd (ladder_set r now l)) = ladder_moves l @ ms"
  by (auto simp: ladder_set_def Let_def)

lemma ladder_step_chained:
  assumes "chained a (fst st @ ladder_moves (snd st)) (ladder_rung (snd st))"
  shows "chained a (fst (ladder_step oper st) @ ladder_moves (snd (ladder_step oper st)))
           (ladder_rung (snd (ladder_step oper st)))"
proof -
  obtain c where c: "chained a (fst st) c" "chained c (ladder_moves (snd st)) (ladder_rung (snd st))"
    using assms by (auto simp: chained_append)
  show ?thesis
  proof (cases oper)
    case Drain
    then show ?thesis
      using assms by (simp add: ladder_step_def drain_moves_def ladder_rung_def)
  qed (use c(1) ladder_set_chained [OF c(2)] in
       \<open>auto simp: ladder_step_def ladder_cycle_set chained_append intro: exI [of _ c]\<close>)
qed

lemma judge_command_model:
  "fst (judge_command w uc line extra (Some j) s) = Runs \<or>
   fst (judge_command w uc line extra (Some j) s) \<noteq> Runs \<and>
   fst (judge_command w uc line extra None s) \<noteq> Runs"
  by (auto simp: judge_command_def Let_def split: option.splits prod.splits bool.splits)

lemma judge_not_refuse: "fst (judge w uc r tool args extra model s) \<noteq> Refuse why"
  by (cases r) (auto simp: judge_def judge_command_def Let_def split: option.splits prod.splits bool.splits)

lemma reads_under_auto:
  assumes "command_reads_only w uc line extra = None"
  shows "command_reads_only w uc line (DEVELOPMENT_COMMANDS @ extra) = None"
  using assms unix_reader.reads_append windows_reader.reads_append by (cases w) auto

section \<open>Properties\<close>

text \<open>
  C7. A higher rung asks less: what runs without a question on one rung runs without one on every
  rung after it in the ladder's order, with the same model in the same state.
\<close>

theorem verdict_monotone:
  assumes "r \<le> r'" and "fst (judge windows uc r tool arguments extra model s) = Runs"
  shows "fst (judge windows uc r' tool arguments extra model s) = Runs"
  using assms
  by (cases r; cases r') (auto simp: judge_def less_eq_rung_def rung_rank_def split: option.splits if_splits)

theorem verdict_monotone_witness:
  "fst (judge False empty_host Full (u ''write'') Map.empty [] None ()) = Runs"
proof (rule verdict_monotone [where r = AcceptEdits])
  show "fst (judge False empty_host AcceptEdits (u ''write'') Map.empty [] None ()) = Runs"
    by (simp add: judge_def is_a_command_def)
qed (simp add: less_eq_rung_def rung_rank_def)

text \<open>
  The judgement only ever removes a question: no call is refused by it, \<open>full\<close> never asks and
  \<open>manual\<close> always does, a model turns a question into a run and never a run into a question, and a
  line the static reader vouches for is not put to the model at all.
\<close>

theorem judgement_only_removes_questions:
  "fst (judge windows uc r tool arguments extra model s) \<noteq> Refuse why \<and>
   fst (judge windows uc Full tool arguments extra model s) = Runs \<and>
   fst (judge windows uc Manual tool arguments extra model s) \<noteq> Runs \<and>
   \<not> (fst (judge_command windows uc line extra None s) = Runs \<and>
      judge_command windows uc line extra model s \<noteq> (Runs, s))"
  using judge_not_refuse [of windows uc r tool arguments extra model s why]
  by (auto simp: judge_rungs judge_command_def Let_def split: option.splits)

text \<open>
  The log of moves is a chain: whatever moves a session makes and whenever it drains them, each
  recorded move starts at the rung the one before it reached, changes it, and the last one reaches
  the current rung.
\<close>

theorem ladder_log_chains:
  "case foldl (\<lambda>st oper. ladder_step oper st) ([], ladder_new r) ops of
     (drained, l) \<Rightarrow> chained r (drained @ ladder_moves l) (ladder_rung l)"
proof -
  have "chained r (fst st @ ladder_moves (snd st)) (ladder_rung (snd st)) \<Longrightarrow>
      chained r (fst (foldl (\<lambda>st oper. ladder_step oper st) st ops) @
          ladder_moves (snd (foldl (\<lambda>st oper. ladder_step oper st) st ops)))
        (ladder_rung (snd (foldl (\<lambda>st oper. ladder_step oper st) st ops)))" for st
    by (induction ops arbitrary: st) (simp_all add: ladder_step_chained)
  from this [of "([], ladder_new r)"] show ?thesis
    by (simp add: ladder_new_def ladder_rung_def split_beta)
qed

text \<open>
  What a narrowing request mode vouches for as reading only, \<open>auto\<close> runs: the development
  commands are added to the person's patterns and never replace the reader.
\<close>

theorem mode_vouched_runs_under_auto:
  assumes "command_reads_only windows uc line extra = None" and "arguments (u ''command'') = Some line"
  shows "judge windows uc Auto tool arguments extra model s = (Runs, s)"
  using reads_under_auto [OF assms(1)] assms(2)
  by (simp add: judge_def judge_command_def Let_def)

theorem mode_vouched_runs_under_auto_witness:
  "judge False empty_host Auto (u ''bash'') [u ''command'' \<mapsto> u ''git status''] [] None () = (Runs, ())"
proof (rule mode_vouched_runs_under_auto)
  show "command_reads_only False empty_host (u ''git status'') [] = None"
    by (simp add: scan_eval rust_std Let_def)
qed simp

text \<open>
  A print-only \<open>sed\<close> is not what the pattern admits: \<open>sed -n -i p main.rs\<close> rewrites the file
  in place, matches \<open>sed -n *\<close>, and runs under \<open>auto\<close> without a question.
\<close>

theorem sed_in_place_runs_under_auto:
  "judge False empty_host Auto (u ''bash'') [u ''command'' \<mapsto> u ''sed -n -i p main.rs''] [] None () =
     (Runs, ())"
proof -
  have m: "match_segment empty_host (u ''sed -n *'') (u ''sed -n -i p main.rs'') False"
    by (simp add: match_segment_def)
  have "segment_unread empty_host (DEVELOPMENT_COMMANDS @ []) (u ''sed -n -i p main.rs'') = None"
    using m by (simp add: segment_unread_def DEVELOPMENT_COMMANDS_def scan_eval rust_std Let_def)
  moreover have "command_segments (u ''sed -n -i p main.rs'') = [u ''sed -n -i p main.rs'']"
    by (simp add: scan_eval rust_std Let_def)
  ultimately have "command_reads_only False empty_host (u ''sed -n -i p main.rs'')
      (DEVELOPMENT_COMMANDS @ []) = None"
    by (simp add: command_reads_only_def del: u.simps)
  then show ?thesis
    by (simp add: judge_def is_a_command_def judge_command_def Let_def)
qed

end
