(* ===== verification/Utf8.thy ===== *)
theory Utf8
  imports Prelude
begin

text \<open>
  UTF-8, as \<open>String::from_utf8\<close> and \<open>as_bytes\<close> of the standard library have it: the encoding of a
  scalar value in one to four bytes and the strict decoder that accepts exactly the encodings.
  A byte is a number below 256.
\<close>

type_synonym bytes = "nat list"

definition scalar :: "uchar \<Rightarrow> bool" where
  "scalar c \<longleftrightarrow> c < 0xD800 \<or> 0xE000 \<le> c \<and> c < 0x110000"

definition utf8_len :: "uchar \<Rightarrow> nat" where
  "utf8_len c = (if c < 128 then 1 else if c < 2048 then 2 else if c < 65536 then 3 else 4)"

definition byte_len :: "rstr \<Rightarrow> nat" where
  "byte_len t = sum_list (map utf8_len t)"

definition encode_char :: "uchar \<Rightarrow> bytes" where
  "encode_char c =
     (if c < 128 then [c]
      else if c < 2048 then [192 + c div 64, 128 + c mod 64]
      else if c < 65536 then [224 + c div 4096, 128 + c div 64 mod 64, 128 + c mod 64]
      else [240 + c div 262144, 128 + c div 4096 mod 64, 128 + c div 64 mod 64, 128 + c mod 64])"

definition utf8_encode :: "rstr \<Rightarrow> bytes" where
  "utf8_encode t = concat (map encode_char t)"

definition continuation :: "nat \<Rightarrow> bool" where
  "continuation b \<longleftrightarrow> 128 \<le> b \<and> b < 192"

text \<open>Six more bits, from a continuation byte.\<close>

definition six :: "nat \<Rightarrow> nat \<Rightarrow> nat" where
  "six a b = a * 64 + (b - 128)"

text \<open>One scalar value at the front, and what follows it.\<close>

definition decode_char :: "bytes \<Rightarrow> (uchar \<times> bytes) option" where
  "decode_char bs =
     (case bs of
        [] \<Rightarrow> None
      | b # r \<Rightarrow>
          if b < 128 then Some (b, r)
          else if 192 \<le> b \<and> b < 224 then
            (case r of
               b1 # r1 \<Rightarrow>
                 (let c = six (b - 192) b1
                  in if continuation b1 \<and> 128 \<le> c then Some (c, r1) else None)
             | _ \<Rightarrow> None)
          else if 224 \<le> b \<and> b < 240 then
            (case r of
               b1 # b2 # r2 \<Rightarrow>
                 (let c = six (six (b - 224) b1) b2
                  in if continuation b1 \<and> continuation b2 \<and> 2048 \<le> c \<and> scalar c
                     then Some (c, r2) else None)
             | _ \<Rightarrow> None)
          else if 240 \<le> b \<and> b < 248 then
            (case r of
               b1 # b2 # b3 # r3 \<Rightarrow>
                 (let c = six (six (six (b - 240) b1) b2) b3
                  in if continuation b1 \<and> continuation b2 \<and> continuation b3 \<and> 65536 \<le> c \<and> scalar c
                     then Some (c, r3) else None)
             | _ \<Rightarrow> None)
          else None)"

lemma decode_char_shorter: "decode_char bs = Some (c, r) \<Longrightarrow> length r < length bs"
  by (auto simp: decode_char_def Let_def split: list.splits if_splits)

function utf8_decode :: "bytes \<Rightarrow> rstr option" where
  "utf8_decode bs =
     (if bs = [] then Some []
      else (case decode_char bs of
              None \<Rightarrow> None
            | Some (c, r) \<Rightarrow> map_option ((#) c) (utf8_decode r)))"
  by pat_completeness auto
termination
  by (relation "measure length") (auto dest: decode_char_shorter)

declare utf8_decode.simps [simp del]

section \<open>Lemmas\<close>

lemma length_encode_char [simp]: "length (encode_char c) = utf8_len c"
  by (simp add: encode_char_def utf8_len_def)

lemma length_utf8_encode [simp]: "length (utf8_encode t) = byte_len t"
  by (simp add: utf8_encode_def byte_len_def length_concat comp_def)

lemma utf8_encode_simps [simp]:
  "utf8_encode [] = []" "utf8_encode (c # t) = encode_char c @ utf8_encode t"
  "utf8_encode (s @ t) = utf8_encode s @ utf8_encode t"
  by (simp_all add: utf8_encode_def)

lemma sextets:
  fixes c :: nat
  shows "six (c div 64) (128 + c mod 64) = c" "six (c div 4096) (128 + c div 64 mod 64) = c div 64"
    "six (c div 262144) (128 + c div 4096 mod 64) = c div 4096"
  using div_mult_mod_eq [of "c div 64" 64] div_mult_mod_eq [of "c div 4096" 64]
  by (simp_all add: six_def div_mult2_eq [symmetric])

lemma continuation_mod [simp]: "continuation (128 + n mod 64)"
  by (simp add: continuation_def)

lemma decode_encode_char:
  assumes "scalar c"
  shows "decode_char (encode_char c @ r) = Some (c, r)"
proof -
  consider "c < 128" | "128 \<le> c" "c < 2048" | "2048 \<le> c" "c < 65536" | "65536 \<le> c" by linarith
  then show ?thesis
  proof cases
    case 2
    then have "c div 64 < 32" by (simp add: less_mult_imp_div_less)
    then show ?thesis
      using 2 by (simp add: encode_char_def decode_char_def sextets Let_def)
  next
    case 3
    then have "c div 4096 < 16" by (simp add: less_mult_imp_div_less)
    then show ?thesis
      using 3 assms by (simp add: encode_char_def decode_char_def sextets Let_def)
  next
    case 4
    then have "c div 262144 < 8" using assms by (simp add: scalar_def less_mult_imp_div_less)
    then show ?thesis
      using 4 assms by (simp add: encode_char_def decode_char_def sextets Let_def)
  qed (simp add: encode_char_def decode_char_def)
qed

lemma utf8_len_pos [simp]: "0 < utf8_len c"
  by (simp add: utf8_len_def)

lemma encode_char_nonempty [simp]: "encode_char c \<noteq> []"
  by (simp add: encode_char_def)

lemma utf8_decode_encode: "list_all scalar t \<Longrightarrow> utf8_decode (utf8_encode t) = Some t"
  by (induction t) (simp_all add: utf8_decode.simps [of "[]"] utf8_decode.simps [of "encode_char c @ r" for c r]
      decode_encode_char)

text \<open>The decoder accepts encodings only.\<close>

lemma sextet_quot:
  assumes "continuation b"
  shows "six a b div 64 = a" "128 + six a b mod 64 = b"
proof -
  have "b - 128 < 64" using assms by (auto simp: continuation_def)
  then show "six a b div 64 = a" "128 + six a b mod 64 = b"
    using assms by (simp_all add: six_def continuation_def del: diff_add_assoc add_diff_assoc)
qed

lemma six_less: "continuation b \<Longrightarrow> a < n \<Longrightarrow> six a b < n * 64"
  by (auto simp: six_def continuation_def)

lemma decode_char_encode:
  assumes "decode_char bs = Some (c, r)"
  shows "bs = encode_char c @ r \<and> scalar c"
proof -
  obtain b s where bs: "bs = b # s" using assms by (cases bs) (auto simp: decode_char_def)
  consider "b < 128" | "192 \<le> b" "b < 224" | "224 \<le> b" "b < 240" | "240 \<le> b" "b < 248"
    using assms by (auto simp: bs decode_char_def split: if_splits)
  then show ?thesis
  proof cases
    case 1
    then show ?thesis using assms by (simp add: bs decode_char_def encode_char_def scalar_def)
  next
    case 2
    then obtain b1 where b1: "s = b1 # r" "c = six (b - 192) b1" "continuation b1" "128 \<le> c"
      using assms by (auto simp: bs decode_char_def Let_def split: list.splits if_splits)
    then have "c < 2048" using 2 six_less [of b1 "b - 192" 32] by simp
    moreover have "c div 64 = b - 192" "128 + c mod 64 = b1"
      using b1 sextet_quot by simp_all
    ultimately show ?thesis
      using 2 b1 by (simp add: bs encode_char_def scalar_def)
  next
    case 3
    then obtain b1 b2 where b1: "s = b1 # b2 # r"
      "c = six (six (b - 224) b1) b2"
      "continuation b1" "continuation b2" "2048 \<le> c" "scalar c"
      using assms by (auto simp: bs decode_char_def Let_def split: list.splits if_splits)
    have q: "c div 64 = six (b - 224) b1" "128 + c mod 64 = b2"
      using b1 sextet_quot by simp_all
    have "c div 4096 = c div 64 div 64" by (simp add: div_mult2_eq [symmetric])
    then have "c div 4096 = b - 224" "128 + c div 64 mod 64 = b1"
      using q b1 sextet_quot by simp_all
    moreover have "c < 65536"
      using 3 b1 six_less [of b1 "b - 224" 16] six_less [of b2 "six (b - 224) b1" 1024] by simp
    ultimately show ?thesis
      using 3 b1 q by (simp add: bs encode_char_def)
  next
    case 4
    then obtain b1 b2 b3 where b1: "s = b1 # b2 # b3 # r"
      "c = six (six (six (b - 240) b1) b2) b3"
      "continuation b1" "continuation b2" "continuation b3" "65536 \<le> c" "scalar c"
      using assms by (auto simp: bs decode_char_def Let_def split: list.splits if_splits)
    have q: "c div 64 = six (six (b - 240) b1) b2" "128 + c mod 64 = b3"
      using b1 sextet_quot by simp_all
    have "c div 4096 = c div 64 div 64" by (simp add: div_mult2_eq [symmetric])
    then have q2: "c div 4096 = six (b - 240) b1" "128 + c div 64 mod 64 = b2"
      using q b1 sextet_quot by simp_all
    have "c div 262144 = c div 4096 div 64" by (simp add: div_mult2_eq [symmetric])
    then have "c div 262144 = b - 240" "128 + c div 4096 mod 64 = b1"
      using q2 b1 sextet_quot by simp_all
    then show ?thesis
      using 4 b1 q q2 by (simp add: bs encode_char_def)
  qed
qed

lemma utf8_encode_decode: "utf8_decode bs = Some t \<Longrightarrow> utf8_encode t = bs"
proof (induction bs arbitrary: t rule: utf8_decode.induct)
  case (1 bs)
  show ?case
  proof (cases "bs = []")
    case False
    then obtain c r t' where "decode_char bs = Some (c, r)" "utf8_decode r = Some t'" "t = c # t'"
      using "1.prems" by (subst (asm) utf8_decode.simps) (auto split: option.splits)
    then show ?thesis
      using "1.IH" [OF False] decode_char_encode by auto
  qed (use "1.prems" in \<open>simp add: utf8_decode.simps [of "[]"]\<close>)
qed

lemma utf8_decode_scalar: "utf8_decode bs = Some t \<Longrightarrow> list_all scalar t"
proof (induction bs arbitrary: t rule: utf8_decode.induct)
  case (1 bs)
  show ?case
  proof (cases "bs = []")
    case False
    then obtain c r t' where "decode_char bs = Some (c, r)" "utf8_decode r = Some t'" "t = c # t'"
      using "1.prems" by (subst (asm) utf8_decode.simps) (auto split: option.splits)
    then show ?thesis
      using "1.IH" [OF False] decode_char_encode by auto
  qed (use "1.prems" in \<open>simp add: utf8_decode.simps [of "[]"]\<close>)
qed

end
