(* ===== verification/Text_Format.thy ===== *)
theory Text_Format
  imports Prelude
begin

text \<open>
  The pieces of text the components print: decimal numbers as Rust's \<open>Display\<close> writes them, with and
  without padding, \<open>str::parse\<close> on them, hexadecimal bytes, and the escaping and thousands separators of
  \<open>crates/pane/src/runtime/preview.rs\<close>.
\<close>

section \<open>Decimal numbers\<close>

fun decimal :: "nat \<Rightarrow> rstr" where
  "decimal n = (if n < 10 then [48 + n] else decimal (n div 10) @ [48 + n mod 10])"

declare decimal.simps [simp del]

text \<open>\<open>{:0width$}\<close> of an unsigned and of a signed number: the sign counts for the width.\<close>

definition pad_zero :: "nat \<Rightarrow> rstr \<Rightarrow> rstr" where
  "pad_zero width t = replicate (width - length t) 48 @ t"

definition decimal0 :: "nat \<Rightarrow> nat \<Rightarrow> rstr" where
  "decimal0 width n = pad_zero width (decimal n)"

definition signed_decimal0 :: "nat \<Rightarrow> int \<Rightarrow> rstr" where
  "signed_decimal0 width n =
     (if n < 0 then 45 # pad_zero (width - 1) (decimal (nat (- n))) else decimal0 width (nat n))"

text \<open>\<open>{:<width$}\<close> and \<open>{:>width$}\<close>: spaces up to so many characters.\<close>

definition pad_right :: "nat \<Rightarrow> rstr \<Rightarrow> rstr" where
  "pad_right width t = t @ replicate (width - length t) 32"

definition pad_left :: "nat \<Rightarrow> rstr \<Rightarrow> rstr" where
  "pad_left width t = replicate (width - length t) 32 @ t"

text \<open>The value of a string of digits, and \<open>parse\<close> into an unsigned type of \<open>limit\<close> values.\<close>

definition digits_value :: "rstr \<Rightarrow> nat" where
  "digits_value t = foldl (\<lambda>n c. 10 * n + (c - 48)) 0 t"

definition parse_unsigned :: "nat \<Rightarrow> rstr \<Rightarrow> nat option" where
  "parse_unsigned limit t =
     (let digits = (if t \<noteq> [] \<and> hd t = 43 then tl t else t)
      in if digits \<noteq> [] \<and> list_all is_ascii_digit digits \<and> digits_value digits < limit
         then Some (digits_value digits) else None)"

lemma decimal_small: "n < 10 \<Longrightarrow> decimal n = [48 + n]"
  by (subst decimal.simps) simp

lemma decimal_large: "\<not> n < 10 \<Longrightarrow> decimal n = decimal (n div 10) @ [48 + n mod 10]"
  by (subst decimal.simps) simp

lemma decimal_nonempty [simp]: "decimal n \<noteq> []"
  by (cases "n < 10") (simp_all add: decimal_small decimal_large)

lemma decimal_digits: "list_all is_ascii_digit (decimal n)"
proof (induction n rule: decimal.induct)
  case (1 n)
  have "n mod 10 < 10" by simp
  then show ?case
    using 1 by (cases "n < 10") (simp_all add: decimal_small decimal_large is_ascii_digit_def)
qed

lemma hd_decimal: "is_ascii_digit (hd (decimal n))"
  using decimal_digits [of n] by (cases "decimal n") simp_all

lemma digits_value_snoc [simp]: "digits_value (t @ [c]) = 10 * digits_value t + (c - 48)"
  by (simp add: digits_value_def)

lemma digits_value_decimal [simp]: "digits_value (decimal n) = n"
proof (induction n rule: decimal.induct)
  case (1 n)
  then show ?case
    by (cases "n < 10") (simp_all add: decimal_small decimal_large digits_value_def)
qed

lemma digits_value_zeros [simp]: "digits_value (replicate k 48 @ t) = digits_value t"
  by (induction k) (simp_all add: digits_value_def)

lemma decimal_inject [simp]: "decimal m = decimal n \<longleftrightarrow> m = n"
  using digits_value_decimal by metis

lemma parse_decimal: "n < limit \<Longrightarrow> parse_unsigned limit (decimal n) = Some n"
proof -
  have "hd (decimal n) \<noteq> 43"
    using hd_decimal [of n] by (auto simp: is_ascii_digit_def)
  then show "n < limit \<Longrightarrow> ?thesis"
    by (simp add: parse_unsigned_def decimal_digits)
qed

lemma length_decimal: "n < 10 ^ Suc k \<Longrightarrow> length (decimal n) \<le> Suc k"
proof (induction k arbitrary: n)
  case 0
  then show ?case by (simp add: decimal_small)
next
  case (Suc k)
  then have "n div 10 < 10 ^ Suc k" by (simp add: div_less_iff_less_mult)
  then show ?case
    using Suc.IH [of "n div 10"] by (cases "n < 10") (simp_all add: decimal_small decimal_large)
qed

lemma length_decimal0: "n < 10 ^ Suc k \<Longrightarrow> length (decimal0 (Suc k) n) = Suc k"
  using length_decimal [of n k] by (simp add: decimal0_def pad_zero_def)

lemma digits_value_decimal0 [simp]: "digits_value (decimal0 width n) = n"
  by (simp add: decimal0_def pad_zero_def)

section \<open>Hexadecimal\<close>

definition hex_digit :: "nat \<Rightarrow> uchar" where
  "hex_digit n = (if n < 10 then 48 + n else 87 + n)"

fun hex :: "nat \<Rightarrow> rstr" where
  "hex n = (if n < 16 then [hex_digit n] else hex (n div 16) @ [hex_digit (n mod 16)])"

declare hex.simps [simp del]

section \<open>Escaped text\<close>

definition escape_char :: "uchar \<Rightarrow> rstr" where
  "escape_char c =
     (if c = 92 then [92, 92]
      else if c = 34 then [92, 34]
      else if c = 10 then [92, 110]
      else if c = 13 then [92, 114]
      else if c = 9 then [92, 116]
      else if c < 32 \<or> c = 127 then [92, 120] @ pad_zero 2 (hex c)
      else [c])"

definition escape_line :: "rstr \<Rightarrow> rstr" where
  "escape_line t = concat (map escape_char t)"

definition quote :: "rstr \<Rightarrow> rstr" where
  "quote t = [34] @ escape_line t @ [34]"

text \<open>A comma before every third digit from the right.\<close>

definition thousands :: "nat \<Rightarrow> rstr" where
  "thousands n =
     concat (map (\<lambda>i. if 0 < i \<and> (length (decimal n) - i) mod 3 = 0 then [44, decimal n ! i] else [decimal n ! i])
       [0..<length (decimal n)])"

definition estimate_tokens :: "rstr \<Rightarrow> nat" where
  "estimate_tokens t = (length t + 3) div 4"

lemma set_hex: "c \<in> set (hex n) \<Longrightarrow> 48 \<le> c \<and> c \<le> 102"
proof (induction n rule: hex.induct)
  case (1 n)
  have digit: "48 \<le> hex_digit m \<and> hex_digit m \<le> 102" if "m < 16" for m
    using that by (auto simp: hex_digit_def)
  show ?case
  proof (cases "n < 16")
    case True
    then show ?thesis using 1(2) digit [of n] by (subst (asm) hex.simps) simp
  next
    case False
    then show ?thesis using 1 digit [of "n mod 16"] by (subst (asm) (2) hex.simps) auto
  qed
qed

lemma escape_line_printable:
  assumes "c \<in> set (escape_line t)"
  shows "32 \<le> c \<and> c \<noteq> 127"
proof -
  obtain d where "c \<in> set (escape_char d)"
    using assms by (auto simp: escape_line_def)
  then show ?thesis
    using set_hex [of c d] by (auto simp: escape_char_def pad_zero_def split: if_splits)
qed

end
