(* ===== verification/Approval.thy ===== *)
theory Approval
  imports Permissions Utf8 Text_Format
begin

text \<open>
  The approval gate, \<open>crates/pane/src/approval.rs\<close>: whether a call the profile admitted may run, and
  what the session remembers of a person's answers. The decision model behind the gate is a
  parameter (\<open>ask_model\<close>: a command line to its answer, if one came in time; it is a function, so a line
  that is asked about again, which happens when no answer came or the memory let the line go, is answered
  alike, where the service may answer differently); what happens while a
  confirmation is open is a trace of polls, one per turn of the waiting loop. The advisory hint
  (a thread that never influences the decision) is not modelled.
\<close>

section \<open>The wait clock\<close>

record wait_state =
  accumulated :: nat
  since :: "nat option"

definition wait_elapsed :: "nat \<Rightarrow> wait_state \<Rightarrow> nat" where
  "wait_elapsed now w = accumulated w + (case since w of None \<Rightarrow> 0 | Some t \<Rightarrow> now - t)"

definition wait_pause :: "nat \<Rightarrow> wait_state \<Rightarrow> wait_state" where
  "wait_pause now w = w\<lparr>since := Some now\<rparr>"

text \<open>Dropping the guard.\<close>

definition wait_resume :: "nat \<Rightarrow> wait_state \<Rightarrow> wait_state" where
  "wait_resume now w =
     (case since w of None \<Rightarrow> w
      | Some t \<Rightarrow> w\<lparr>accumulated := accumulated w + (now - t), since := None\<rparr>)"

section \<open>The decision model's word\<close>

datatype decision_mode = Off | Shadow | On

text \<open>The confidence is a float of the source: any type with a comparison, no law assumed of it.\<close>

record 'c command_judgement =
  cj_choice :: rstr
  cj_confidence :: 'c

definition COMMAND_READS_ONLY :: rstr where
  "COMMAND_READS_ONLY = u ''reads_only''"

definition COMMAND_ORDINARY_WORK :: rstr where
  "COMMAND_ORDINARY_WORK = u ''ordinary_development_work''"

definition permission_for ::
    "decision_mode \<Rightarrow> ('c::ord) command_judgement option \<Rightarrow> 'c \<Rightarrow> bool" where
  "permission_for mode answer command_runs_above =
     (if mode \<noteq> On then False
      else (case answer of
              None \<Rightarrow> False
            | Some a \<Rightarrow> (cj_choice a = COMMAND_READS_ONLY \<or> cj_choice a = COMMAND_ORDINARY_WORK) \<and>
                        command_runs_above \<le> cj_confidence a))"

record 'c decisions =
  d_model :: rstr
  d_mode :: decision_mode
  d_command_runs_above :: 'c

text \<open>What the judge keeps across calls: the answers already given, and the two counters.\<close>

record judge_memory =
  jm_vouched :: "rstr judged"
  jm_asked :: "32 word"
  jm_failed :: "32 word"

definition model_vouches_for ::
    "(rstr \<Rightarrow> rstr \<Rightarrow> ('c::ord) command_judgement option) \<Rightarrow> 'c decisions \<Rightarrow> rstr \<Rightarrow> judge_memory
       \<Rightarrow> bool \<times> judge_memory" where
  "model_vouches_for ask_model d line jm =
     (case judged_answer (jm_vouched jm) line of
        Some remembered \<Rightarrow> (remembered, jm)
      | None \<Rightarrow>
          (case ask_model (d_model d) line of
             Some answer \<Rightarrow>
               (let vouched = permission_for (d_mode d) (Some answer) (d_command_runs_above d)
                in (vouched, jm\<lparr>jm_asked := jm_asked jm + 1,
                                jm_vouched := judged_remember line vouched (jm_vouched jm)\<rparr>))
           | None \<Rightarrow> (False, jm\<lparr>jm_failed := jm_failed jm + 1\<rparr>)))"

definition model_judge ::
    "(rstr \<Rightarrow> rstr \<Rightarrow> ('c::ord) command_judgement option) \<Rightarrow> 'c decisions \<Rightarrow> judge_memory command_judge" where
  "model_judge ask_model d = \<lparr>vouches_for = model_vouches_for ask_model d, judge_reason = \<lambda>_. None\<rparr>"

section \<open>The gate\<close>

record action =
  act_tool :: rstr
  act_root :: rstr
  act_arguments :: "(rstr \<times> rstr) list"

datatype decision = AllowOnce | AllowForSession | Refused | Redirect rstr

record 'c gate =
  g_remembered :: "action set"
  g_judged :: "action judged"
  g_ladder :: ladder
  g_read_only :: "rstr list"
  g_decisions :: "'c decisions option"
  g_memory :: judge_memory
  g_redirects :: "action \<rightharpoonup> rstr"

definition gate_channel :: "ladder \<Rightarrow> 'c gate" where
  "gate_channel l =
     \<lparr>g_remembered = {}, g_judged = Map.empty, g_ladder = l, g_read_only = [], g_decisions = None,
      g_memory = \<lparr>jm_vouched = Map.empty, jm_asked = 0, jm_failed = 0\<rparr>, g_redirects = Map.empty\<rparr>"

definition with_read_only :: "rstr list \<Rightarrow> 'c gate \<Rightarrow> 'c gate" where
  "with_read_only patterns g = g\<lparr>g_read_only := patterns\<rparr>"

definition with_decisions :: "rstr option \<Rightarrow> decision_mode \<Rightarrow> 'c \<Rightarrow> 'c gate \<Rightarrow> 'c gate" where
  "with_decisions model mode threshold g =
     g\<lparr>g_decisions := map_option (\<lambda>m. \<lparr>d_model = m, d_mode = mode, d_command_runs_above = threshold\<rparr>) model\<rparr>"

definition redirect_for :: "action \<Rightarrow> 'c gate \<Rightarrow> rstr option \<times> 'c gate" where
  "redirect_for a g = (g_redirects g a, g\<lparr>g_redirects := (g_redirects g)(a := None)\<rparr>)"

definition gate_model ::
    "(rstr \<Rightarrow> rstr \<Rightarrow> ('c::ord) command_judgement option) \<Rightarrow> 'c gate \<Rightarrow> judge_memory command_judge option" where
  "gate_model ask_model g =
     (case g_decisions g of
        None \<Rightarrow> None
      | Some d \<Rightarrow> if d_mode d \<noteq> Off then Some (model_judge ask_model d) else None)"

text \<open>
  Asking the model about the lines of a cell before it runs: every line without an answer is put
  to the judge. The threads touch separate entries, so they are taken one after another.
\<close>

definition prejudge ::
    "(rstr \<Rightarrow> rstr \<Rightarrow> ('c::ord) command_judgement option) \<Rightarrow> rstr list \<Rightarrow> 'c gate \<Rightarrow> 'c gate" where
  "prejudge ask_model lines g =
     (case g_decisions g of
        None \<Rightarrow> g
      | Some d \<Rightarrow>
          if d_mode d = Off \<or> ladder_rung (g_ladder g) \<noteq> Auto then g
          else
            (let unanswered = filter (\<lambda>line. judged_answer (jm_vouched (g_memory g)) line = None) lines
             in g\<lparr>g_memory := foldl (\<lambda>jm line. snd (model_vouches_for ask_model d line jm))
                                (g_memory g) unanswered\<rparr>))"

definition MAX_APPROVAL_WAIT :: nat where
  "MAX_APPROVAL_WAIT = 10 * 60 * 1000"

text \<open>
  One turn of the waiting loop: what \<open>stopped()\<close> and the clock say before the receive, what the
  receive yields within its 20 ms, and what they say after it.
\<close>

datatype received = Got decision | Disconnected | TimedOut

record poll =
  poll_stopped :: bool
  poll_elapsed :: nat
  poll_received :: received
  poll_stopped_after :: bool
  poll_elapsed_after :: nat

definition apply_decision :: "action \<Rightarrow> decision \<Rightarrow> 'c gate \<Rightarrow> bool \<times> 'c gate" where
  "apply_decision a d g =
     (case d of
        AllowOnce \<Rightarrow> (True, g)
      | AllowForSession \<Rightarrow> (True, g\<lparr>g_remembered := insert a (g_remembered g)\<rparr>)
      | Refused \<Rightarrow> (False, g\<lparr>g_judged := judged_remember a False (g_judged g)\<rparr>)
      | Redirect text \<Rightarrow> (False, g\<lparr>g_redirects := (g_redirects g)(a \<mapsto> text),
                                  g_judged := judged_remember a False (g_judged g)\<rparr>))"

text \<open>The loop; \<open>None\<close> while the trace of polls has not ended the wait.\<close>

fun await_reply :: "action \<Rightarrow> poll list \<Rightarrow> 'c gate \<Rightarrow> (bool \<times> 'c gate) option" where
  "await_reply a [] g = None"
| "await_reply a (p # polls) g =
     (if poll_stopped p \<or> poll_elapsed p \<ge> MAX_APPROVAL_WAIT then Some (False, g)
      else (case poll_received p of
              Got d \<Rightarrow>
                if poll_stopped_after p \<or> poll_elapsed_after p \<ge> MAX_APPROVAL_WAIT then Some (False, g)
                else Some (apply_decision a d g)
            | Disconnected \<Rightarrow> Some (False, g)
            | TimedOut \<Rightarrow> await_reply a polls g))"

text \<open>
  The surroundings of one call of \<open>admit\<close>: its first and its second look at \<open>stopped()\<close>, whether
  the receiver of requests is still there, and the polls.
\<close>

record surroundings =
  stop_first :: bool
  stop_then :: bool
  receiver_alive :: bool
  polls :: "poll list"

definition admit ::
    "bool \<Rightarrow> ('u) unicode_scheme \<Rightarrow> (rstr \<Rightarrow> rstr \<Rightarrow> ('c::ord) command_judgement option) \<Rightarrow> surroundings
       \<Rightarrow> action \<Rightarrow> 'c gate \<Rightarrow> (bool \<times> 'c gate) option" where
  "admit windows uc ask_model env a g =
     (if stop_first env then Some (False, g)
      else (case judged_answer (g_judged g) a of
              Some answer \<Rightarrow> Some (answer \<and> \<not> stop_then env, g)
            | None \<Rightarrow>
                if a \<in> g_remembered g then Some (\<not> stop_then env, g)
                else
                  (case judge windows uc (ladder_rung (g_ladder g)) (act_tool a) (map_of (act_arguments a))
                          (g_read_only g) (gate_model ask_model g) (g_memory g) of
                     (verdict, memory) \<Rightarrow>
                       (let g' = g\<lparr>g_memory := memory\<rparr>
                        in case verdict of
                             Runs \<Rightarrow> Some (\<not> stop_then env, g')
                           | Refuse _ \<Rightarrow> Some (False, g'\<lparr>g_judged := judged_remember a False (g_judged g')\<rparr>)
                           | Ask _ \<Rightarrow>
                               if ladder_unattended (g_ladder g) then Some (\<not> stop_then env, g')
                               else if \<not> receiver_alive env then Some (False, g')
                               else await_reply a (polls env) g'))))"

section \<open>What the confirmation shows\<close>

text \<open>The formatting characters that reorder a line.\<close>

definition is_bidi :: "uchar \<Rightarrow> bool" where
  "is_bidi c \<longleftrightarrow> c = 0x61c \<or> c = 0x200e \<or> c = 0x200f \<or> 0x202a \<le> c \<and> c \<le> 0x202e \<or>
     0x2066 \<le> c \<and> c \<le> 0x2069"

definition escape_unicode :: "uchar \<Rightarrow> rstr" where
  "escape_unicode c = [92, 117, 123] @ hex c @ [125]"

datatype confirmation_text = Shown rstr | ExceedsLimit

record confirmation =
  conf_text :: confirmation_text
  conf_complete :: bool

definition escape_controls :: "rstr \<Rightarrow> rstr" where
  "escape_controls t =
     concat (map (\<lambda>c. if c \<noteq> 10 \<and> (is_control c \<or> is_bidi c) then escape_unicode c else [c]) t)"

text \<open>\<open>pretty\<close> is the JSON printer of the source, applied to the tool, the root and the arguments.\<close>

definition confirmation_new ::
    "(rstr \<Rightarrow> rstr \<Rightarrow> (rstr \<times> rstr) list \<Rightarrow> rstr) \<Rightarrow> rstr \<Rightarrow> rstr \<Rightarrow> (rstr \<times> rstr) list \<Rightarrow> confirmation" where
  "confirmation_new pretty tool root arguments =
     (let escaped = escape_controls (pretty tool root arguments);
          complete = byte_len escaped \<le> 16 * 1024
      in \<lparr>conf_text = (if complete then Shown escaped else ExceedsLimit), conf_complete = complete\<rparr>)"

section \<open>Sessions of a gate\<close>

datatype gate_op =
    DoAdmit surroundings action
  | DoPrejudge "rstr list"
  | DoMove rung nat
  | DoRedirect action

definition gate_step ::
    "bool \<Rightarrow> ('u) unicode_scheme \<Rightarrow> (rstr \<Rightarrow> rstr \<Rightarrow> ('c::ord) command_judgement option) \<Rightarrow> gate_op
       \<Rightarrow> 'c gate \<Rightarrow> 'c gate option" where
  "gate_step windows uc ask_model oper g =
     (case oper of
        DoAdmit env a \<Rightarrow> map_option snd (admit windows uc ask_model env a g)
      | DoPrejudge lines \<Rightarrow> Some (prejudge ask_model lines g)
      | DoMove r now \<Rightarrow> Some (g\<lparr>g_ladder := snd (ladder_set r now (g_ladder g))\<rparr>)
      | DoRedirect a \<Rightarrow> Some (snd (redirect_for a g)))"

fun gate_run ::
    "bool \<Rightarrow> ('u) unicode_scheme \<Rightarrow> (rstr \<Rightarrow> rstr \<Rightarrow> ('c::ord) command_judgement option) \<Rightarrow> gate_op list
       \<Rightarrow> 'c gate \<Rightarrow> 'c gate option" where
  "gate_run windows uc ask_model [] g = Some g"
| "gate_run windows uc ask_model (oper # ops) g =
     Option.bind (gate_step windows uc ask_model oper g) (gate_run windows uc ask_model ops)"

text \<open>
  What holds of every gate: only refusals are remembered as answers, an action is not both allowed
  for the session and refused, and every remembered word of the model is the model's word.
\<close>

definition word_of_model ::
    "(rstr \<Rightarrow> rstr \<Rightarrow> ('c::ord) command_judgement option) \<Rightarrow> 'c decisions \<Rightarrow> rstr \<Rightarrow> bool" where
  "word_of_model ask_model d line = permission_for (d_mode d) (ask_model (d_model d) line) (d_command_runs_above d)"

definition vouched_ok ::
    "(rstr \<Rightarrow> rstr \<Rightarrow> ('c::ord) command_judgement option) \<Rightarrow> 'c gate \<Rightarrow> bool" where
  "vouched_ok ask_model g \<longleftrightarrow>
     (\<forall>line b. jm_vouched (g_memory g) line = Some b \<longrightarrow>
        (\<exists>d. g_decisions g = Some d \<and> b = word_of_model ask_model d line))"

definition gate_inv ::
    "(rstr \<Rightarrow> rstr \<Rightarrow> ('c::ord) command_judgement option) \<Rightarrow> 'c gate \<Rightarrow> bool" where
  "gate_inv ask_model g \<longleftrightarrow>
     (\<forall>a. g_judged g a \<noteq> Some True) \<and> (\<forall>a\<in>g_remembered g. g_judged g a = None) \<and>
     vouched_ok ask_model g"

lemma permission_for_None [simp]: "\<not> permission_for mode None t"
  by (simp add: permission_for_def)

text \<open>The judge answers by the model's word, before and after it remembers it.\<close>

definition memory_ok ::
    "(rstr \<Rightarrow> rstr \<Rightarrow> ('c::ord) command_judgement option) \<Rightarrow> 'c decisions \<Rightarrow> judge_memory \<Rightarrow> bool" where
  "memory_ok ask_model d jm \<longleftrightarrow>
     (\<forall>line b. jm_vouched jm line = Some b \<longrightarrow> b = word_of_model ask_model d line)"

lemma model_vouches_for_word:
  assumes "memory_ok ask_model d jm"
  shows "fst (model_vouches_for ask_model d line jm) = word_of_model ask_model d line"
    and "memory_ok ask_model d (snd (model_vouches_for ask_model d line jm))"
  using assms
  by (auto simp: model_vouches_for_def memory_ok_def word_of_model_def judged_answer_def
      judged_remember_def Let_def split: option.splits if_splits)

lemma gate_inv_memory:
  "gate_inv ask_model g \<Longrightarrow> g_decisions g = Some d \<Longrightarrow> memory_ok ask_model d (g_memory g)"
  by (auto simp: gate_inv_def vouched_ok_def memory_ok_def)

lemma gate_inv_set_memory:
  assumes "gate_inv ask_model g" and "\<And>d. g_decisions g = Some d \<Longrightarrow> memory_ok ask_model d jm"
    and "g_decisions g = None \<Longrightarrow> jm = g_memory g"
  shows "gate_inv ask_model (g\<lparr>g_memory := jm\<rparr>)"
  using assms by (cases "g_decisions g") (auto simp: gate_inv_def vouched_ok_def memory_ok_def)

text \<open>What a judgement on the gate's model does to the judge's memory.\<close>

lemma judge_memory:
  assumes "gate_inv ask_model g"
    and "judge w uc r tool args extra (gate_model ask_model g) (g_memory g) = (v, jm)"
  shows "gate_inv ask_model (g\<lparr>g_memory := jm\<rparr>)"
proof (cases "g_decisions g")
  case None
  then have "jm = g_memory g"
    using assms(2)
    by (auto simp: judge_def gate_model_def judge_command_def Let_def
        split: rung.splits if_splits option.splits)
  then show ?thesis using assms(1) by simp
next
  case (Some d)
  note ok = gate_inv_memory [OF assms(1) Some]
  have "memory_ok ask_model d jm"
    using assms(2) ok model_vouches_for_word(2) [OF ok] Some
    by (auto simp: judge_def gate_model_def judge_command_def model_judge_def Let_def
        split: rung.splits if_splits option.splits prod.splits bool.splits) (metis snd_conv)+
  then show ?thesis
    using gate_inv_set_memory [OF assms(1)] Some by simp
qed

lemma apply_decision_inv:
  "gate_inv ask_model g \<Longrightarrow> a \<notin> g_remembered g \<Longrightarrow> g_judged g a = None \<Longrightarrow>
     gate_inv ask_model (snd (apply_decision a d g))"
  by (cases d) (auto simp: apply_decision_def gate_inv_def vouched_ok_def judged_remember_def)

lemma await_reply_cases:
  assumes "await_reply a ps g = Some (r, g')"
  obtains "\<not> r" "g' = g"
  | p d where "p \<in> set ps" "poll_received p = Got d" "\<not> poll_stopped_after p"
      "poll_elapsed_after p < MAX_APPROVAL_WAIT" "(r, g') = apply_decision a d g"
proof -
  have "\<not> r \<and> g' = g \<or> (\<exists>p\<in>set ps. \<exists>d. poll_received p = Got d \<and> \<not> poll_stopped_after p \<and>
      poll_elapsed_after p < MAX_APPROVAL_WAIT \<and> (r, g') = apply_decision a d g)"
    using assms
    by (induction ps) (auto simp: not_le split: if_splits received.splits)
  then show thesis using that by blast
qed

text \<open>How a call of \<open>admit\<close> that returned got its answer.\<close>

lemma admit_cases:
  assumes "admit w uc ask_model env a g = Some (r, g')"
  obtains (stopped) "stop_first env" "\<not> r" "g' = g"
  | (answered) b where "\<not> stop_first env" "g_judged g a = Some b" "r \<longleftrightarrow> b \<and> \<not> stop_then env" "g' = g"
  | (remembered) "\<not> stop_first env" "g_judged g a = None" "a \<in> g_remembered g"
      "r \<longleftrightarrow> \<not> stop_then env" "g' = g"
  | (judged) v jm where "\<not> stop_first env" "g_judged g a = None" "a \<notin> g_remembered g"
      "judge w uc (ladder_rung (g_ladder g)) (act_tool a) (map_of (act_arguments a)) (g_read_only g)
         (gate_model ask_model g) (g_memory g) = (v, jm)"
      "v = Runs \<or> (\<exists>why. v = Ask why) \<and> ladder_unattended (g_ladder g)"
      "r \<longleftrightarrow> \<not> stop_then env" "g' = g\<lparr>g_memory := jm\<rparr>"
  | (asked) why jm where "\<not> stop_first env" "g_judged g a = None" "a \<notin> g_remembered g"
      "judge w uc (ladder_rung (g_ladder g)) (act_tool a) (map_of (act_arguments a)) (g_read_only g)
         (gate_model ask_model g) (g_memory g) = (Ask why, jm)"
      "\<not> ladder_unattended (g_ladder g)"
      "if receiver_alive env then await_reply a (polls env) (g\<lparr>g_memory := jm\<rparr>) = Some (r, g')
       else \<not> r \<and> g' = g\<lparr>g_memory := jm\<rparr>"
proof -
  obtain v jm where j: "judge w uc (ladder_rung (g_ladder g)) (act_tool a) (map_of (act_arguments a))
      (g_read_only g) (gate_model ask_model g) (g_memory g) = (v, jm)"
    by fastforce
  have "v \<noteq> Refuse why" for why
    using judge_not_refuse [of w uc "ladder_rung (g_ladder g)" "act_tool a" "map_of (act_arguments a)"
        "g_read_only g" "gate_model ask_model g" "g_memory g" why] j by simp
  then show thesis
    using assms that j
    by (cases v) (auto simp: admit_def judged_answer_def Let_def split: if_splits option.splits)
qed

lemma admit_inv:
  assumes "gate_inv ask_model g" and "admit w uc ask_model env a g = Some (r, g')"
  shows "gate_inv ask_model g'"
  using assms(2)
proof (cases rule: admit_cases)
  case (asked why jm)
  have inv: "gate_inv ask_model (g\<lparr>g_memory := jm\<rparr>)"
    by (rule judge_memory [OF assms(1) asked(4)])
  show ?thesis
  proof (cases "receiver_alive env")
    case True
    then have "await_reply a (polls env) (g\<lparr>g_memory := jm\<rparr>) = Some (r, g')" using asked by simp
    then show ?thesis
    proof (cases rule: await_reply_cases)
      case (2 p d)
      have "g' = snd (apply_decision a d (g\<lparr>g_memory := jm\<rparr>))"
        using 2(5) by (simp add: prod_eq_iff)
      then show ?thesis
        using apply_decision_inv [OF inv, of a d] asked(2,3) by simp
    qed (use inv in simp)
  qed (use asked inv in simp)
next
  case (judged v jm)
  then show ?thesis
    using judge_memory [OF assms(1) judged(4)] by simp
qed (use assms(1) in auto)

text \<open>The parts of a gate that later operations only add to.\<close>

definition settled :: "'c gate \<Rightarrow> 'c gate \<Rightarrow> bool" where
  "settled g g' \<longleftrightarrow>
     (\<forall>a b. g_judged g a = Some b \<longrightarrow> g_judged g' a = Some b) \<and> g_remembered g \<subseteq> g_remembered g' \<and>
     g_decisions g' = g_decisions g"

lemma settled_refl [simp]: "settled g g"
  by (simp add: settled_def)

lemma settled_trans: "settled g g' \<Longrightarrow> settled g' g'' \<Longrightarrow> settled g g''"
  unfolding settled_def by auto

lemma apply_decision_settled: "settled g (snd (apply_decision a d g))"
  by (cases d) (auto simp: apply_decision_def settled_def judged_remember_def split: option.splits)

lemma settled_memory [simp]: "settled g (g\<lparr>g_memory := jm\<rparr>)"
  by (simp add: settled_def)

lemma settled_memory_left [simp]: "settled (g\<lparr>g_memory := jm\<rparr>) g' \<longleftrightarrow> settled g g'"
  by (simp add: settled_def)

lemma admit_settled:
  assumes "admit w uc ask_model env a g = Some (r, g')"
  shows "settled g g'"
  using assms
proof (cases rule: admit_cases)
  case (asked why jm)
  show ?thesis
  proof (cases "receiver_alive env")
    case True
    then have "await_reply a (polls env) (g\<lparr>g_memory := jm\<rparr>) = Some (r, g')" using asked by simp
    then show ?thesis
    proof (cases rule: await_reply_cases)
      case (2 p d)
      have "g' = snd (apply_decision a d (g\<lparr>g_memory := jm\<rparr>))"
        using 2(5) by (simp add: prod_eq_iff)
      then show ?thesis
        using apply_decision_settled [of "g\<lparr>g_memory := jm\<rparr>" a d] by simp
    qed simp
  qed (use asked in simp)
qed simp_all

lemma prejudge_memory:
  assumes "gate_inv ask_model g"
  shows "gate_inv ask_model (prejudge ask_model lines g)"
proof (cases "g_decisions g")
  case (Some d)
  have "memory_ok ask_model d jm \<Longrightarrow>
      memory_ok ask_model d (foldl (\<lambda>jm line. snd (model_vouches_for ask_model d line jm)) jm ls)" for jm ls
    by (induction ls arbitrary: jm) (simp_all add: model_vouches_for_word(2))
  then show ?thesis
    using Some assms gate_inv_memory [OF assms Some]
    by (auto simp: prejudge_def Let_def intro!: gate_inv_set_memory)
qed (use assms in \<open>simp add: prejudge_def\<close>)

lemma prejudge_settled: "settled g (prejudge ask_model lines g)"
  by (simp add: prejudge_def Let_def split: option.split)

lemma gate_step_inv:
  assumes "gate_inv ask_model g" and "gate_step w uc ask_model oper g = Some g'"
  shows "gate_inv ask_model g' \<and> settled g g'"
proof (cases oper)
  case (DoAdmit env a)
  then show ?thesis
    using assms admit_inv admit_settled by (fastforce simp: gate_step_def)
next
  case (DoPrejudge lines)
  then show ?thesis
    using assms prejudge_memory prejudge_settled by (auto simp: gate_step_def)
qed (use assms in \<open>auto simp: gate_step_def gate_inv_def vouched_ok_def settled_def redirect_for_def\<close>)

lemma gate_run_inv:
  assumes "gate_inv ask_model g" and "gate_run w uc ask_model ops g = Some g'"
  shows "gate_inv ask_model g' \<and> settled g g'"
  using assms
proof (induction ops arbitrary: g)
  case (Cons oper ops)
  then obtain g1 where "gate_step w uc ask_model oper g = Some g1" "gate_run w uc ask_model ops g1 = Some g'"
    by (auto simp: bind_eq_Some_conv)
  then show ?case
    using Cons gate_step_inv settled_trans by blast
qed simp

lemma gate_inv_new [simp]:
  "gate_inv ask_model (with_decisions model mode threshold (with_read_only patterns (gate_channel l)))"
  by (simp add: gate_inv_def vouched_ok_def with_decisions_def with_read_only_def gate_channel_def)

text \<open>A gate of a session: configured at its start, then used.\<close>

definition session_gate ::
    "bool \<Rightarrow> ('u) unicode_scheme \<Rightarrow> (rstr \<Rightarrow> rstr \<Rightarrow> ('c::ord) command_judgement option) \<Rightarrow> 'c gate \<Rightarrow> bool" where
  "session_gate w uc ask_model g \<longleftrightarrow>
     (\<exists>model mode threshold patterns l ops. gate_run w uc ask_model ops
        (with_decisions model mode threshold (with_read_only patterns (gate_channel l))) = Some g)"

lemma session_gate_inv: "session_gate w uc ask_model g \<Longrightarrow> gate_inv ask_model g"
  using gate_run_inv gate_inv_new unfolding session_gate_def by blast

text \<open>A wait that goes on has used up its polls, and each poll takes at least its 20 ms.\<close>

lemma await_reply_None:
  "await_reply a ps g = None \<Longrightarrow> p \<in> set ps \<Longrightarrow> poll_elapsed p < MAX_APPROVAL_WAIT"
  by (induction a ps g rule: await_reply.induct) (auto split: if_splits received.splits)

text \<open>The escaped text has no character that could reorder or hide what is shown.\<close>

lemma escape_unicode_range: "c \<in> set (escape_unicode x) \<Longrightarrow> 48 \<le> c \<and> c < 126"
  by (auto simp: escape_unicode_def dest: set_hex)

lemma printable: "48 \<le> c \<Longrightarrow> c < 126 \<Longrightarrow> \<not> is_control c \<and> \<not> is_bidi c"
  by (simp add: is_control_def is_bidi_def)

lemma escape_controls_clean:
  assumes "c \<in> set (escape_controls t)"
  shows "c = 10 \<or> \<not> is_control c \<and> \<not> is_bidi c"
proof -
  obtain x where "x \<in> set t"
    "c \<in> set (if x \<noteq> 10 \<and> (is_control x \<or> is_bidi x) then escape_unicode x else [x])"
    using assms by (auto simp: escape_controls_def)
  then show ?thesis
    using escape_unicode_range [of c x] printable [of c] by (simp split: if_splits)
qed

text \<open>What the judgement says does not depend on what the model was asked before.\<close>

lemma judge_verdict:
  assumes "gate_inv ask_model g"
  shows "fst (judge w uc r tool args extra (gate_model ask_model g) (g_memory g)) =
     fst (judge w uc r tool args extra
       (case g_decisions g of None \<Rightarrow> None
        | Some d \<Rightarrow> if d_mode d \<noteq> Off
            then Some \<lparr>vouches_for = (\<lambda>line s. (word_of_model ask_model d line, s)), judge_reason = (\<lambda>_. None)\<rparr>
            else None) ())"
proof (cases "g_decisions g")
  case None
  then show ?thesis
    by (auto simp: judge_def judge_command_def gate_model_def Let_def
        split: rung.splits option.splits)
next
  case (Some d)
  have "fst (model_vouches_for ask_model d line (g_memory g)) = word_of_model ask_model d line" for line
    by (rule model_vouches_for_word(1) [OF gate_inv_memory [OF assms Some]])
  then show ?thesis
    using Some
    by (auto simp: judge_def judge_command_def gate_model_def model_judge_def Let_def split_beta
        split: rung.splits option.splits)
      (auto split: prod.splits bool.splits)
qed

section \<open>Properties\<close>

text \<open>
  C8. A no stands for the session: once a person refused an exact action, with or without words,
  no later call of the gate admits that action, whatever was asked, allowed, moved on the ladder or
  vouched for in between; the refusal is answered without asking again.
\<close>

theorem refusal_stands:
  assumes "session_gate windows uc ask_model g" and "d = Refused \<or> (\<exists>words. d = Redirect words)"
    and "gate_run windows uc ask_model ops (snd (apply_decision a d g)) = Some g'"
    and "a \<notin> g_remembered g"
  shows "admit windows uc ask_model env a g' = Some (False, g')"
proof -
  have inv: "gate_inv ask_model g" by (rule session_gate_inv [OF assms(1)])
  have "gate_inv ask_model (snd (apply_decision a d g)) \<and> g_judged (snd (apply_decision a d g)) a = Some False"
    using assms(2,4) inv
    by (auto simp: apply_decision_def judged_remember_def gate_inv_def vouched_ok_def
        split: option.splits if_splits)
  then have "g_judged g' a = Some False"
    using gate_run_inv [OF _ assms(3)] by (auto simp: settled_def)
  then show ?thesis by (simp add: admit_def judged_answer_def)
qed

definition waiting_gate :: "nat gate" where
  "waiting_gate = with_decisions None Shadow 0 (with_read_only [] (gate_channel (ladder_new Manual)))"

definition some_action :: action where
  "some_action = \<lparr>act_tool = u ''bash'', act_root = u ''/proj'',
     act_arguments = [(u ''command'', u ''rm -rf x'')]\<rparr>"

lemma session_waiting_gate: "session_gate False empty_host (\<lambda>_ _. None) waiting_gate"
  unfolding session_gate_def waiting_gate_def by (metis gate_run.simps(1))

definition no_surroundings :: surroundings where
  "no_surroundings = \<lparr>stop_first = False, stop_then = False, receiver_alive = True, polls = []\<rparr>"

lemma waiting_gate_empty [simp]: "g_remembered waiting_gate = {}" "g_judged waiting_gate = Map.empty"
  by (simp_all add: waiting_gate_def with_decisions_def with_read_only_def gate_channel_def)

theorem refusal_stands_witness:
  "\<exists>g'. gate_run False empty_host (\<lambda>_ _. None) [DoMove Full 7]
      (snd (apply_decision some_action Refused waiting_gate)) = Some g' \<and>
     admit False empty_host (\<lambda>_ _. None) no_surroundings some_action g' = Some (False, g')"
proof -
  obtain g' where r: "gate_run False empty_host (\<lambda>_ _. None) [DoMove Full 7]
      (snd (apply_decision some_action Refused waiting_gate)) = Some g'"
    by (simp add: gate_step_def)
  show ?thesis
    using refusal_stands [OF session_waiting_gate _ r, of no_surroundings] r by simp
qed

text \<open>
  A yes for the session stands as well: once an action is allowed for the session, every later
  call for it is admitted without asking (unless the call has been stopped), on every rung and
  after anything else that happened to the gate.
\<close>

theorem session_allowance_stands:
  assumes "session_gate windows uc ask_model g" and "g_judged g a = None"
    and "gate_run windows uc ask_model ops (snd (apply_decision a AllowForSession g)) = Some g'"
  shows "admit windows uc ask_model env a g' = Some (\<not> stop_first env \<and> \<not> stop_then env, g')"
proof -
  have "gate_inv ask_model (snd (apply_decision a AllowForSession g))"
    using session_gate_inv [OF assms(1)] assms(2)
    by (auto simp: apply_decision_def gate_inv_def vouched_ok_def)
  then have "gate_inv ask_model g' \<and> settled (snd (apply_decision a AllowForSession g)) g'"
    by (rule gate_run_inv [OF _ assms(3)])
  then have "a \<in> g_remembered g'" "g_judged g' a = None"
    by (auto simp: settled_def apply_decision_def gate_inv_def)
  then show ?thesis by (simp add: admit_def judged_answer_def)
qed

theorem session_allowance_stands_witness:
  "\<exists>g'. gate_run False empty_host (\<lambda>_ _. None) [DoMove AcceptEdits 7, DoPrejudge [u ''rm -rf x'']]
      (snd (apply_decision some_action AllowForSession waiting_gate)) = Some g' \<and>
     admit False empty_host (\<lambda>_ _. None) no_surroundings some_action g' = Some (True, g')"
proof -
  obtain g' where r: "gate_run False empty_host (\<lambda>_ _. None) [DoMove AcceptEdits 7, DoPrejudge [u ''rm -rf x'']]
      (snd (apply_decision some_action AllowForSession waiting_gate)) = Some g'"
    by (simp add: gate_step_def)
  show ?thesis
    using session_allowance_stands [OF session_waiting_gate _ r, of no_surroundings] r
    by (simp add: no_surroundings_def)
qed

text \<open>
  C9. What lets a call through: \<open>admit\<close> says yes only if the call was not stopped, no refusal is
  remembered for it, and either it was allowed for the session, or the rung runs it, or nobody is
  there to be asked, or a person's yes arrived in a poll after which the call was still not stopped
  and the ten minutes had not passed.
\<close>

theorem admitted_by_someone:
  assumes "session_gate windows uc ask_model g" and "admit windows uc ask_model env a g = Some (True, g')"
  shows "\<not> stop_first env \<and> g_judged g a = None \<and>
    (a \<in> g_remembered g \<and> \<not> stop_then env \<or>
     fst (judge windows uc (ladder_rung (g_ladder g)) (act_tool a) (map_of (act_arguments a))
       (g_read_only g) (gate_model ask_model g) (g_memory g)) = Runs \<and> \<not> stop_then env \<or>
     ladder_unattended (g_ladder g) \<and> \<not> stop_then env \<or>
     (\<exists>p\<in>set (polls env). (poll_received p = Got AllowOnce \<or> poll_received p = Got AllowForSession) \<and>
        \<not> poll_stopped_after p \<and> poll_elapsed_after p < MAX_APPROVAL_WAIT))"
  using assms(2)
proof (cases rule: admit_cases)
  case (asked why jm)
  then have "await_reply a (polls env) (g\<lparr>g_memory := jm\<rparr>) = Some (True, g')"
    by (simp split: if_splits)
  then show ?thesis
  proof (cases rule: await_reply_cases)
    case (2 p d)
    moreover have "d = AllowOnce \<or> d = AllowForSession"
      using 2 by (cases d) (auto simp: apply_decision_def)
    ultimately show ?thesis using asked by auto
  qed simp
next
  case (answered b)
  then show ?thesis using session_gate_inv [OF assms(1)] by (auto simp: gate_inv_def)
qed auto

definition one_yes :: surroundings where
  "one_yes = \<lparr>stop_first = False, stop_then = True, receiver_alive = True,
     polls = [\<lparr>poll_stopped = False, poll_elapsed = 40, poll_received = Got AllowOnce,
       poll_stopped_after = False, poll_elapsed_after = 41\<rparr>]\<rparr>"

lemma one_yes_simps:
  "await_reply a (polls one_yes) g = Some (True, g)" "\<not> stop_first one_yes" "receiver_alive one_yes"
  by (simp_all add: one_yes_def apply_decision_def MAX_APPROVAL_WAIT_def)

lemma one_yes_admitted:
  "ladder_rung (g_ladder g) = Manual \<Longrightarrow> \<not> ladder_unattended (g_ladder g) \<Longrightarrow> g_judged g = Map.empty \<Longrightarrow>
     g_remembered g = {} \<Longrightarrow> admit w uc ask_model one_yes a g = Some (True, g)"
  by (simp add: admit_def judged_answer_def judge_rungs one_yes_simps)

theorem admitted_by_someone_witness:
  "\<not> stop_first one_yes \<and> g_judged waiting_gate some_action = None"
proof -
  have adm: "admit False empty_host (\<lambda>_ _. None) one_yes some_action waiting_gate =
      Some (True, waiting_gate)"
    by (rule one_yes_admitted) (simp_all add: waiting_gate_def with_decisions_def with_read_only_def
        gate_channel_def ladder_new_def ladder_rung_def)
  show ?thesis
    using admitted_by_someone [OF session_waiting_gate adm] by (elim conjE, intro conjI)
qed

text \<open>
  Asking the model ahead of a cell answers nothing the gate would not have answered the same
  way: after \<open>prejudge\<close>, on any lines, the judgement of every call is the one it would have got
  without it, and the memory of refusals and allowances is untouched.
\<close>

theorem prejudge_changes_no_answer:
  assumes "session_gate windows uc ask_model g"
  shows "fst (judge windows uc r tool arguments extra
            (gate_model ask_model (prejudge ask_model lines g)) (g_memory (prejudge ask_model lines g))) =
         fst (judge windows uc r tool arguments extra (gate_model ask_model g) (g_memory g)) \<and>
         g_judged (prejudge ask_model lines g) = g_judged g \<and>
         g_remembered (prejudge ask_model lines g) = g_remembered g"
proof -
  have inv: "gate_inv ask_model g" by (rule session_gate_inv [OF assms])
  have same: "g_decisions (prejudge ask_model lines g) = g_decisions g"
    "g_judged (prejudge ask_model lines g) = g_judged g"
    "g_remembered (prejudge ask_model lines g) = g_remembered g"
    by (simp_all add: prejudge_def Let_def split: option.split)
  show ?thesis
    by (simp only: judge_verdict [OF prejudge_memory [OF inv]] judge_verdict [OF inv] same simp_thms)
qed

theorem prejudge_changes_no_answer_witness:
  "g_remembered (prejudge (\<lambda>_ _. None) [u ''make''] waiting_gate) = g_remembered waiting_gate"
  using prejudge_changes_no_answer [OF session_waiting_gate] by blast

text \<open>
  C10. The wait for a person ends: if the clock advances by at least the receive's 20 ms from one
  poll to the next, no wait outlives the polls of ten minutes.
\<close>

theorem wait_ends:
  assumes "\<forall>i<length ps. poll_elapsed (ps ! i) \<ge> 20 * i" and "length ps > 30000"
  shows "\<exists>r g'. await_reply a ps g = Some (r, g')"
proof (rule ccontr)
  assume "\<not> ?thesis"
  then have "await_reply a ps g = None" by (cases "await_reply a ps g") auto
  then have "poll_elapsed (ps ! 30000) < MAX_APPROVAL_WAIT"
    using assms(2) await_reply_None by (metis nth_mem)
  moreover have "poll_elapsed (ps ! 30000) \<ge> 20 * 30000"
    using assms by blast
  ultimately show False by (simp add: MAX_APPROVAL_WAIT_def)
qed

definition idle_poll :: "nat \<Rightarrow> poll" where
  "idle_poll i = \<lparr>poll_stopped = False, poll_elapsed = 20 * i, poll_received = TimedOut,
     poll_stopped_after = False, poll_elapsed_after = 20 * i + 19\<rparr>"

lemma idle_polls: "\<forall>i<length (map idle_poll [0..<n]). poll_elapsed (map idle_poll [0..<n] ! i) \<ge> 20 * i"
  by (simp add: idle_poll_def)

theorem wait_ends_witness:
  "\<exists>r g'. await_reply some_action (map idle_poll [0..<30001]) waiting_gate = Some (r, g')"
  by (rule wait_ends [OF idle_polls], unfold length_map length_upt) simp

text \<open>
  The confirmation a person reads is bounded and honest: it is at most 16 KiB of text in which
  every control character other than the line feed and every character that reorders text has been
  escaped, or it is the sentence that disables approval.
\<close>

theorem confirmation_is_bounded:
  "case conf_text (confirmation_new pretty tool root arguments) of
     ExceedsLimit \<Rightarrow> \<not> conf_complete (confirmation_new pretty tool root arguments)
   | Shown t \<Rightarrow> conf_complete (confirmation_new pretty tool root arguments) \<and> byte_len t \<le> 16384 \<and>
       list_all (\<lambda>c. c = 10 \<or> \<not> is_control c \<and> \<not> is_bidi c) t"
  using escape_controls_clean
  by (auto simp: confirmation_new_def Let_def list_all_iff)

text \<open>
  A pause inside a pause loses time: the inner pause restarts the clock and its guard ends the
  span, so of a wait from 0 to 30 with another from 10 to 20 inside it only 10 are counted.
\<close>

theorem nested_pause_loses_time:
  "wait_elapsed 30 (wait_resume 30 (wait_resume 20 (wait_pause 10 (wait_pause 0
     \<lparr>accumulated = 0, since = None\<rparr>)))) = 10"
  by (simp add: wait_elapsed_def wait_resume_def wait_pause_def)

end
