(* ===== verification/Exact_Edit.thy ===== *)
theory Exact_Edit
  imports Profile Utf8 Text_Format "HOL-Library.Word" "HOL-Library.Product_Lexorder"
begin

text \<open>
  Version-bound exact replacement, \<open>crates/pane/src/tools/exact_edit.rs\<close>: one file is read once,
  compared with the version the caller saw, every hunk is located in that one reading, and the
  result is installed by renaming a temporary file. The file system is a map from resolved paths
  to files; what other processes and failing calls do to an edit is its \<open>edit_env\<close>. Offsets count
  code points here where the source counts bytes; both only ever cut the text they were found in.
  The digest is a parameter.
\<close>

section \<open>Results and refusals\<close>

record changed_lines =
  cl_start :: nat
  cl_before :: nat
  cl_after :: nat

record edit_result =
  er_path :: npath
  er_before_sha256 :: rstr
  er_after_sha256 :: rstr
  er_changed_lines :: changed_lines
  er_hunks :: "changed_lines list"

datatype near_cause =
    CrlfEndings | LfEndings | TrailingWhitespace | Indentation | BothWhitespace

record near_miss =
  nm_cause :: near_cause
  nm_line :: nat

datatype no_match =
    Missing "near_miss option"
  | Ambiguous "nat list" nat bool

text \<open>Each constructor is one refusal of the source; its kind is \<open>edit_kind\<close>.\<close>

datatype edit_error =
    EmptyAnchor "nat option"
  | NoChange "nat option"
  | NoHunks
  | HunkCountMismatch nat nat
  | NotAnAnchor "nat option" no_match
  | OverlappingHunks nat nat nat
  | MalformedSha256
  | EditDenied permission_denied
  | ResolvedApart
  | CouldNotInspect
  | NotARegularFile
  | TargetTooLarge
  | CouldNotRead
  | TargetNotUtf8
  | StaleHash
  | ResultTooLarge
  | NoParent
  | CouldNotCreateTemp
  | CouldNotSetPermissions
  | CouldNotWriteTemp
  | CouldNotRecheck
  | ChangedMeanwhile
  | CouldNotInstall

definition edit_kind :: "edit_error \<Rightarrow> rstr" where
  "edit_kind e =
     (case e of
        NoHunks \<Rightarrow> u ''hunk_count_mismatch''
      | HunkCountMismatch _ _ \<Rightarrow> u ''hunk_count_mismatch''
      | NotAnAnchor _ (Missing _) \<Rightarrow> u ''missing_match''
      | NotAnAnchor _ (Ambiguous _ _ _) \<Rightarrow> u ''ambiguous_match''
      | OverlappingHunks _ _ _ \<Rightarrow> u ''overlapping_hunks''
      | EditDenied _ \<Rightarrow> u ''permission_denied''
      | StaleHash \<Rightarrow> u ''stale_hash''
      | CouldNotInstall \<Rightarrow> u ''io''
      | _ \<Rightarrow> u ''edit_refused'')"

section \<open>Searching\<close>

text \<open>\<open>match_indices\<close>: the matches from left to right, none overlapping the one before it.\<close>

function match_indices :: "nat \<Rightarrow> rstr \<Rightarrow> rstr \<Rightarrow> nat list" where
  "match_indices i needle hay =
     (if needle = [] then [i..<Suc (i + length hay)]
      else if hay = [] then []
      else if starts_with hay needle
      then i # match_indices (i + length needle) needle (drop (length needle) hay)
      else match_indices (Suc i) needle (tl hay))"
  by pat_completeness auto
termination
  by (relation "measure (\<lambda>(i, needle, hay). length hay)") auto

declare match_indices.simps [simp del]

definition find_sub :: "rstr \<Rightarrow> rstr \<Rightarrow> nat option" where
  "find_sub hay needle = (case match_indices 0 needle hay of [] \<Rightarrow> None | i # _ \<Rightarrow> Some i)"

definition line_at :: "rstr \<Rightarrow> nat \<Rightarrow> nat" where
  "line_at before offset = length (filter (\<lambda>c. c = 10) (take offset before)) + 1"

record lines =
  ln_text :: rstr
  ln_counted_to :: nat
  ln_line :: nat

definition lines_new :: "rstr \<Rightarrow> lines" where
  "lines_new t = \<lparr>ln_text = t, ln_counted_to = 0, ln_line = 1\<rparr>"

definition lines_at :: "nat \<Rightarrow> lines \<Rightarrow> nat \<times> lines" where
  "lines_at offset w =
     (let line = ln_line w + length (filter (\<lambda>c. c = 10)
            (drop (ln_counted_to w) (take offset (ln_text w))))
      in (line, w\<lparr>ln_line := line, ln_counted_to := offset\<rparr>))"

definition line_count :: "rstr \<Rightarrow> nat" where
  "line_count t = length (filter (\<lambda>c. c = 10) t) + (if t = [] then 0 else 1)"

definition changed_lines_of :: "rstr \<Rightarrow> nat \<Rightarrow> rstr \<Rightarrow> rstr \<Rightarrow> changed_lines" where
  "changed_lines_of before offset expected replacement =
     \<lparr>cl_start = line_at before offset, cl_before = line_count expected,
      cl_after = line_count replacement\<rparr>"

section \<open>Near misses\<close>

text \<open>\<open>replace\<close> on a nonempty pattern.\<close>

function replace_all :: "rstr \<Rightarrow> rstr \<Rightarrow> rstr \<Rightarrow> rstr" where
  "replace_all needle by_text hay =
     (if needle = [] \<or> hay = [] then hay
      else if starts_with hay needle
      then by_text @ replace_all needle by_text (drop (length needle) hay)
      else hd hay # replace_all needle by_text (tl hay))"
  by pat_completeness auto
termination
  by (relation "measure (\<lambda>(needle, by_text, hay). length hay)") auto

declare replace_all.simps [simp del]

definition line_ending_miss :: "rstr \<Rightarrow> rstr \<Rightarrow> near_miss option" where
  "line_ending_miss before expected =
     (case (if 10 \<in> set expected \<and> 13 \<notin> set expected
            then find_sub before (replace_all [10] [13, 10] expected) else None) of
        Some offset \<Rightarrow> Some \<lparr>nm_cause = CrlfEndings, nm_line = line_at before offset\<rparr>
      | None \<Rightarrow>
          (case (if has_sub expected [13, 10]
                 then find_sub before (replace_all [13, 10] [10] expected) else None) of
             Some offset \<Rightarrow> Some \<lparr>nm_cause = LfEndings, nm_line = line_at before offset\<rparr>
           | None \<Rightarrow> None))"

text \<open>\<open>str::lines\<close>: cut at line feeds, a carriage return before one belongs to the ending.\<close>

definition chomp_cr :: "rstr \<Rightarrow> rstr" where
  "chomp_cr l = (if l \<noteq> [] \<and> last l = 13 then butlast l else l)"

definition rust_lines :: "rstr \<Rightarrow> rstr list" where
  "rust_lines t =
     (let parts = split_on (\<lambda>c. c = 10) t
      in map chomp_cr (butlast parts) @ (if last parts = [] then [] else [last parts]))"

definition SHOWN_MATCHES :: nat where "SHOWN_MATCHES = 5"
definition COUNTED_MATCHES :: nat where "COUNTED_MATCHES = 1000"
definition PROBE_LINES :: nat where "PROBE_LINES = 40"
definition PROBE_CANDIDATES :: nat where "PROBE_CANDIDATES = 64"

definition NORMALISERS :: "(near_cause \<times> (rstr \<Rightarrow> rstr)) list" where
  "NORMALISERS = [(TrailingWhitespace, trim_end), (Indentation, trim_start), (BothWhitespace, trim)]"

text \<open>The inner loop over the start lines of one normaliser; \<open>tried\<close> counts the candidates.\<close>

fun probe_starts ::
    "near_cause \<Rightarrow> (rstr \<Rightarrow> rstr) \<Rightarrow> rstr list \<Rightarrow> rstr list \<Rightarrow> nat list \<Rightarrow> nat \<Rightarrow> near_miss option" where
  "probe_starts cause normalise wanted have [] tried = None"
| "probe_starts cause normalise wanted have (start # starts) tried =
     (if normalise (have ! start) \<noteq> normalise (hd wanted)
      then probe_starts cause normalise wanted have starts tried
      else if Suc tried > PROBE_CANDIDATES then None
      else if list_all (\<lambda>(want, has). normalise want = normalise has) (zip wanted (drop start have))
      then Some \<lparr>nm_cause = cause, nm_line = start + 1\<rparr>
      else probe_starts cause normalise wanted have starts (Suc tried))"

definition whitespace_miss :: "rstr \<Rightarrow> rstr \<Rightarrow> near_miss option" where
  "whitespace_miss before expected =
     (let wanted = rust_lines expected;
          have = rust_lines before
      in if wanted = [] \<or> length wanted > PROBE_LINES then None
         else if length have < length wanted then None
         else find_map (\<lambda>(cause, normalise).
                probe_starts cause normalise wanted have [0..<Suc (length have - length wanted)] 0)
              NORMALISERS)"

definition near_miss_of :: "rstr \<Rightarrow> rstr \<Rightarrow> near_miss option" where
  "near_miss_of before expected =
     (case line_ending_miss before expected of
        Some m \<Rightarrow> Some m
      | None \<Rightarrow> whitespace_miss before expected)"

section \<open>Locating a hunk\<close>

text \<open>The counting loop after the second match.\<close>

fun count_matches :: "nat list \<Rightarrow> lines \<Rightarrow> nat list \<Rightarrow> nat \<Rightarrow> no_match" where
  "count_matches [] walk named seen = Ambiguous named seen False"
| "count_matches (offset # offsets) walk named seen =
     (case (if length named < SHOWN_MATCHES
            then (case lines_at offset walk of (line, walk') \<Rightarrow> (walk', named @ [line]))
            else (walk, named)) of
        (walk', named') \<Rightarrow>
          if Suc seen = COUNTED_MATCHES then Ambiguous named' (Suc seen) True
          else count_matches offsets walk' named' (Suc seen))"

definition locate :: "rstr \<Rightarrow> rstr \<Rightarrow> no_match + nat" where
  "locate before expected =
     (case match_indices 0 expected before of
        [] \<Rightarrow> Inl (Missing (near_miss_of before expected))
      | [first] \<Rightarrow> Inr first
      | first # second # rest \<Rightarrow>
          (case lines_at first (lines_new before) of (l1, w1) \<Rightarrow>
             (case lines_at second w1 of (l2, w2) \<Rightarrow>
                Inl (count_matches rest w2 [l1, l2] 2))))"

section \<open>The file system of an edit\<close>

datatype node = Regular (node_bytes: bytes) (node_mode: nat) | Special

record disk =
  files :: "npath \<rightharpoonup> node"
  temp_sequence :: "64 word"

text \<open>
  What happens around the calls of one edit: which of them fail for reasons of their own, and what
  other processes do to the files in between.
\<close>

record edit_env =
  inspect_fails :: bool
  read_fails :: bool
  create_fails :: bool
  mode_fails :: bool
  write_fails :: bool
  recheck_fails :: bool
  rename_fails :: bool
  pid :: nat
  others_before_read :: "(npath \<rightharpoonup> node) \<Rightarrow> npath \<rightharpoonup> node"
  others_before_recheck :: "(npath \<rightharpoonup> node) \<Rightarrow> npath \<rightharpoonup> node"

definition MAX_FILE_BYTES :: nat where
  "MAX_FILE_BYTES = 16 * 1024 * 1024"

record source =
  src_readable :: npath
  src_mode :: nat
  src_before :: rstr
  src_before_hash :: rstr

definition is_hex_digit :: "uchar \<Rightarrow> bool" where
  "is_hex_digit c \<longleftrightarrow> is_ascii_digit c \<or> 97 \<le> c \<and> c \<le> 102 \<or> 65 \<le> c \<and> c \<le> 70"

definition open_source ::
    "('a) host_scheme \<Rightarrow> profile \<Rightarrow> (bytes \<Rightarrow> rstr) \<Rightarrow> edit_env \<Rightarrow> rstr \<Rightarrow> rstr \<Rightarrow> disk \<Rightarrow>
       (edit_error + source) \<times> disk" where
  "open_source h p sha256 env path expected_sha256 d =
     (if byte_len expected_sha256 \<noteq> 64 \<or> \<not> list_all is_hex_digit expected_sha256
      then (Inl MalformedSha256, d)
      else (case check h p (u ''edit'') Read path of
        Inl e \<Rightarrow> (Inl (EditDenied e), d)
      | Inr readable \<Rightarrow>
      (case check h p (u ''edit'') Write path of
        Inl e \<Rightarrow> (Inl (EditDenied e), d)
      | Inr writable \<Rightarrow>
      if readable \<noteq> writable then (Inl ResolvedApart, d)
      else (case (if inspect_fails env then None else files d readable) of
        None \<Rightarrow> (Inl CouldNotInspect, d)
      | Some Special \<Rightarrow> (Inl NotARegularFile, d)
      | Some (Regular inspected mode) \<Rightarrow>
      if length inspected > MAX_FILE_BYTES then (Inl TargetTooLarge, d)
      else
        (let d1 = d\<lparr>files := others_before_read env (files d)\<rparr>
         in case (if read_fails env then None else files d1 readable) of
              Some (Regular before_bytes _) \<Rightarrow>
                if length before_bytes > MAX_FILE_BYTES then (Inl TargetTooLarge, d1)
                else (case utf8_decode before_bytes of
                  None \<Rightarrow> (Inl TargetNotUtf8, d1)
                | Some before \<Rightarrow>
                  if \<not> eq_ignore_ascii_case (sha256 (utf8_encode before)) expected_sha256
                  then (Inl StaleHash, d1)
                  else (Inr \<lparr>src_readable = readable, src_mode = mode, src_before = before,
                             src_before_hash = sha256 (utf8_encode before)\<rparr>, d1))
            | _ \<Rightarrow> (Inl CouldNotRead, d1))))))"

definition temp_name :: "rstr \<Rightarrow> nat \<Rightarrow> 64 word \<Rightarrow> rstr" where
  "temp_name name process sequence =
     u ''.'' @ name @ u ''.pane-edit-'' @ decimal process @ u ''-'' @ decimal (unat sequence)"

text \<open>Removing a file; what is no regular file stays.\<close>

definition remove_file :: "npath \<Rightarrow> (npath \<rightharpoonup> node) \<Rightarrow> npath \<rightharpoonup> node" where
  "remove_file q fs = (case fs q of Some (Regular _ _) \<Rightarrow> fs(q := None) | _ \<Rightarrow> fs)"

text \<open>
  The closure that writes the temporary file and renames it over the target; on an error the
  temporary name is removed, also when it is a file the edit did not create.
\<close>

definition write_and_install ::
    "(bytes \<Rightarrow> rstr) \<Rightarrow> edit_env \<Rightarrow> source \<Rightarrow> npath \<Rightarrow> rstr \<Rightarrow> (npath \<rightharpoonup> node) \<Rightarrow>
       edit_error option \<times> (npath \<rightharpoonup> node)" where
  "write_and_install sha256 env source temp after fs =
     (if create_fails env \<or> fs temp \<noteq> None then (Some CouldNotCreateTemp, remove_file temp fs)
      else if mode_fails env then (Some CouldNotSetPermissions, fs)
      else if write_fails env then (Some CouldNotWriteTemp, fs)
      else
        (let written = fs(temp \<mapsto> Regular (utf8_encode after) (src_mode source));
             fs1 = others_before_recheck env written
         in case (if recheck_fails env then None else fs1 (src_readable source)) of
              Some (Regular latest _) \<Rightarrow>
                if sha256 latest \<noteq> src_before_hash source
                then (Some ChangedMeanwhile, remove_file temp fs1)
                else if rename_fails env \<or> fs1 temp = None
                then (Some CouldNotInstall, remove_file temp fs1)
                else (None, fs1(src_readable source := fs1 temp, temp := None))
            | _ \<Rightarrow> (Some CouldNotRecheck, remove_file temp fs1)))"

definition parent_of :: "npath \<Rightarrow> npath option" where
  "parent_of p = (if np_names p = [] then None else Some (NPath (np_abs p) (butlast (np_names p))))"

definition finish ::
    "(bytes \<Rightarrow> rstr) \<Rightarrow> edit_env \<Rightarrow> source \<Rightarrow> rstr \<Rightarrow> changed_lines list \<Rightarrow> disk \<Rightarrow>
       (edit_error + edit_result) \<times> disk" where
  "finish sha256 env source after hunks d =
     (if byte_len after > MAX_FILE_BYTES then (Inl ResultTooLarge, d)
      else (case (parent_of (src_readable source), file_name (src_readable source)) of
        (Some parent, Some name) \<Rightarrow>
          (let temp = push parent (Normal (temp_name name (pid env) (temp_sequence d)))
           in case write_and_install sha256 env source temp after (files d) of
                (Some e, fs) \<Rightarrow> (Inl e, d\<lparr>files := fs, temp_sequence := temp_sequence d + 1\<rparr>)
              | (None, fs) \<Rightarrow>
                  (Inr \<lparr>er_path = src_readable source, er_before_sha256 = src_before_hash source,
                        er_after_sha256 = sha256 (utf8_encode after), er_changed_lines = hd hunks,
                        er_hunks = hunks\<rparr>,
                   d\<lparr>files := fs, temp_sequence := temp_sequence d + 1\<rparr>))
      | _ \<Rightarrow> (Inl NoParent, d)))"

section \<open>One replacement\<close>

definition apply_edit ::
    "('a) host_scheme \<Rightarrow> profile \<Rightarrow> (bytes \<Rightarrow> rstr) \<Rightarrow> edit_env \<Rightarrow> rstr \<Rightarrow> rstr \<Rightarrow> rstr \<Rightarrow> rstr \<Rightarrow>
       disk \<Rightarrow> (edit_error + edit_result) \<times> disk" where
  "apply_edit h p sha256 env path expected_sha256 expected replacement d =
     (if expected = [] then (Inl (EmptyAnchor None), d)
      else if expected = replacement then (Inl (NoChange None), d)
      else (case open_source h p sha256 env path expected_sha256 d of
        (Inl e, d1) \<Rightarrow> (Inl e, d1)
      | (Inr source, d1) \<Rightarrow>
      (case locate (src_before source) expected of
        Inl reason \<Rightarrow> (Inl (NotAnAnchor None reason), d1)
      | Inr offset \<Rightarrow>
          finish sha256 env source
            (take offset (src_before source) @ replacement @
             drop (offset + length expected) (src_before source))
            [changed_lines_of (src_before source) offset expected replacement] d1)))"

section \<open>Several replacements\<close>

fun check_hunks :: "rstr list \<Rightarrow> rstr list \<Rightarrow> nat \<Rightarrow> edit_error option" where
  "check_hunks (old # olds) (replacement # replacements) index =
     (if old = [] then Some (EmptyAnchor (Some index))
      else if old = replacement then Some (NoChange (Some index))
      else check_hunks olds replacements (Suc index))"
| "check_hunks _ _ index = None"

fun locate_hunks :: "rstr \<Rightarrow> rstr list \<Rightarrow> nat \<Rightarrow> edit_error + (nat \<times> nat) list" where
  "locate_hunks before [] index = Inr []"
| "locate_hunks before (old # olds) index =
     (case locate before old of
        Inl reason \<Rightarrow> Inl (NotAnAnchor (Some index) reason)
      | Inr offset \<Rightarrow> map_sum id ((#) (offset, index)) (locate_hunks before olds (Suc index)))"

text \<open>The first two neighbours of the ordered hunks whose matches overlap.\<close>

fun overlap :: "rstr \<Rightarrow> rstr list \<Rightarrow> (nat \<times> nat) list \<Rightarrow> edit_error option" where
  "overlap before olds (a # b # rest) =
     (if fst a + length (olds ! snd a) > fst b
      then Some (OverlappingHunks (snd a) (snd b) (line_at before (fst b)))
      else overlap before olds (b # rest))"
| "overlap before olds _ = None"

fun splice :: "rstr \<Rightarrow> rstr list \<Rightarrow> rstr list \<Rightarrow> (nat \<times> nat) list \<Rightarrow> nat \<Rightarrow> rstr" where
  "splice before olds replacements [] cursor = drop cursor before"
| "splice before olds replacements ((offset, index) # rest) cursor =
     take (offset - cursor) (drop cursor before) @ replacements ! index @
     splice before olds replacements rest (offset + length (olds ! index))"

definition apply_hunks ::
    "('a) host_scheme \<Rightarrow> profile \<Rightarrow> (bytes \<Rightarrow> rstr) \<Rightarrow> edit_env \<Rightarrow> rstr \<Rightarrow> rstr \<Rightarrow> rstr list \<Rightarrow>
       rstr list \<Rightarrow> disk \<Rightarrow> (edit_error + edit_result) \<times> disk" where
  "apply_hunks h p sha256 env path expected_sha256 olds replacements d =
     (if olds = [] then (Inl NoHunks, d)
      else if length olds \<noteq> length replacements
      then (Inl (HunkCountMismatch (length olds) (length replacements)), d)
      else (case check_hunks olds replacements 0 of
        Some e \<Rightarrow> (Inl e, d)
      | None \<Rightarrow>
      (case open_source h p sha256 env path expected_sha256 d of
        (Inl e, d1) \<Rightarrow> (Inl e, d1)
      | (Inr source, d1) \<Rightarrow>
      (case locate_hunks (src_before source) olds 0 of
        Inl e \<Rightarrow> (Inl e, d1)
      | Inr located \<Rightarrow>
          (let ordered = sort located
           in case overlap (src_before source) olds ordered of
                Some e \<Rightarrow> (Inl e, d1)
              | None \<Rightarrow>
                  finish sha256 env source
                    (splice (src_before source) olds replacements ordered 0)
                    (map (\<lambda>(offset, index). changed_lines_of (src_before source) offset
                                             (olds ! index) (replacements ! index)) located) d1)))))"

section \<open>Lemmas\<close>

lemma match_indices_simps:
  "needle \<noteq> [] \<Longrightarrow> match_indices i needle [] = []"
  "needle \<noteq> [] \<Longrightarrow> match_indices i needle (c # hay) =
     (if starts_with (c # hay) needle
      then i # match_indices (i + length needle) needle (drop (length needle) (c # hay))
      else match_indices (Suc i) needle hay)"
  by (simp_all add: match_indices.simps [of _ _ "[]"] match_indices.simps [of _ _ "c # hay"])

lemma match_indices_occurs:
  "needle \<noteq> [] \<Longrightarrow> j \<in> set (match_indices i needle hay) \<Longrightarrow>
     i \<le> j \<and> j - i + length needle \<le> length hay \<and> take (length needle) (drop (j - i) hay) = needle"
proof (induction i needle hay rule: match_indices.induct)
  case (1 i needle hay)
  show ?case
  proof (cases hay)
    case Nil
    then show ?thesis using "1.prems" by (simp add: match_indices_simps)
  next
    case (Cons c t)
    show ?thesis
    proof (cases "starts_with hay needle")
      case True
      then obtain r where r: "hay = needle @ r" by auto
      have "j = i \<or> j \<in> set (match_indices (i + length needle) needle r)"
        using "1.prems" True Cons r by (auto simp: match_indices_simps)
      moreover have "drop (length needle) hay = r" "hay \<noteq> []" using r Cons by (simp_all, auto)
      then have "j \<in> set (match_indices (i + length needle) needle r) \<Longrightarrow>
          i + length needle \<le> j \<and> j - (i + length needle) + length needle \<le> length r \<and>
          take (length needle) (drop (j - (i + length needle)) r) = needle"
        using "1.IH"(1) [OF "1.prems"(1) _ True "1.prems"(1)] by metis
      ultimately show ?thesis
        using r by (auto simp: drop_append)
    next
      case False
      then have "j \<in> set (match_indices (Suc i) needle t)"
        using "1.prems" Cons by (simp add: match_indices_simps split: if_splits)
      moreover have "tl hay = t" "hay \<noteq> []" using Cons by simp_all
      ultimately have "Suc i \<le> j \<and> j - Suc i + length needle \<le> length t \<and>
          take (length needle) (drop (j - Suc i) t) = needle"
        using "1.IH"(2) [OF "1.prems"(1) _ False "1.prems"(1)] by metis
      moreover from this obtain k where "j = Suc i + k" using le_Suc_ex by blast
      ultimately show ?thesis
        using Cons by simp
    qed
  qed
qed

lemma match_indices_sorted:
  "needle \<noteq> [] \<Longrightarrow> sorted (match_indices i needle hay)"
proof (induction i needle hay rule: match_indices.induct)
  case (1 i needle hay)
  then show ?case
    by (cases hay) (auto simp: match_indices_simps dest: match_indices_occurs)
qed

lemma locate_Inr:
  assumes "expected \<noteq> []" and "locate before expected = Inr offset"
  shows "offset + length expected \<le> length before \<and>
         take (length expected) (drop offset before) = expected"
proof -
  have "match_indices 0 expected before = [offset]"
    using assms(2) by (simp add: locate_def split: list.splits prod.splits)
  then show ?thesis
    using match_indices_occurs [OF assms(1), of offset 0 before] by simp
qed

text \<open>The walking counter agrees with the direct one on ascending offsets.\<close>

definition walks :: "rstr \<Rightarrow> nat \<Rightarrow> lines \<Rightarrow> bool" where
  "walks before pos w \<longleftrightarrow> ln_text w = before \<and> ln_counted_to w = pos \<and> ln_line w = line_at before pos"

lemma walks_new [simp]: "walks before 0 (lines_new before)"
  by (simp add: walks_def lines_new_def line_at_def)

lemma lines_at_walks:
  assumes "walks before pos w" and "pos \<le> offset"
  shows "fst (lines_at offset w) = line_at before offset" "walks before offset (snd (lines_at offset w))"
proof -
  have "take offset before = take pos before @ drop pos (take offset before)"
    using assms(2) by (metis append_take_drop_id min.absorb1 take_take)
  then have "filter (\<lambda>c. c = 10) (take offset before) =
      filter (\<lambda>c. c = 10) (take pos before) @ filter (\<lambda>c. c = 10) (drop pos (take offset before))"
    by (metis filter_append)
  then show "fst (lines_at offset w) = line_at before offset"
    "walks before offset (snd (lines_at offset w))"
    using assms(1) by (simp_all add: walks_def lines_at_def line_at_def Let_def)
qed

lemma count_matches_result:
  assumes "walks before pos w" and "sorted (pos # offsets)" and "length named = min SHOWN_MATCHES seen"
    and "seen < COUNTED_MATCHES"
  shows "count_matches offsets w named seen =
     Ambiguous (named @ map (line_at before) (take (SHOWN_MATCHES - length named) offsets))
       (min COUNTED_MATCHES (seen + length offsets)) (COUNTED_MATCHES \<le> seen + length offsets)"
  using assms
proof (induction offsets arbitrary: w named seen pos)
  case Nil
  then show ?case by simp
next
  case (Cons offset offsets)
  have le: "pos \<le> offset" using Cons.prems(2) by simp
  note step = lines_at_walks [OF Cons.prems(1) le]
  show ?case
  proof (cases "length named < SHOWN_MATCHES")
    case False
    then have full: "length named = SHOWN_MATCHES" "SHOWN_MATCHES \<le> seen"
      using Cons.prems(3) by simp_all
    show ?thesis
    proof (cases "Suc seen = COUNTED_MATCHES")
      case False
      then show ?thesis
        using full Cons.prems Cons.IH [of pos w named "Suc seen"] by simp
    qed (use full in \<open>simp add: COUNTED_MATCHES_def\<close>)
  next
    case True
    then have seen: "length named = seen" using Cons.prems(3) by simp
    obtain w' where l: "lines_at offset w = (line_at before offset, w')" "walks before offset w'"
      using step by (cases "lines_at offset w") simp
    have nc: "Suc seen < COUNTED_MATCHES"
      using True seen by (simp add: SHOWN_MATCHES_def COUNTED_MATCHES_def)
    have IH: "count_matches offsets w' (named @ [line_at before offset]) (Suc seen) =
        Ambiguous ((named @ [line_at before offset]) @ map (line_at before)
          (take (SHOWN_MATCHES - length (named @ [line_at before offset])) offsets))
        (min COUNTED_MATCHES (Suc seen + length offsets)) (COUNTED_MATCHES \<le> Suc seen + length offsets)"
      by (rule Cons.IH [OF l(2)]) (use Cons.prems(2) True seen nc in simp_all)
    have "take (SHOWN_MATCHES - length named) (offset # offsets) =
        offset # take (SHOWN_MATCHES - Suc (length named)) offsets"
      using True by (simp add: take_Cons')
    then show ?thesis
      using True nc IH by (simp add: l(1) del: take_Suc_Cons)
  qed
qed

lemma locate_ambiguous:
  assumes "expected \<noteq> []" and "match_indices 0 expected before = first # second # rest"
  shows "locate before expected =
     Inl (Ambiguous (map (line_at before) (take SHOWN_MATCHES (first # second # rest)))
       (min COUNTED_MATCHES (length (first # second # rest)))
       (COUNTED_MATCHES \<le> length (first # second # rest)))"
proof -
  have so: "sorted (first # second # rest)"
    using match_indices_sorted [OF assms(1), of 0 before] assms(2) by simp
  obtain w1 where w1: "lines_at first (lines_new before) = (line_at before first, w1)" "walks before first w1"
    using lines_at_walks [OF walks_new, of first before] by (metis le0 prod.collapse)
  obtain w2 where w2: "lines_at second w1 = (line_at before second, w2)" "walks before second w2"
    using lines_at_walks [OF w1(2), of second] so by (metis prod.collapse sorted2)
  have "count_matches rest w2 [line_at before first, line_at before second] 2 =
      Ambiguous ([line_at before first, line_at before second] @
        map (line_at before) (take (SHOWN_MATCHES - 2) rest))
        (min COUNTED_MATCHES (2 + length rest)) (COUNTED_MATCHES \<le> 2 + length rest)"
    using count_matches_result [OF w2(2), of rest "[line_at before first, line_at before second]" 2] so
    by (simp add: SHOWN_MATCHES_def COUNTED_MATCHES_def)
  then show ?thesis
    by (simp add: locate_def assms(2) w1(1) w2(1) SHOWN_MATCHES_def numeral_eq_Suc)
qed

text \<open>A text cut into what the hunks match and what lies between.\<close>

fun interleave :: "rstr list \<Rightarrow> rstr list \<Rightarrow> rstr" where
  "interleave (gap # gaps) (part # parts) = gap @ part @ interleave gaps parts"
| "interleave gaps [] = concat gaps"
| "interleave [] parts = concat parts"

definition apart :: "rstr list \<Rightarrow> nat \<times> nat \<Rightarrow> nat \<times> nat \<Rightarrow> bool" where
  "apart olds a b \<longleftrightarrow> fst a + length (olds ! snd a) \<le> fst b"

lemma overlap_None: "overlap before olds ps = None \<longleftrightarrow> successively (apart olds) ps"
  by (induction before olds ps rule: overlap.induct) (auto simp: apart_def)

definition occurs_at :: "rstr \<Rightarrow> rstr list \<Rightarrow> nat \<times> nat \<Rightarrow> bool" where
  "occurs_at before olds a \<longleftrightarrow> fst a + length (olds ! snd a) \<le> length before \<and>
     take (length (olds ! snd a)) (drop (fst a) before) = olds ! snd a"

lemma splice_interleave:
  assumes "successively (apart olds) ps" and "list_all (occurs_at before olds) ps"
    and "ps = [] \<or> cursor \<le> fst (hd ps)"
  shows "\<exists>gaps. length gaps = Suc (length ps) \<and>
     drop cursor before = interleave gaps (map (\<lambda>a. olds ! snd a) ps) \<and>
     splice before olds replacements ps cursor = interleave gaps (map (\<lambda>a. replacements ! snd a) ps)"
  using assms
proof (induction ps arbitrary: cursor)
  case Nil
  then show ?case by (intro exI [of _ "[drop cursor before]"]) simp
next
  case (Cons a ps)
  let ?next = "fst a + length (olds ! snd a)"
  have "successively (apart olds) ps" "list_all (occurs_at before olds) ps"
    "ps = [] \<or> ?next \<le> fst (hd ps)"
    using Cons.prems by (auto simp: successively_Cons apart_def)
  then obtain gaps where gaps: "length gaps = Suc (length ps)"
      "drop ?next before = interleave gaps (map (\<lambda>a. olds ! snd a) ps)"
      "splice before olds replacements ps ?next = interleave gaps (map (\<lambda>a. replacements ! snd a) ps)"
    using Cons.IH by blast
  have "drop cursor before = take (fst a - cursor) (drop cursor before) @ drop (fst a) before"
    using Cons.prems(3) by (metis append_take_drop_id drop_drop le_add_diff_inverse2 list.distinct(1) list.sel(1))
  moreover have "drop (fst a) before = olds ! snd a @ drop ?next before"
    using Cons.prems(2) append_take_drop_id [of "length (olds ! snd a)" "drop (fst a) before"]
    by (simp add: occurs_at_def add.commute)
  ultimately show ?case
    using gaps by (intro exI [of _ "take (fst a - cursor) (drop cursor before) # gaps"])
      (cases a, simp)
qed

lemma locate_hunks_Inr:
  assumes "locate_hunks before olds index = Inr located" and "[] \<notin> set olds"
  shows "map snd located = [index..<index + length olds] \<and>
     (\<forall>a\<in>set located. fst a + length (olds ! (snd a - index)) \<le> length before \<and>
        take (length (olds ! (snd a - index))) (drop (fst a) before) = olds ! (snd a - index))"
  using assms
proof (induction olds arbitrary: index located)
  case (Cons old olds)
  then obtain offset rest where l: "locate before old = Inr offset"
      "locate_hunks before olds (Suc index) = Inr rest" "located = (offset, index) # rest"
    by (auto split: sum.splits simp: map_sum_def)
  note IH = Cons.IH [OF l(2)]
  have r: "map snd rest = [Suc index..<Suc index + length olds]"
    "\<And>a. a \<in> set rest \<Longrightarrow> fst a + length (olds ! (snd a - Suc index)) \<le> length before \<and>
        take (length (olds ! (snd a - Suc index))) (drop (fst a) before) = olds ! (snd a - Suc index)"
    using IH Cons.prems(2) by auto
  have "(old # olds) ! (snd a - index) = olds ! (snd a - Suc index)" if "a \<in> set rest" for a
  proof -
    have "snd a \<in> set (map snd rest)" using that by simp
    then have "Suc index \<le> snd a" unfolding r(1) by auto
    then show ?thesis by (simp add: nth_Cons')
  qed
  then show ?case
    using r Cons.prems(2) locate_Inr [OF _ l(1)] l(3)
    by (auto simp: upt_conv_Cons simp del: upt_Suc)
qed simp

text \<open>The temporary file is a sibling of the target, never the target itself.\<close>

definition temp_path :: "edit_env \<Rightarrow> disk \<Rightarrow> npath \<Rightarrow> npath" where
  "temp_path env d q = push (NPath (np_abs q) (butlast (np_names q)))
     (Normal (temp_name (last (np_names q)) (pid env) (temp_sequence d)))"

lemma temp_name_longer: "length name < length (temp_name name process sequence)"
  by (simp add: temp_name_def)

lemma temp_path_apart: "temp_path env d q \<noteq> q"
proof
  assume "temp_path env d q = q"
  then have "last (np_names (temp_path env d q)) = last (np_names q)" by simp
  then have "temp_name (last (np_names q)) (pid env) (temp_sequence d) = last (np_names q)"
    by (simp add: temp_path_def push_def)
  then show False
    using temp_name_longer by (metis less_irrefl)
qed

lemma finish_Inr:
  assumes "finish sha256 env source after hunks d = (Inr res, d')"
  defines "temp \<equiv> temp_path env d (src_readable source)"
  defines "fs \<equiv> others_before_recheck env ((files d)(temp \<mapsto> Regular (utf8_encode after) (src_mode source)))"
  shows "er_path res = src_readable source" "byte_len after \<le> MAX_FILE_BYTES" "er_hunks res = hunks"
    "er_before_sha256 res = src_before_hash source" "np_names (src_readable source) \<noteq> []"
    "\<exists>latest m. fs (src_readable source) = Some (Regular latest m) \<and> sha256 latest = src_before_hash source"
    "files d' = fs(src_readable source := fs temp, temp := None)"
    "fs temp \<noteq> None" "er_after_sha256 res = sha256 (utf8_encode after)"
proof -
  have f: "byte_len after \<le> MAX_FILE_BYTES" "np_names (src_readable source) \<noteq> []"
    "write_and_install sha256 env source temp after (files d) = (None, files d')"
    "er_path res = src_readable source" "er_hunks res = hunks"
    "er_before_sha256 res = src_before_hash source" "er_after_sha256 res = sha256 (utf8_encode after)"
    using assms
    by (auto simp: finish_def Let_def parent_of_def file_name_def temp_path_def temp_def
        split: if_splits prod.splits option.splits)
  then show "er_path res = src_readable source" "byte_len after \<le> MAX_FILE_BYTES"
    "er_hunks res = hunks" "er_before_sha256 res = src_before_hash source"
    "np_names (src_readable source) \<noteq> []" "er_after_sha256 res = sha256 (utf8_encode after)" by simp_all
  show "\<exists>latest m. fs (src_readable source) = Some (Regular latest m) \<and> sha256 latest = src_before_hash source"
    "files d' = fs(src_readable source := fs temp, temp := None)" "fs temp \<noteq> None"
    using f(3) by (auto simp: write_and_install_def Let_def fs_def
        split: if_splits option.splits node.splits)
qed




lemma open_source_Inr:
  assumes "open_source h p sha256 env path expected d = (Inr source, d1)"
  shows "check h p (u ''edit'') Read path = Inr (src_readable source)"
    "check h p (u ''edit'') Write path = Inr (src_readable source)"
    "d1 = d\<lparr>files := others_before_read env (files d)\<rparr>"
    "\<exists>m. files d1 (src_readable source) = Some (Regular (utf8_encode (src_before source)) m)"
    "src_before_hash source = sha256 (utf8_encode (src_before source))"
    "eq_ignore_ascii_case (src_before_hash source) expected"
  using assms utf8_encode_decode
  by (auto simp: open_source_def Let_def split: if_splits sum.splits option.splits node.splits)



lemma check_hunks_None:
  "length olds = length replacements \<Longrightarrow> check_hunks olds replacements index = None \<Longrightarrow> [] \<notin> set olds"
  by (induction olds replacements index rule: check_hunks.induct) (auto split: if_splits)

text \<open>The refusal of a numbered hunk, from the refusal of the single one.\<close>

definition number_hunk :: "nat \<Rightarrow> edit_error \<Rightarrow> edit_error" where
  "number_hunk i e =
     (case e of
        EmptyAnchor None \<Rightarrow> EmptyAnchor (Some i)
      | NoChange None \<Rightarrow> NoChange (Some i)
      | NotAnAnchor None m \<Rightarrow> NotAnAnchor (Some i) m
      | _ \<Rightarrow> e)"

lemma number_hunk_simps [simp]:
  "number_hunk i (EmptyAnchor None) = EmptyAnchor (Some i)"
  "number_hunk i (NoChange None) = NoChange (Some i)"
  "number_hunk i (NotAnAnchor None m) = NotAnAnchor (Some i) m"
  by (simp_all add: number_hunk_def)

lemma open_source_number:
  "open_source h p sha256 env path expected d = (Inl e, d1) \<Longrightarrow> number_hunk i e = e"
  by (auto simp: open_source_def Let_def number_hunk_def
      split: if_splits sum.splits option.splits node.splits)

lemma finish_number:
  "apfst (map_sum (number_hunk i) id) (finish sha256 env source after hunks d) =
     finish sha256 env source after hunks d"
  by (auto simp: finish_def Let_def write_and_install_def number_hunk_def
      split: option.splits node.splits prod.splits)

section \<open>A small edit for closed examples\<close>

text \<open>Two hunks in a file of two characters.\<close>

definition quiet_env :: edit_env where
  "quiet_env = \<lparr>inspect_fails = False, read_fails = False, create_fails = False, mode_fails = False,
     write_fails = False, recheck_fails = False, rename_fails = False, pid = 7,
     others_before_read = id, others_before_recheck = id\<rparr>"

lemma quiet_env_simps [simp]:
  "\<not> inspect_fails quiet_env" "\<not> read_fails quiet_env" "\<not> create_fails quiet_env"
  "\<not> mode_fails quiet_env" "\<not> write_fails quiet_env" "\<not> recheck_fails quiet_env"
  "\<not> rename_fails quiet_env" "pid quiet_env = 7" "others_before_read quiet_env = id"
  "others_before_recheck quiet_env = id"
  by (simp_all add: quiet_env_def)

definition example_hash :: "bytes \<Rightarrow> rstr" where
  "example_hash text = replicate 63 48 @ [48 + length text mod 10]"

definition example_path :: npath where
  "example_path = NPath True [u ''proj'', u ''a'']"

definition example_bytes :: bytes where
  "example_bytes = utf8_encode (u ''ab'')"

definition example_disk :: disk where
  "example_disk = \<lparr>files = [example_path \<mapsto> Regular example_bytes 420], temp_sequence = 0\<rparr>"

lemma example_disk_simps [simp]:
  "files example_disk = [example_path \<mapsto> Regular example_bytes 420]" "temp_sequence example_disk = 0"
  by (simp_all add: example_disk_def)

lemma example_disk_update [simp]:
  "example_disk\<lparr>files := [example_path \<mapsto> Regular example_bytes 420]\<rparr> = example_disk"
  by (simp add: example_disk_def)

lemma example_open:
  assumes "\<not> inspect_fails env" and "\<not> read_fails env" and "others_before_read env = id"
  shows "open_source empty_host example_profile example_hash env (u ''a'') (example_hash example_bytes) example_disk
   = (Inr \<lparr>src_readable = example_path, src_mode = 420, src_before = u ''ab'',
           src_before_hash = example_hash example_bytes\<rparr>, example_disk)"
proof -
  have c: "check empty_host example_profile (u ''edit'') access (u ''a'') = Inr example_path" for access
    unfolding check_Inr_iff example_path_def by (simp add: example_eval path_eval del: prefix_loop.simps)
  have h: "byte_len (example_hash example_bytes) = 64" "list_all is_hex_digit (example_hash example_bytes)"
    "length example_bytes \<le> MAX_FILE_BYTES"
    by (simp_all add: example_bytes_def example_hash_def is_hex_digit_def is_ascii_digit_def utf8_encode_def
        byte_len_def utf8_len_def list_all_iff map_replicate_const sum_list_replicate MAX_FILE_BYTES_def)
  have d: "utf8_decode example_bytes = Some (u ''ab'')"
    unfolding example_bytes_def by (rule utf8_decode_encode) (simp add: scalar_def)
  have e: "utf8_encode (u ''ab'') = example_bytes" by (simp only: example_bytes_def)
  show ?thesis
    using h(3) by (simp add: open_source_def c h(1,2) d e assms Let_def eq_ignore_ascii_case_def
        del: u.simps)
qed

lemma example_locate: "locate_hunks (u ''ab'') [u ''b'', u ''a''] 0 = Inr [(Suc 0, 0), (0, Suc 0)]"
  by (simp add: locate_def match_indices_simps)

lemma example_sort: "sort [(Suc 0, 0), (0, Suc 0)] = [(0, Suc 0), (Suc 0, 0)]"
  by (simp add: sort_key_def)

lemma example_hunks:
  defines "outcome \<equiv> \<lambda>fails. apply_hunks empty_host example_profile example_hash
       (quiet_env\<lparr>rename_fails := fails\<rparr>) (u ''a'') (example_hash example_bytes)
       [u ''b'', u ''a''] [u ''x'', u ''yz''] example_disk"
  shows "\<exists>d'. outcome True = (Inl CouldNotInstall, d')"
    "\<exists>res d'. outcome False = (Inr res, d') \<and> er_path res = example_path"
proof -
  have ne: "u ''a'' \<noteq> u ''yz''" "u ''a'' \<noteq> []" "u ''b'' \<noteq> u ''x''" "u ''b'' \<noteq> []"
    "length (u ''a'') = 1" "length (u ''b'') = 1"
    by simp_all
  let ?after = "splice (u ''ab'') [u ''b'', u ''a''] [u ''x'', u ''yz''] [(0, Suc 0), (Suc 0, 0)] 0"
  obtain parent where parent: "parent_of example_path = Some parent" "file_name example_path = Some (u ''a'')"
      "\<And>n. push parent (Normal (temp_name (u ''a'') 7 n)) \<noteq> example_path"
    using temp_path_apart [of quiet_env "example_disk\<lparr>temp_sequence := n\<rparr>" example_path for n]
    by (simp add: parent_of_def file_name_def example_path_def temp_path_def del: u.simps)
  have size: "\<not> MAX_FILE_BYTES < byte_len ?after"
    by (simp add: byte_len_def utf8_len_def MAX_FILE_BYTES_def)
  let ?finish = "\<lambda>fails hunks. finish example_hash (quiet_env\<lparr>rename_fails := fails\<rparr>)
    \<lparr>src_readable = example_path, src_mode = 420, src_before = u ''ab'',
     src_before_hash = example_hash example_bytes\<rparr> ?after hunks example_disk"
  have "\<exists>d'. ?finish True hunks = (Inl CouldNotInstall, d')"
    "\<exists>res d'. ?finish False hunks = (Inr res, d') \<and> er_path res = example_path" for hunks
    using parent(3) parent(3) [symmetric]
    by (simp_all add: finish_def size parent(1,2) Let_def write_and_install_def del: u.simps splice.simps)
  then show "\<exists>d'. outcome True = (Inl CouldNotInstall, d')"
    "\<exists>res d'. outcome False = (Inr res, d') \<and> er_path res = example_path"
    by (simp_all add: outcome_def apply_hunks_def example_open example_locate example_sort ne Let_def
        del: u.simps splice.simps locate_hunks.simps)
qed

section \<open>Properties\<close>



lemma located_hunks_interleave:
  assumes "locate_hunks before olds 0 = Inr located" and "[] \<notin> set olds"
    and "overlap before olds (sort located) = None"
  obtains gaps where "length gaps = Suc (length olds)"
    "before = interleave gaps (map (nth olds) (map snd (sort located)))"
    "splice before olds replacements (sort located) 0 =
       interleave gaps (map (nth replacements) (map snd (sort located)))"
    "mset (map snd (sort located)) = mset [0..<length olds]"
proof -
  note loc = locate_hunks_Inr [OF assms(1,2), simplified]
  have "list_all (occurs_at before olds) (sort located)"
    using loc by (auto simp: list_all_iff occurs_at_def)
  then obtain gaps where gaps: "length gaps = Suc (length located)"
      "before = interleave gaps (map (\<lambda>a. olds ! snd a) (sort located))"
      "splice before olds replacements (sort located) 0 =
         interleave gaps (map (\<lambda>a. replacements ! snd a) (sort located))"
    using splice_interleave [of olds "sort located" before 0 replacements] assms(3)
    by (auto simp: overlap_None)
  have order: "mset (map snd (sort located)) = mset [0..<length olds]"
    using loc by (metis mset_map mset_sort)
  have "length located = length olds"
    using loc by (metis length_map length_upt minus_nat.diff_0)
  then show ?thesis using that [of gaps] gaps order by (simp add: comp_def)
qed

text \<open>
  C12. What a successful edit is: the file that was read had the version the caller named, each
  hunk's text stood there in a place of its own, and the file now holds the same text with every
  hunk's text replaced by its replacement and everything between them unchanged, under the same
  permissions. (The other processes leave the edit's temporary file alone.)
\<close>

theorem edit_is_simultaneous_replacement:
  assumes "apply_hunks h p sha256 env path expected olds replacements d = (Inr res, d')"
    and "\<forall>fs. others_before_recheck env fs (temp_path env d (er_path res)) = fs (temp_path env d (er_path res))"
  shows "\<exists>gaps order mode m.
     others_before_read env (files d) (er_path res) =
       Some (Regular (utf8_encode (interleave gaps (map (nth olds) order))) m) \<and>
     eq_ignore_ascii_case (sha256 (utf8_encode (interleave gaps (map (nth olds) order)))) expected \<and>
     files d' (er_path res) = Some (Regular (utf8_encode (interleave gaps (map (nth replacements) order))) mode) \<and>
     mset order = mset [0..<length olds] \<and> length gaps = Suc (length olds)"
proof -
  obtain source d1 located where s:
    "length olds = length replacements" "check_hunks olds replacements 0 = None"
    "open_source h p sha256 env path expected d = (Inr source, d1)"
    "locate_hunks (src_before source) olds 0 = Inr located"
    "overlap (src_before source) olds (sort located) = None"
    "\<exists>hunks. finish sha256 env source (splice (src_before source) olds replacements (sort located) 0) hunks d1
       = (Inr res, d')"
    using assms(1)
    by (auto simp: apply_hunks_def Let_def split: if_splits option.splits sum.splits prod.splits)
  note opened = open_source_Inr [OF s(3)]
  have ne: "[] \<notin> set olds" by (rule check_hunks_None [OF s(1,2)])
  let ?order = "map snd (sort located)"
  obtain gaps where gaps: "length gaps = Suc (length olds)"
      "src_before source = interleave gaps (map (nth olds) ?order)"
      "splice (src_before source) olds replacements (sort located) 0 = interleave gaps (map (nth replacements) ?order)"
    and order: "mset ?order = mset [0..<length olds]"
    by (rule located_hunks_interleave [OF s(4) ne s(5)])
  obtain hunks where "finish sha256 env source (interleave gaps (map (nth replacements) ?order)) hunks d1
      = (Inr res, d')"
    using s(6) gaps(3) by auto
  note fin = finish_Inr [OF this]
  have t: "temp_path env d1 (src_readable source) = temp_path env d (er_path res)"
    by (simp add: opened(3) temp_path_def fin(1))
  have "files d' (er_path res) =
      Some (Regular (utf8_encode (interleave gaps (map (nth replacements) ?order))) (src_mode source))"
    using fin(7) assms(2) temp_path_apart [of env d "er_path res"]
    by (simp add: fin(1) t [unfolded fin(1)])
  moreover have "\<exists>m. others_before_read env (files d) (er_path res) =
      Some (Regular (utf8_encode (interleave gaps (map (nth olds) ?order))) m)"
    using opened(3,4) gaps(2) by (simp add: fin(1))
  moreover have "eq_ignore_ascii_case (sha256 (utf8_encode (interleave gaps (map (nth olds) ?order)))) expected"
    using opened(5,6) gaps(2) by simp
  ultimately show ?thesis
    using order gaps(1) by (intro exI [of _ gaps] exI [of _ ?order]) auto
qed

theorem edit_is_simultaneous_replacement_witness:
  "\<exists>(d' :: disk) gaps order mode m.
     files example_disk example_path =
       Some (Regular (utf8_encode (interleave gaps (map (nth [u ''b'', u ''a'']) order))) m) \<and>
     files d' example_path =
       Some (Regular (utf8_encode (interleave gaps (map (nth [u ''x'', u ''yz'']) order))) mode) \<and>
     mset order = mset [0, 1]"
proof -
  obtain res d' where r: "apply_hunks empty_host example_profile example_hash
       (quiet_env\<lparr>rename_fails := False\<rparr>) (u ''a'') (example_hash example_bytes)
       [u ''b'', u ''a''] [u ''x'', u ''yz''] example_disk = (Inr res, d')" "er_path res = example_path"
    using example_hunks(2) by blast
  show ?thesis
    using edit_is_simultaneous_replacement [OF r(1)] r(2)
    by (simp add: upt_rec del: u.simps) blast
qed

text \<open>
  One hunk given as a list of one is the single replacement: same result, same files, and the
  same refusal up to the hunk's number in it.
\<close>

theorem one_hunk_is_apply:
  "apply_hunks h p sha256 env path expected [old] [replacement] d =
     apfst (map_sum (number_hunk 0) id) (apply_edit h p sha256 env path expected old replacement d)"
proof (cases "old = [] \<or> old = replacement")
  case True
  then show ?thesis by (auto simp: apply_hunks_def apply_edit_def)
next
  case False
  obtain r d1 where o: "open_source h p sha256 env path expected d = (r, d1)" by fastforce
  show ?thesis
  proof (cases r)
    case (Inl e)
    then have "number_hunk 0 e = e" using open_source_number o by metis
    then show ?thesis
      using False o Inl by (simp add: apply_hunks_def apply_edit_def)
  next
    case (Inr source)
    then show ?thesis
      using False o finish_number
      by (cases "locate (src_before source) old")
        (auto simp: apply_hunks_def apply_edit_def Let_def split: prod.splits sum.splits)
  qed
qed

text \<open>
  An ambiguous anchor is diagnosed by its places: the refusal names the lines, counted from the
  start of the file, of the first five matches, and how many there are up to a thousand.
\<close>

theorem ambiguity_names_the_lines:
  assumes "expected \<noteq> []" and "locate before expected = Inl (Ambiguous named seen capped)"
  shows "named = map (line_at before) (take 5 (match_indices 0 expected before)) \<and>
         seen = min 1000 (length (match_indices 0 expected before)) \<and>
         (capped \<longleftrightarrow> 1000 \<le> length (match_indices 0 expected before))"
proof -
  obtain first second rest where m: "match_indices 0 expected before = first # second # rest"
    using assms(2) by (auto simp: locate_def split: list.splits)
  show ?thesis
    using assms(2) locate_ambiguous [OF assms(1) m] m
    by (simp add: SHOWN_MATCHES_def COUNTED_MATCHES_def)
qed

theorem ambiguity_names_the_lines_witness:
  "[1, 2] = map (line_at (u ''x;'' @ [10] @ u ''x;'')) (take 5 (match_indices 0 (u ''x'') (u ''x;'' @ [10] @ u ''x;'')))"
proof -
  have "locate (u ''x;'' @ [10] @ u ''x;'') (u ''x'') = Inl (Ambiguous [1, 2] 2 False)"
    by (simp add: locate_def match_indices_simps lines_at_def lines_new_def)
  then show ?thesis
    using ambiguity_names_the_lines [of "u ''x''"] by (simp del: u.simps(2)) (metis u.simps(2) list.distinct(1))
qed

text \<open>
  Exactly a thousand matches are reported as more than a thousand: counting stops at the
  thousandth match without looking for another.
\<close>

theorem thousand_matches_are_more_than_a_thousand:
  "locate (replicate 1000 97) [97] =
     Inl (Ambiguous (replicate 5 1) 1000 True) \<and> length (match_indices 0 [97] (replicate 1000 97)) = 1000"
proof -
  have m: "match_indices i [97] (replicate n 97) = [i..<i + n]" for i n
    by (induction n arbitrary: i) (simp_all add: match_indices_simps upt_conv_Cons del: upt_Suc)
  have l: "line_at (replicate n 97) i = 1" for n i
    by (simp add: line_at_def)
  have lines: "map (line_at (replicate n 97)) zs = replicate (length zs) 1" for n zs
    by (induction zs) (simp_all add: l)
  have "[0..<1000] = 0 # 1 # [2..<1000::nat]"
    using upt_conv_Cons [of 0 1000] upt_conv_Cons [of 1 1000]
    by (simp add: numeral_2_eq_2 del: upt_rec_numeral upt_Suc)
  then have all: "match_indices 0 [97] (replicate 1000 97) = 0 # 1 # [2..<1000]"
    using m [of 0 1000] by (simp del: upt_rec_numeral upt_Suc)
  have len: "length (0 # 1 # [2..<1000::nat]) = 1000"
    by (simp del: upt_rec_numeral upt_Suc)
  have five: "length (take SHOWN_MATCHES (0 # 1 # [2..<1000::nat])) = 5"
    unfolding length_take len by (simp add: SHOWN_MATCHES_def)
  have c: "min COUNTED_MATCHES 1000 = 1000" "(COUNTED_MATCHES \<le> 1000) = True"
    by (simp_all add: COUNTED_MATCHES_def)
  have ne: "[97] \<noteq> ([] :: rstr)" by simp
  show ?thesis
    using locate_ambiguous [OF ne all] unfolding lines five len all c by blast
qed

text \<open>
  An anchor that occurs twice can pass as unique: the second occurrence overlaps the first, is
  not counted, and the edit is made at the first.
\<close>

theorem overlapping_occurrence_is_not_counted:
  "locate (u ''aaa'') (u ''aa'') = Inr 0 \<and>
   take 2 (drop 0 (u ''aaa'')) = u ''aa'' \<and> take 2 (drop 1 (u ''aaa'')) = u ''aa''"
  by (simp add: locate_def match_indices_simps)

text \<open>
  The file read is the file written: the check that the read and the write resolve to one file
  cannot fail, whatever the profile and the host.
\<close>

theorem read_and_write_resolve_alike:
  "fst (open_source h p sha256 env path expected d) \<noteq> Inl ResolvedApart"
proof -
  have "readable = writable" if "check h p (u ''edit'') Read path = Inr readable"
    "check h p (u ''edit'') Write path = Inr writable" for readable writable
    by (rule profile_guard.read_write_same [OF that])
  then show ?thesis
    by (auto simp: open_source_def Let_def split: if_splits sum.splits option.splits node.splits)
qed

end
