(* ===== verification/Backends.thy ===== *)
theory Backends
  imports Complex_Main Prelude
begin

text \<open>
  The destination vocabulary of the inference gateway,
  \<open>crates/inference-gateway/src/routing/mod.rs\<close> and \<open>routing/domain.rs\<close>: credentials by name,
  backends, what a change of backend does to prompt caching, failure domains, and the filter that
  runs before any candidate is scored. The texts of diagnostics are left out, except the labels the
  program uses as keys. Magnitudes of a routing explanation are floats of the source and exact
  rationals here.
\<close>

section \<open>Credentials\<close>

datatype secret_ref = Environment rstr | OsCredential rstr rstr

record credential_id =
  cr_provider :: rstr
  cr_reference :: secret_ref

definition credential_label :: "credential_id \<Rightarrow> rstr" where
  "credential_label c =
     (case cr_reference c of
        Environment var \<Rightarrow> cr_provider c @ u ''/'' @ var
      | OsCredential service account \<Rightarrow> cr_provider c @ u ''/'' @ service @ u '':'' @ account)"

section \<open>Backends\<close>

datatype cost = Free | Metered

definition is_free :: "cost \<Rightarrow> bool" where
  "is_free c \<longleftrightarrow> c = Free"

datatype tool_semantics = Verified | Unverified | KnownAbsent

datatype assigned_model = Named rstr | HarnessDefault

definition model_label :: "assigned_model \<Rightarrow> rstr" where
  "model_label m = (case m of Named name \<Rightarrow> name | HarnessDefault \<Rightarrow> u ''the harness'' @ [39] @ u ''s own default'')"

primrec model_name :: "assigned_model \<Rightarrow> rstr option" where
  "model_name (Named name) = Some name"
| "model_name HarnessDefault = None"

record backend =
  be_provider :: rstr
  be_protocol :: rstr
  be_model :: assigned_model
  be_credential :: credential_id
  be_cost :: cost
  be_tools :: tool_semantics
  be_tools_evidence :: "rstr option"

definition backend_new ::
    "rstr \<Rightarrow> rstr \<Rightarrow> assigned_model \<Rightarrow> credential_id \<Rightarrow> cost \<Rightarrow> tool_semantics \<Rightarrow> backend" where
  "backend_new provider protocol model credential cost tools =
     \<lparr>be_provider = provider, be_protocol = protocol, be_model = model, be_credential = credential,
      be_cost = cost, be_tools = tools, be_tools_evidence = None\<rparr>"

definition with_tools_evidence :: "rstr option \<Rightarrow> backend \<Rightarrow> backend" where
  "with_tools_evidence evidence b = b\<lparr>be_tools_evidence := evidence\<rparr>"

section \<open>Cache locality\<close>

datatype cache_loss_reason = ProviderChanged | ModelChanged | ProviderAndModelChanged | CredentialChanged

datatype cache_locality = Preserved | Lost cache_loss_reason | LikelyLost cache_loss_reason

definition cache_between :: "backend \<Rightarrow> backend \<Rightarrow> cache_locality" where
  "cache_between a b =
     (case (be_provider a \<noteq> be_provider b, be_model a \<noteq> be_model b) of
        (True, True) \<Rightarrow> Lost ProviderAndModelChanged
      | (True, False) \<Rightarrow> Lost ProviderChanged
      | (False, True) \<Rightarrow> Lost ModelChanged
      | (False, False) \<Rightarrow>
          if be_credential a = be_credential b then Preserved else LikelyLost CredentialChanged)"

definition warrants_a_warning :: "cache_locality \<Rightarrow> bool" where
  "warrants_a_warning c \<longleftrightarrow> c \<noteq> Preserved"

primrec cache_reason :: "cache_locality \<Rightarrow> cache_loss_reason option" where
  "cache_reason Preserved = None"
| "cache_reason (Lost r) = Some r"
| "cache_reason (LikelyLost r) = Some r"

section \<open>Failure domains\<close>

datatype failure_domain = Shared | Unknown | Independent

definition domain_between :: "backend \<Rightarrow> backend \<Rightarrow> failure_domain" where
  "domain_between current candidate =
     (if be_provider current = be_provider candidate then Shared else Unknown)"

section \<open>Explanations\<close>

record contribution =
  co_name :: rstr
  co_magnitude :: rat

definition contribution_new :: "rstr \<Rightarrow> rat \<Rightarrow> contribution" where
  "contribution_new name magnitude = \<lparr>co_name = name, co_magnitude = magnitude\<rparr>"

type_synonym explanation = "contribution list"

definition explanation_total :: "explanation \<Rightarrow> rat" where
  "explanation_total e = sum_list (map co_magnitude e)"

section \<open>Hard constraints before scoring\<close>

text \<open>The filter keeps the order; the loop is a recursion over the candidates.\<close>

fun apply_hard_constraints :: "('a \<Rightarrow> 'e option) \<Rightarrow> 'a list \<Rightarrow> 'a list \<times> ('a \<times> 'e) list" where
  "apply_hard_constraints check [] = ([], [])"
| "apply_hard_constraints check (c # cs) =
     (case apply_hard_constraints check cs of
        (eligible, rejected) \<Rightarrow>
          (case check c of
             None \<Rightarrow> (c # eligible, rejected)
           | Some reason \<Rightarrow> (eligible, (c, reason) # rejected)))"

section \<open>Lemmas\<close>

lemma cache_between_Preserved [simp]:
  "cache_between a b = Preserved \<longleftrightarrow>
     be_provider a = be_provider b \<and> be_model a = be_model b \<and> be_credential a = be_credential b"
  by (auto simp: cache_between_def split: bool.splits)

lemma cache_between_LikelyLost:
  "cache_between a b = LikelyLost r \<longleftrightarrow>
     be_provider a = be_provider b \<and> be_model a = be_model b \<and> be_credential a \<noteq> be_credential b \<and>
     r = CredentialChanged"
  by (auto simp: cache_between_def split: bool.splits)

lemma apply_hard_constraints_filter:
  "apply_hard_constraints check cs =
     (filter (\<lambda>c. check c = None) cs,
      map (\<lambda>c. (c, the (check c))) (filter (\<lambda>c. check c \<noteq> None) cs))"
  by (induction cs) (auto split: option.splits)

end
