(* ===== verification/Interactive.thy ===== *)
theory Interactive
  imports Backends "HOL-Library.List_Lexorder"
begin

text \<open>
  Sticky routing for one live session, \<open>crates/inference-gateway/src/routing/interactive/mod.rs\<close>,
  with the scores it ranks by: the native-pairing prior of \<open>routing/pairing.rs\<close> and the route
  correlations of \<open>routing/evidence/vocabulary.rs\<close>. What has been observed and which sessions are
  warm are arguments, as the source's traits are. Float arithmetic is exact here; the texts of the
  contributions are left out.
\<close>

section \<open>Preferences, affinities and evidence\<close>

datatype wire_protocol =
  AnthropicMessages | OpenAiResponses | OpenAiChat | GeminiGenerateContent | TypesafeSystemOne

primrec wire_slug :: "wire_protocol \<Rightarrow> rstr" where
  "wire_slug AnthropicMessages = u ''anthropic-messages''"
| "wire_slug OpenAiResponses = u ''openai-responses''"
| "wire_slug OpenAiChat = u ''openai-chat''"
| "wire_slug GeminiGenerateContent = u ''gemini-generate-content''"
| "wire_slug TypesafeSystemOne = u ''typesafe-systemone''"

definition wire_protocol_from_slug :: "rstr \<Rightarrow> wire_protocol option" where
  "wire_protocol_from_slug slug =
     List.find (\<lambda>p. wire_slug p = slug)
       [AnthropicMessages, OpenAiResponses, OpenAiChat, GeminiGenerateContent]"

record serving_route =
  sr_provider :: "rstr option"
  sr_gateway :: "rstr option"
  sr_protocol :: "wire_protocol option"

record evidence_key =
  ek_client :: rstr
  ek_launch_profile :: rstr
  ek_model :: assigned_model
  ek_route :: serving_route

datatype pairing_preference = Strong | Weak | NoPreference | Pinned

datatype prior_strength = StrongPrior | WeakPrior | NoPrior

definition preference_from_slug :: "rstr \<Rightarrow> pairing_preference option" where
  "preference_from_slug slug =
     (if slug = u ''strong'' then Some Strong
      else if slug = u ''weak'' then Some Weak
      else if slug = u ''off'' then Some NoPreference
      else if slug = u ''pin'' then Some Pinned
      else None)"

primrec strength :: "pairing_preference \<Rightarrow> prior_strength option" where
  "strength Strong = Some StrongPrior"
| "strength Weak = Some WeakPrior"
| "strength NoPreference = Some NoPrior"
| "strength Pinned = None"

primrec base_magnitude :: "prior_strength \<Rightarrow> rat" where
  "base_magnitude StrongPrior = 1"
| "base_magnitude WeakPrior = 4 / 10"
| "base_magnitude NoPrior = 0"

text \<open>The caller's judgement of a route is kept by provider and model label.\<close>

record route_affinity =
  ra_preferred :: bool

definition affinity_none :: route_affinity where
  "affinity_none = \<lparr>ra_preferred = False\<rparr>"

type_synonym pairing_affinities = "rstr \<times> rstr \<rightharpoonup> route_affinity"

definition route_key :: "rstr \<Rightarrow> assigned_model \<Rightarrow> rstr \<times> rstr" where
  "route_key provider model = (provider, model_label model)"

definition affinity_set ::
    "rstr \<Rightarrow> assigned_model \<Rightarrow> route_affinity \<Rightarrow> pairing_affinities \<Rightarrow> pairing_affinities" where
  "affinity_set provider model a m = m(route_key provider model \<mapsto> a)"

definition affinity_for_route :: "pairing_affinities \<Rightarrow> rstr \<Rightarrow> assigned_model \<Rightarrow> route_affinity" where
  "affinity_for_route m provider model =
     (case m (route_key provider model) of Some a \<Rightarrow> a | None \<Rightarrow> affinity_none)"

record observed_evidence =
  oe_count :: nat
  oe_task_success :: "rat option"
  oe_usable_tool_call :: "rat option"
  oe_repair :: "rat option"
  oe_ttfc_ratio :: "rat option"
  oe_reliability :: "rat option"
  oe_user_override :: "rat option"

type_synonym observation_source = "evidence_key \<Rightarrow> observed_evidence option"

definition no_observations :: observation_source where
  "no_observations key = None"

definition FULL_DECAY_OBSERVATIONS :: nat where "FULL_DECAY_OBSERVATIONS = 20"
definition CONFIDENT_AT_OBSERVATIONS :: rat where "CONFIDENT_AT_OBSERVATIONS = 5"
definition SUFFICIENT_EVIDENCE_OBSERVATIONS :: nat where "SUFFICIENT_EVIDENCE_OBSERVATIONS = 5"

definition decay_factor :: "nat \<Rightarrow> rat" where
  "decay_factor seen =
     (if seen \<ge> FULL_DECAY_OBSERVATIONS then 0
      else 1 - of_nat seen / of_nat FULL_DECAY_OBSERVATIONS)"

definition component :: "(rat \<Rightarrow> rat) \<Rightarrow> rat option \<Rightarrow> rat" where
  "component f x = (case x of Some v \<Rightarrow> f v | None \<Rightarrow> 0)"

definition evidence_signal :: "observed_evidence \<Rightarrow> rat" where
  "evidence_signal ob =
     (let signal = component (\<lambda>rate. (rate - 1 / 2) * 2) (oe_task_success ob)
            + component (\<lambda>rate. (rate - 1 / 2) * 2) (oe_usable_tool_call ob)
            + component (\<lambda>rate. (1 / 2 - rate) * 2) (oe_repair ob)
            + component (\<lambda>ratio. max (- 1) (min 1 (1 - ratio))) (oe_ttfc_ratio ob)
            + component (\<lambda>rate. (rate - 1 / 2) * 2) (oe_reliability ob)
            + component (\<lambda>s. s) (oe_user_override ob);
          confidence = min (of_nat (oe_count ob) / CONFIDENT_AT_OBSERVATIONS) 1
      in signal * confidence)"

definition native_pairing_prior_contribution ::
    "route_affinity \<Rightarrow> evidence_key \<Rightarrow> pairing_preference \<Rightarrow> observation_source \<Rightarrow> explanation" where
  "native_pairing_prior_contribution affinity key preference evidence =
     (let observed = evidence key;
          seen = (case observed of Some ob \<Rightarrow> oe_count ob | None \<Rightarrow> 0);
          header = [contribution_new (u ''pairing class'') 0,
                    contribution_new (u ''local evidence strength'') 0]
      in case strength preference of
           None \<Rightarrow> header @ [contribution_new (u ''native-pairing preference'') 0]
         | Some s \<Rightarrow>
             header
             @ [contribution_new (u ''native-pairing prior'')
                  (if ra_preferred affinity then base_magnitude s * decay_factor seen else 0)]
             @ (case observed of
                  None \<Rightarrow> []
                | Some ob \<Rightarrow>
                    if oe_count ob \<ge> SUFFICIENT_EVIDENCE_OBSERVATIONS
                    then [contribution_new (u ''local observed evidence'') (evidence_signal ob)]
                    else if oe_count ob > 0
                    then [contribution_new (u ''local observed evidence'') 0]
                    else []))"

section \<open>Warm sessions\<close>

datatype warm_session_state = Live | Resumable

record warm_session =
  ws_state :: warm_session_state
  ws_idle_seconds :: int

type_synonym continuity_source = "evidence_key \<Rightarrow> warm_session option"

definition WARM_SESSION_RELEVANCE_WINDOW_SECONDS :: int where
  "WARM_SESSION_RELEVANCE_WINDOW_SECONDS = 8 * 60 * 60"

definition continuity_factor :: "int \<Rightarrow> rat" where
  "continuity_factor idle =
     (if idle \<le> 0 then 1
      else if idle \<ge> WARM_SESSION_RELEVANCE_WINDOW_SECONDS then 0
      else 1 - of_int idle / of_int WARM_SESSION_RELEVANCE_WINDOW_SECONDS)"

definition session_continuity_contribution ::
    "evidence_key \<Rightarrow> continuity_source \<Rightarrow> contribution" where
  "session_continuity_contribution key continuity =
     (case continuity key of
        None \<Rightarrow> contribution_new (u ''session continuity'') 0
      | Some warm \<Rightarrow>
          contribution_new (u ''session continuity'')
            ((case ws_state warm of Live \<Rightarrow> 15 / 10 | Resumable \<Rightarrow> 75 / 100) *
             continuity_factor (ws_idle_seconds warm)))"

section \<open>Route correlations\<close>

record route_identity =
  ri_provider :: rstr
  ri_model :: rstr

definition route_le :: "route_identity \<Rightarrow> route_identity \<Rightarrow> bool" where
  "route_le a b \<longleftrightarrow>
     ri_provider a < ri_provider b \<or> ri_provider a = ri_provider b \<and> ri_model a \<le> ri_model b"

record route_correlation =
  rc_overlaps :: nat
  rc_lone :: nat

datatype correlation_verdict = InsufficientEvidence nat nat | Measured rat nat

definition MIN_CORRELATION_SAMPLE :: nat where "MIN_CORRELATION_SAMPLE = 5"

definition correlation_verdict_of :: "route_correlation \<Rightarrow> correlation_verdict" where
  "correlation_verdict_of c =
     (let sample = rc_overlaps c + rc_lone c
      in if sample < MIN_CORRELATION_SAMPLE then InsufficientEvidence sample MIN_CORRELATION_SAMPLE
         else Measured (of_nat (rc_overlaps c) / of_nat sample) sample)"

type_synonym route_correlations = "route_identity \<times> route_identity \<rightharpoonup> route_correlation"

definition correlations_between ::
    "route_correlations \<Rightarrow> route_identity \<Rightarrow> route_identity \<Rightarrow> route_correlation" where
  "correlations_between pairs a b =
     (let key = (if route_le a b then (a, b) else (b, a))
      in case pairs key of Some c \<Rightarrow> c | None \<Rightarrow> \<lparr>rc_overlaps = 0, rc_lone = 0\<rparr>)"

section \<open>Assignments\<close>

record assignment =
  as_harness :: rstr
  as_backend :: backend

definition assignment_new :: "rstr \<Rightarrow> backend \<Rightarrow> assignment" where
  "assignment_new harness b = \<lparr>as_harness = harness, as_backend = b\<rparr>"

datatype pin = NoPin | ToProvider rstr

primrec pin_permits :: "pin \<Rightarrow> rstr \<Rightarrow> bool" where
  "pin_permits NoPin provider = True"
| "pin_permits (ToProvider pinned) provider = (pinned = provider)"

datatype provider_failure = Unreachable | Refused nat

definition failure_from_status :: "nat \<Rightarrow> provider_failure option" where
  "failure_from_status status =
     (if status = 429 then Some (Refused status)
      else if 500 \<le> status \<and> status \<le> 599 then Some (Refused status)
      else None)"

datatype incompatibility =
    ProtocolMismatch rstr rstr rstr
  | ToolsTooWeak rstr tool_semantics tool_semantics

primrec tool_rank :: "tool_semantics \<Rightarrow> nat" where
  "tool_rank KnownAbsent = 0"
| "tool_rank Unverified = 1"
| "tool_rank Verified = 2"

definition compatible :: "backend \<Rightarrow> backend \<Rightarrow> incompatibility option" where
  "compatible current candidate =
     (if be_protocol candidate \<noteq> be_protocol current
      then Some (ProtocolMismatch (be_provider candidate) (be_protocol candidate) (be_protocol current))
      else if tool_rank (be_tools candidate) < tool_rank (be_tools current)
      then Some (ToolsTooWeak (be_provider candidate) (be_tools candidate) (be_tools current))
      else None)"

section \<open>Scoring and ranking\<close>

definition NO_LAUNCH_PROFILE :: rstr where "NO_LAUNCH_PROFILE = []"

definition serving_route_of :: "backend \<Rightarrow> serving_route" where
  "serving_route_of b =
     \<lparr>sr_provider = Some (be_provider b), sr_gateway = None,
      sr_protocol = wire_protocol_from_slug (be_protocol b)\<rparr>"

definition evidence_key_for :: "rstr \<Rightarrow> rstr \<Rightarrow> backend \<Rightarrow> evidence_key" where
  "evidence_key_for client launch_profile b =
     \<lparr>ek_client = client, ek_launch_profile = launch_profile, ek_model = be_model b,
      ek_route = serving_route_of b\<rparr>"

definition score_candidate ::
    "rstr \<Rightarrow> rstr \<Rightarrow> backend \<Rightarrow> pairing_preference \<Rightarrow> route_affinity \<Rightarrow> observation_source \<Rightarrow> explanation" where
  "score_candidate client launch_profile candidate preference affinity evidence =
     native_pairing_prior_contribution affinity (evidence_key_for client launch_profile candidate)
       preference evidence"

definition SHARED_FAILURE_DOMAIN_PENALTY :: rat where "SHARED_FAILURE_DOMAIN_PENALTY = - 1"
definition FAILURE_DOMAIN_TERM :: rstr where "FAILURE_DOMAIN_TERM = u ''failure-domain diversity''"
definition ROUTE_CORRELATION_TERM :: rstr where "ROUTE_CORRELATION_TERM = u ''route correlation''"

definition failure_domain_contribution :: "backend \<Rightarrow> backend \<Rightarrow> contribution" where
  "failure_domain_contribution current candidate =
     (case domain_between current candidate of
        Shared \<Rightarrow> contribution_new FAILURE_DOMAIN_TERM SHARED_FAILURE_DOMAIN_PENALTY
      | _ \<Rightarrow> contribution_new FAILURE_DOMAIN_TERM 0)"

definition route_of :: "backend \<Rightarrow> route_identity" where
  "route_of b = \<lparr>ri_provider = be_provider b, ri_model = model_label (be_model b)\<rparr>"

definition correlation_penalty :: "rat \<Rightarrow> rat" where
  "correlation_penalty confidence = SHARED_FAILURE_DOMAIN_PENALTY * confidence"

definition route_correlation_contribution ::
    "backend \<Rightarrow> backend \<Rightarrow> route_correlations \<Rightarrow> contribution option" where
  "route_correlation_contribution current candidate correlations =
     (if domain_between current candidate = Shared then None
      else Some (case correlation_verdict_of
                        (correlations_between correlations (route_of current) (route_of candidate)) of
                   InsufficientEvidence _ _ \<Rightarrow> contribution_new ROUTE_CORRELATION_TERM 0
                 | Measured confidence _ \<Rightarrow>
                     contribution_new ROUTE_CORRELATION_TERM (correlation_penalty confidence)))"

definition term_magnitude :: "rstr \<Rightarrow> explanation \<Rightarrow> rat" where
  "term_magnitude name e = sum_list (map co_magnitude (filter (\<lambda>c. co_name c = name) e))"

definition failure_domain_magnitude :: "explanation \<Rightarrow> rat" where
  "failure_domain_magnitude = term_magnitude FAILURE_DOMAIN_TERM"

definition route_correlation_magnitude :: "explanation \<Rightarrow> rat" where
  "route_correlation_magnitude = term_magnitude ROUTE_CORRELATION_TERM"

type_synonym scored = "(assignment \<times> explanation) list"

text \<open>The loop after the first candidate: the index reached, the best index and its score.\<close>

fun argmax_from :: "(explanation \<Rightarrow> rat) \<Rightarrow> scored \<Rightarrow> nat \<Rightarrow> nat \<Rightarrow> rat \<Rightarrow> nat" where
  "argmax_from score [] index best_index best_total = best_index"
| "argmax_from score (c # cs) index best_index best_total =
     (if score (snd c) > best_total then argmax_from score cs (Suc index) index (score (snd c))
      else argmax_from score cs (Suc index) best_index best_total)"

definition argmax :: "scored \<Rightarrow> (explanation \<Rightarrow> rat) \<Rightarrow> nat" where
  "argmax candidates score =
     argmax_from score (tl candidates) 1 0 (score (snd (hd candidates)))"

record failure_domain_effect =
  fe_displaced :: "rstr option"
  fe_correlation_displaced :: "route_identity option"

definition best :: "scored \<Rightarrow> assignment \<times> explanation \<times> failure_domain_effect" where
  "best candidates =
     (let best_index = argmax candidates explanation_total;
          without_index = argmax candidates (\<lambda>e. explanation_total e - failure_domain_magnitude e);
          without_correlation =
            argmax candidates (\<lambda>e. explanation_total e - route_correlation_magnitude e);
          other = as_backend (fst (candidates ! without_index))
      in (fst (candidates ! best_index), snd (candidates ! best_index),
          \<lparr>fe_displaced =
             (if without_index \<noteq> best_index
              then Some (be_provider other @ u ''/'' @ model_label (be_model other)) else None),
           fe_correlation_displaced =
             (if without_correlation \<noteq> best_index
              then Some (route_of (as_backend (fst (candidates ! without_correlation)))) else None)\<rparr>))"

section \<open>The policy\<close>

datatype session_activity = Idle | MidTurn

datatype migration_refusal =
  RefusedMidTurn | RefusedPinned rstr | RefusedIncompatible incompatibility

datatype stay_reason = SessionPinned rstr | NoCompatibleBackend "incompatibility list"

datatype failure_response =
    Stay stay_reason
  | FailOver assignment cache_locality explanation failure_domain_effect
  | OfferMigration assignment cache_locality explanation failure_domain_effect

text \<open>A starting session: the pin first, then the scores, the pin set aside when nothing survives it.\<close>

definition start ::
    "pin \<Rightarrow> rstr \<Rightarrow> rstr \<Rightarrow> backend list \<Rightarrow> pairing_preference \<Rightarrow> pairing_affinities \<Rightarrow>
       observation_source \<Rightarrow> continuity_source \<Rightarrow> (assignment \<times> explanation) option" where
  "start p harness launch_profile candidates preference affinities evidence continuity =
     (if candidates = [] then None
      else
        (case apply_hard_constraints
                (\<lambda>c. if pin_permits p (be_provider c) then None else Some ()) candidates of
           (eligible, rejected) \<Rightarrow>
             (let chosen = (if eligible = [] then map fst rejected else eligible);
                  scored = map (\<lambda>c.
                    (assignment_new harness c,
                     score_candidate harness launch_profile c preference
                       (affinity_for_route affinities (be_provider c) (be_model c)) evidence
                     @ [session_continuity_contribution
                          (evidence_key_for harness launch_profile c) continuity]
                     @ (if eligible = [] then [contribution_new (u ''session pin'') 0] else []))) chosen
              in case best scored of (a, explanation, _) \<Rightarrow> Some (a, explanation))))"

definition next_turn :: "assignment \<Rightarrow> backend list \<Rightarrow> assignment \<times> cache_locality" where
  "next_turn current alternatives = (current, cache_between (as_backend current) (as_backend current))"

text \<open>The loop over the candidates: what is rejected, the same model elsewhere, another model.\<close>

fun sort_candidates ::
    "(backend \<Rightarrow> explanation) \<Rightarrow> assignment \<Rightarrow> backend list \<Rightarrow>
       incompatibility list \<times> scored \<times> scored" where
  "sort_candidates score current [] = ([], [], [])"
| "sort_candidates score current (c # cs) =
     (case sort_candidates score current cs of (rejected, same, other) \<Rightarrow>
        if be_provider c = be_provider (as_backend current) \<and> be_model c = be_model (as_backend current) \<and>
           be_credential c = be_credential (as_backend current)
        then (rejected, same, other)
        else (case compatible (as_backend current) c of
                Some why \<Rightarrow> (why # rejected, same, other)
              | None \<Rightarrow>
                  if be_model c = be_model (as_backend current)
                  then (rejected, (assignment_new (as_harness current) c, score c) # same, other)
                  else (rejected, same, (assignment_new (as_harness current) c, score c) # other)))"

definition on_provider_failure ::
    "pin \<Rightarrow> assignment \<Rightarrow> backend list \<Rightarrow> pairing_preference \<Rightarrow> pairing_affinities \<Rightarrow>
       observation_source \<Rightarrow> route_correlations \<Rightarrow> failure_response" where
  "on_provider_failure p current candidates preference affinities evidence correlations =
     (case p of
        ToProvider provider \<Rightarrow> Stay (SessionPinned provider)
      | NoPin \<Rightarrow>
          (let score = (\<lambda>c.
                 score_candidate (as_harness current) NO_LAUNCH_PROFILE c preference
                   (affinity_for_route affinities (be_provider c) (be_model c)) evidence
                 @ [failure_domain_contribution (as_backend current) c]
                 @ (case route_correlation_contribution (as_backend current) c correlations of
                      Some r \<Rightarrow> [r] | None \<Rightarrow> []))
           in case sort_candidates score current candidates of (rejected, same, other) \<Rightarrow>
                if same \<noteq> [] then
                  (case best same of (to, e, effect) \<Rightarrow>
                     FailOver to (cache_between (as_backend current) (as_backend to)) e effect)
                else if other \<noteq> [] then
                  (case best other of (to, e, effect) \<Rightarrow>
                     OfferMigration to (cache_between (as_backend current) (as_backend to)) e effect)
                else Stay (NoCompatibleBackend rejected)))"

definition migrate ::
    "pin \<Rightarrow> assignment \<Rightarrow> backend \<Rightarrow> session_activity \<Rightarrow> migration_refusal + assignment" where
  "migrate p current to activity =
     (if activity = MidTurn then Inl RefusedMidTurn
      else if \<not> pin_permits p (be_provider to)
      then Inl (RefusedPinned (case p of ToProvider pinned \<Rightarrow> pinned | NoPin \<Rightarrow> []))
      else (case compatible (as_backend current) to of
              Some why \<Rightarrow> Inl (RefusedIncompatible why)
            | None \<Rightarrow> Inr (assignment_new (as_harness current) to)))"

section \<open>Lemmas\<close>

text \<open>The ranking keeps the first of the best.\<close>

lemma argmax_from_spec:
  fixes score :: "explanation \<Rightarrow> rat"
  assumes "score (snd (c0 ! b)) = t" "b < length c0" "\<forall>j<length c0. score (snd (c0 ! j)) \<le> t"
    "\<forall>j<b. score (snd (c0 ! j)) < t"
  shows "argmax_from score cs (length c0) b t < length (c0 @ cs) \<and>
     (\<forall>c\<in>set (c0 @ cs). score (snd c) \<le> score (snd ((c0 @ cs) ! argmax_from score cs (length c0) b t))) \<and>
     (\<forall>j<argmax_from score cs (length c0) b t.
        score (snd ((c0 @ cs) ! j)) < score (snd ((c0 @ cs) ! argmax_from score cs (length c0) b t)))"
  using assms
proof (induction cs arbitrary: c0 b t)
  case Nil
  then show ?case by (auto simp: in_set_conv_nth) (metis snd_conv)
next
  case (Cons c cs)
  show ?case
  proof (cases "score (snd c) > t")
    case True
    have "\<forall>j<length (c0 @ [c]). score (snd ((c0 @ [c]) ! j)) \<le> score (snd c)"
      "\<forall>j<length c0. score (snd ((c0 @ [c]) ! j)) < score (snd c)"
      using Cons.prems(3) True by (fastforce simp: nth_append less_Suc_eq)+
    then show ?thesis
      using Cons.IH [of "c0 @ [c]" "length c0" "score (snd c)"] True by simp
  next
    case False
    have "\<forall>j<length (c0 @ [c]). score (snd ((c0 @ [c]) ! j)) \<le> t" "\<forall>j<b. score (snd ((c0 @ [c]) ! j)) < t"
      "score (snd ((c0 @ [c]) ! b)) = t"
      using Cons.prems False by (auto simp: nth_append less_Suc_eq)
    then show ?thesis
      using Cons.IH [of "c0 @ [c]" b t] False Cons.prems(2) by simp
  qed
qed

lemma argmax_spec:
  assumes "cs \<noteq> []"
  shows "argmax cs score < length cs"
    "c \<in> set cs \<Longrightarrow> score (snd c) \<le> score (snd (cs ! argmax cs score))"
    "j < argmax cs score \<Longrightarrow> score (snd (cs ! j)) < score (snd (cs ! argmax cs score))"
  using assms argmax_from_spec [of score "[hd cs]" 0 "score (snd (hd cs))" "tl cs"]
  by (auto simp: argmax_def)

lemma sort_candidates_spec:
  "sort_candidates score current cs =
     (let moved = filter (\<lambda>c. \<not> (be_provider c = be_provider (as_backend current) \<and>
            be_model c = be_model (as_backend current) \<and>
            be_credential c = be_credential (as_backend current))) cs;
          ok = filter (\<lambda>c. compatible (as_backend current) c = None) moved;
          entry = (\<lambda>c. (assignment_new (as_harness current) c, score c))
      in (map (\<lambda>c. the (compatible (as_backend current) c))
            (filter (\<lambda>c. compatible (as_backend current) c \<noteq> None) moved),
          map entry (filter (\<lambda>c. be_model c = be_model (as_backend current)) ok),
          map entry (filter (\<lambda>c. be_model c \<noteq> be_model (as_backend current)) ok)))"
  by (induction cs) (auto simp: Let_def split: option.splits prod.splits)

lemma best_spec:
  assumes "cs \<noteq> []" and "best cs = (to, e, effect)"
  shows "\<exists>before after. cs = before @ (to, e) # after \<and>
     (\<forall>c\<in>set before. explanation_total (snd c) < explanation_total e) \<and>
     (\<forall>c\<in>set after. explanation_total (snd c) \<le> explanation_total e)"
proof -
  let ?i = "argmax cs explanation_total"
  note a = argmax_spec [OF assms(1), where score = explanation_total]
  have i: "cs ! ?i = (to, e)"
    using assms(2) by (auto simp: best_def Let_def prod_eq_iff)
  have "cs = take ?i cs @ (to, e) # drop (Suc ?i) cs"
    using id_take_nth_drop [OF a(1)] i by simp
  moreover have "\<forall>c\<in>set (take ?i cs). explanation_total (snd c) < explanation_total e"
    using a(3) i a(1) by (auto simp: in_set_conv_nth) (metis snd_conv)
  moreover have "\<forall>c\<in>set (drop (Suc ?i) cs). explanation_total (snd c) \<le> explanation_total e"
    using a(2) i by (auto dest: in_set_dropD)
  ultimately show ?thesis by blast
qed
text \<open>What the policy answers, over the candidates that moved and are compatible.\<close>

definition failure_score ::
    "assignment \<Rightarrow> pairing_preference \<Rightarrow> pairing_affinities \<Rightarrow> observation_source \<Rightarrow>
       route_correlations \<Rightarrow> backend \<Rightarrow> explanation" where
  "failure_score current preference affinities evidence correlations c =
     score_candidate (as_harness current) NO_LAUNCH_PROFILE c preference
       (affinity_for_route affinities (be_provider c) (be_model c)) evidence
     @ [failure_domain_contribution (as_backend current) c]
     @ (case route_correlation_contribution (as_backend current) c correlations of
          Some r \<Rightarrow> [r] | None \<Rightarrow> [])"

definition may_replace :: "assignment \<Rightarrow> backend \<Rightarrow> bool" where
  "may_replace current c \<longleftrightarrow>
     \<not> (be_provider c = be_provider (as_backend current) \<and>
        be_model c = be_model (as_backend current) \<and>
        be_credential c = be_credential (as_backend current)) \<and>
     compatible (as_backend current) c = None"

lemma compatible_None [simp]:
  "compatible current c = None \<longleftrightarrow>
     be_protocol c = be_protocol current \<and> tool_rank (be_tools current) \<le> tool_rank (be_tools c)"
  by (auto simp: compatible_def)

lemma best_of_map:
  assumes "cs \<noteq> []" and "best (map (\<lambda>c. (f c, score c)) cs) = (to, e, effect)"
  shows "\<exists>before b after. cs = before @ b # after \<and> to = f b \<and> e = score b \<and>
     (\<forall>c\<in>set before. explanation_total (score c) < explanation_total e) \<and>
     (\<forall>c\<in>set after. explanation_total (score c) \<le> explanation_total e)"
proof -
  obtain before after where
    m: "map (\<lambda>c. (f c, score c)) cs = before @ (to, e) # after"
      "\<forall>c\<in>set before. explanation_total (snd c) < explanation_total e"
      "\<forall>c\<in>set after. explanation_total (snd c) \<le> explanation_total e"
    using best_spec [OF _ assms(2)] assms(1) by auto
  from m(1) obtain bs b as where "cs = bs @ b # as" "map (\<lambda>c. (f c, score c)) bs = before"
      "(f b, score b) = (to, e)" "map (\<lambda>c. (f c, score c)) as = after"
    by (auto simp: map_eq_append_conv map_eq_Cons_conv)
  then show ?thesis
    using m(2,3) by (intro exI [of _ bs] exI [of _ b] exI [of _ as]) auto
qed

lemma failure_response:
  assumes "on_provider_failure NoPin current cs preference affinities evidence correlations = r"
  defines "score \<equiv> failure_score current preference affinities evidence correlations"
  defines "same \<equiv> filter (\<lambda>c. be_model c = be_model (as_backend current)) (filter (may_replace current) cs)"
  defines "other \<equiv> filter (\<lambda>c. be_model c \<noteq> be_model (as_backend current)) (filter (may_replace current) cs)"
  shows "r = FailOver to cache e effect \<Longrightarrow> same \<noteq> [] \<and>
           best (map (\<lambda>c. (assignment_new (as_harness current) c, score c)) same) = (to, e, effect) \<and>
           cache = cache_between (as_backend current) (as_backend to)"
    "r = OfferMigration to cache e effect \<Longrightarrow> same = [] \<and> other \<noteq> [] \<and>
           best (map (\<lambda>c. (assignment_new (as_harness current) c, score c)) other) = (to, e, effect) \<and>
           cache = cache_between (as_backend current) (as_backend to)"
    "r = Stay reason \<Longrightarrow> same = [] \<and> other = []"
proof -
  have score: "score = (\<lambda>c. failure_score current preference affinities evidence correlations c)"
    by (simp add: score_def)
  have mr: "filter (may_replace current) cs =
      filter (\<lambda>c. compatible (as_backend current) c = None)
        (filter (\<lambda>c. \<not> (be_provider c = be_provider (as_backend current) \<and>
            be_model c = be_model (as_backend current) \<and>
            be_credential c = be_credential (as_backend current))) cs)"
    by (auto simp: may_replace_def intro: filter_cong)
  note unfolded = assms(1) [symmetric, unfolded on_provider_failure_def sort_candidates_spec Let_def,
      folded failure_score_def mr]
  show "r = FailOver to cache e effect \<Longrightarrow> same \<noteq> [] \<and>
           best (map (\<lambda>c. (assignment_new (as_harness current) c, score c)) same) = (to, e, effect) \<and>
           cache = cache_between (as_backend current) (as_backend to)"
    "r = OfferMigration to cache e effect \<Longrightarrow> same = [] \<and> other \<noteq> [] \<and>
           best (map (\<lambda>c. (assignment_new (as_harness current) c, score c)) other) = (to, e, effect) \<and>
           cache = cache_between (as_backend current) (as_backend to)"
    "r = Stay reason \<Longrightarrow> same = [] \<and> other = []"
    using unfolded unfolding same_def other_def score
    by (auto split: prod.splits if_splits simp del: filter_filter)
qed
text \<open>The score with nothing observed and nothing correlated.\<close>

lemma standalone_total:
  "explanation_total (failure_score current preference affinities no_observations Map.empty c) =
     (case strength preference of
        None \<Rightarrow> 0
      | Some s \<Rightarrow> if ra_preferred (affinity_for_route affinities (be_provider c) (be_model c))
                  then base_magnitude s else 0) +
     (if be_provider c = be_provider (as_backend current) then - 1 else 0)"
  by (cases preference)
    (simp_all add: failure_score_def score_candidate_def native_pairing_prior_contribution_def Let_def
      no_observations_def explanation_total_def contribution_new_def failure_domain_contribution_def
      domain_between_def route_correlation_contribution_def correlations_between_def
      correlation_verdict_of_def MIN_CORRELATION_SAMPLE_def SHARED_FAILURE_DOMAIN_PENALTY_def
      decay_factor_def FULL_DECAY_OBSERVATIONS_def)

lemma assignment_new_simps [simp]:
  "as_harness (assignment_new harness b) = harness" "as_backend (assignment_new harness b) = b"
  by (simp_all add: assignment_new_def)

text \<open>Two routers that serve one model, for closed examples.\<close>

definition example_backend :: "string \<Rightarrow> string \<Rightarrow> backend" where
  "example_backend provider model =
     backend_new (u provider) (u ''anthropic-messages'') (Named (u model))
       \<lparr>cr_provider = u provider, cr_reference = Environment (u ''KEY'')\<rparr> Metered Unverified"

lemma example_failover:
  "on_provider_failure NoPin (assignment_new (u ''claude'') (example_backend ''one'' ''m''))
     [example_backend ''two'' ''m''] Strong Map.empty no_observations Map.empty =
   FailOver (assignment_new (u ''claude'') (example_backend ''two'' ''m'')) (Lost ProviderChanged)
     (failure_score (assignment_new (u ''claude'') (example_backend ''one'' ''m'')) Strong Map.empty
        no_observations Map.empty (example_backend ''two'' ''m''))
     \<lparr>fe_displaced = None, fe_correlation_displaced = None\<rparr>"
  by (simp add: on_provider_failure_def example_backend_def backend_new_def best_def argmax_def Let_def
      cache_between_def failure_score_def compatible_def)

definition second_key :: "backend \<Rightarrow> backend" where
  "second_key b = b\<lparr>be_credential := (be_credential b)\<lparr>cr_reference := Environment (u ''KEY2'')\<rparr>\<rparr>"

lemma example_second_key:
  "\<exists>cache e effect.
     on_provider_failure NoPin (assignment_new (u ''claude'') (example_backend ''one'' ''m''))
       [second_key (example_backend ''one'' ''m''), example_backend ''two'' ''m''] Strong
       [(u ''one'', u ''m'') \<mapsto> \<lparr>ra_preferred = True\<rparr>] no_observations Map.empty =
     FailOver (assignment_new (u ''claude'') (second_key (example_backend ''one'' ''m''))) cache e effect"
proof -
  let ?a = "assignment_new (u ''claude'') (example_backend ''one'' ''m'')"
  let ?cs = "[second_key (example_backend ''one'' ''m''), example_backend ''two'' ''m'']"
  let ?aff = "[(u ''one'', u ''m'') \<mapsto> \<lparr>ra_preferred = True\<rparr>] :: pairing_affinities"
  let ?r = "on_provider_failure NoPin ?a ?cs Strong ?aff no_observations Map.empty"
  let ?score = "failure_score ?a Strong ?aff no_observations Map.empty"
  have mr: "list_all (may_replace ?a) ?cs"
    and m: "list_all (\<lambda>c. be_model c = be_model (as_backend ?a)) ?cs"
    by (simp_all add: may_replace_def example_backend_def backend_new_def second_key_def)
  have tie: "explanation_total (?score (?cs ! 0)) = explanation_total (?score (?cs ! 1))"
    by (simp add: standalone_total example_backend_def backend_new_def second_key_def
        affinity_for_route_def route_key_def model_label_def affinity_none_def)
  have "fst (best (map (\<lambda>c. (assignment_new (u ''claude'') c, ?score c)) ?cs)) =
      assignment_new (u ''claude'') (?cs ! 0)"
    using tie by (simp add: best_def argmax_def Let_def)
  then show ?thesis
    using failure_response(1) [of ?a ?cs Strong ?aff no_observations Map.empty ?r, OF refl]
      failure_response(2,3) [of ?a ?cs Strong ?aff no_observations Map.empty ?r, OF refl] mr m
    by (cases ?r) (auto simp: list_all_iff)
qed

section \<open>Properties\<close>

text \<open>
  C24. A failover is transparent: it is taken only when the session is not pinned, to one of the candidates
  of another provider or another credential than the backend that failed, over the same model and protocol, for the same harness, with
  tool calls established at least as well; and it is never reported as leaving the prompt cache alone.
\<close>

theorem failover_is_transparent:
  assumes "on_provider_failure p current candidates preference affinities evidence correlations =
             FailOver to cache e effect"
  shows "p = NoPin \<and> as_backend to \<in> set candidates \<and> as_harness to = as_harness current \<and>
     \<not> (be_provider (as_backend to) = be_provider (as_backend current) \<and>
        be_credential (as_backend to) = be_credential (as_backend current)) \<and>
     be_model (as_backend to) = be_model (as_backend current) \<and>
     be_protocol (as_backend to) = be_protocol (as_backend current) \<and>
     tool_rank (be_tools (as_backend current)) \<le> tool_rank (be_tools (as_backend to)) \<and>
     cache \<noteq> Preserved"
proof -
  have p: "p = NoPin" using assms by (cases p) (simp_all add: on_provider_failure_def)
  note r = failure_response(1) [OF assms [unfolded p] refl]
  obtain before b after where b: "filter (\<lambda>c. be_model c = be_model (as_backend current))
        (filter (may_replace current) candidates) = before @ b # after"
      "to = assignment_new (as_harness current) b"
    using best_of_map [OF r [THEN conjunct1] r [THEN conjunct2, THEN conjunct1]] by auto
  from b(1) have "b \<in> set (filter (\<lambda>c. be_model c = be_model (as_backend current))
        (filter (may_replace current) candidates))" by simp
  then show ?thesis
    using p r b(2) by (auto simp: may_replace_def)
qed

theorem failover_is_transparent_witness:
  "Lost ProviderChanged \<noteq> Preserved \<and>
   tool_rank (be_tools (example_backend ''one'' ''m'')) \<le> tool_rank (be_tools (example_backend ''two'' ''m''))"
  using failover_is_transparent [OF example_failover] by simp

text \<open>
  Another model is only ever offered, and only when no candidate serves the same one: if some candidate
  other than the failed backend is compatible and serves the session's model, a session that is not
  pinned fails over.
\<close>

theorem same_model_is_taken_first:
  assumes "c \<in> set candidates" and "may_replace current c"
    and "be_model c = be_model (as_backend current)"
  shows "\<exists>to cache e effect.
     on_provider_failure NoPin current candidates preference affinities evidence correlations =
       FailOver to cache e effect"
proof -
  let ?r = "on_provider_failure NoPin current candidates preference affinities evidence correlations"
  have "filter (\<lambda>c. be_model c = be_model (as_backend current)) (filter (may_replace current) candidates) \<noteq> []"
    using assms by (auto simp: filter_empty_conv)
  then show ?thesis
    using failure_response(2,3) [of current candidates preference affinities evidence correlations ?r, OF refl]
    by (cases ?r) blast+
qed

theorem same_model_is_taken_first_witness:
  "\<exists>to cache e effect.
     on_provider_failure NoPin (assignment_new (u ''claude'') (example_backend ''one'' ''m''))
       [example_backend ''three'' ''x'', example_backend ''two'' ''m''] Weak Map.empty no_observations Map.empty =
     FailOver to cache e effect"
  by (rule same_model_is_taken_first [of "example_backend ''two'' ''m''"])
    (simp_all add: may_replace_def example_backend_def backend_new_def)

text \<open>
  With nothing observed and nothing correlated, which is what the gateway gives it, a failover stays on
  the provider that failed although a candidate on another provider would do only when the user prefers
  native pairings strongly, the chosen route is one and the other is not.
\<close>

theorem failover_leaves_the_failed_provider:
  assumes "on_provider_failure NoPin current candidates preference affinities no_observations Map.empty =
             FailOver to cache e effect"
    and "be_provider (as_backend to) = be_provider (as_backend current)"
    and "c \<in> set candidates" and "may_replace current c"
    and "be_model c = be_model (as_backend current)" and "be_provider c \<noteq> be_provider (as_backend current)"
  shows "preference = Strong \<and>
     ra_preferred (affinity_for_route affinities (be_provider (as_backend to)) (be_model (as_backend to))) \<and>
     \<not> ra_preferred (affinity_for_route affinities (be_provider c) (be_model c))"
proof -
  let ?score = "\<lambda>c. explanation_total (failure_score current preference affinities no_observations Map.empty c)"
  let ?same = "filter (\<lambda>c. be_model c = be_model (as_backend current)) (filter (may_replace current) candidates)"
  note r = failure_response(1) [OF assms(1) refl]
  obtain before b after where b: "?same = before @ b # after" "to = assignment_new (as_harness current) b"
      "\<forall>c\<in>set before. ?score c < ?score b" "\<forall>c\<in>set after. ?score c \<le> ?score b"
    using best_of_map [OF r [THEN conjunct1] r [THEN conjunct2, THEN conjunct1]] by auto
  have "c \<in> set ?same" using assms by simp
  then have "?score c \<le> ?score b"
    unfolding b(1) using b(3,4) by auto
  then show ?thesis
    using assms(2,6) b(2) unfolding standalone_total
    by (cases preference) (auto split: if_splits)
qed

theorem failover_leaves_the_failed_provider_witness:
  "ra_preferred (affinity_for_route [(u ''one'', u ''m'') \<mapsto> \<lparr>ra_preferred = True\<rparr>] (u ''one'') (Named (u ''m'')))"
proof -
  obtain cache e effect where r:
    "on_provider_failure NoPin (assignment_new (u ''claude'') (example_backend ''one'' ''m''))
       [second_key (example_backend ''one'' ''m''), example_backend ''two'' ''m''] Strong
       [(u ''one'', u ''m'') \<mapsto> \<lparr>ra_preferred = True\<rparr>] no_observations Map.empty =
     FailOver (assignment_new (u ''claude'') (second_key (example_backend ''one'' ''m''))) cache e effect"
    using example_second_key by blast
  show ?thesis
    using failover_leaves_the_failed_provider [OF r, of "example_backend ''two'' ''m''"]
    by (simp add: may_replace_def example_backend_def backend_new_def second_key_def)
qed

end
