(* ===== verification/Free_Pool.thy ===== *)
theory Free_Pool
  imports Backends "HOL-Library.Word" "HOL-Library.List_Lexorder"
begin

text \<open>
  The free pool of the gateway, \<open>crates/inference-gateway/src/routing/free.rs\<close>: what each
  credential's allowance looks like, how each model behind each credential has been behaving, and
  the order the user put free resources in. An instant is the monotonic clock in nanoseconds and a
  duration is a number of nanoseconds; adding them panics past the largest instant, and every
  operation that can panic returns \<open>None\<close> there. Counters are 32-bit words with the saturating
  operations of the source, Unix seconds are 64-bit integers that wrap.
\<close>

section \<open>Numbers\<close>

definition NANOS :: nat where "NANOS = 1000000000"

text \<open>An instant holds signed 64-bit seconds, a duration unsigned ones.\<close>

definition instant_max :: nat where "instant_max = 2 ^ 63 * NANOS - 1"
definition duration_max :: nat where "duration_max = 2 ^ 64 * NANOS - 1"

definition instant_add :: "nat \<Rightarrow> nat \<Rightarrow> nat option" where
  "instant_add now d = (if now + d \<le> instant_max then Some (now + d) else None)"

definition saturating_sub :: "32 word \<Rightarrow> 32 word \<Rightarrow> 32 word" where
  "saturating_sub a b = (if a < b then 0 else a - b)"

definition u32_max :: "32 word" where "u32_max = - 1"

definition saturating_inc :: "32 word \<Rightarrow> 32 word" where
  "saturating_inc a = (if a = u32_max then a else a + 1)"

definition wrap64 :: "int \<Rightarrow> int" where
  "wrap64 i = (i + 2 ^ 63) mod 2 ^ 64 - 2 ^ 63"

definition FAILURES_BEFORE_COOLDOWN :: "32 word" where "FAILURES_BEFORE_COOLDOWN = 2"
definition BASE_COOLDOWN :: nat where "BASE_COOLDOWN = 30 * NANOS"
definition MAX_COOLDOWN :: nat where "MAX_COOLDOWN = 15 * 60 * NANOS"

section \<open>Allowances\<close>

datatype window = Stated "32 word" | Learned "32 word" nat

record pool_reading =
  pr_limit :: "32 word option"
  pr_remaining :: "32 word option"
  pr_resets_in :: "nat option"
  pr_window :: "window option"

definition no_reading :: pool_reading where
  "no_reading = \<lparr>pr_limit = None, pr_remaining = None, pr_resets_in = None, pr_window = None\<rparr>"

datatype allowance =
    RequestPool "32 word option" "32 word option" "nat option" "window option"
  | TokenPriced

definition unknown_pool :: allowance where
  "unknown_pool = RequestPool None None None None"

primrec is_request_pool :: "allowance \<Rightarrow> bool" where
  "is_request_pool (RequestPool _ _ _ _) = True"
| "is_request_pool TokenPriced = False"

primrec is_exhausted :: "allowance \<Rightarrow> nat \<Rightarrow> bool" where
  "is_exhausted TokenPriced now = False"
| "is_exhausted (RequestPool limit remaining resets_at window) now =
     (if (case resets_at of Some reset \<Rightarrow> reset \<le> now | None \<Rightarrow> False) then False
      else remaining = Some 0)"

definition stated :: "'a option \<Rightarrow> 'a option \<Rightarrow> 'a option" where
  "stated new old = (case new of Some x \<Rightarrow> Some x | None \<Rightarrow> old)"

definition record_reading :: "pool_reading \<Rightarrow> nat \<Rightarrow> allowance \<Rightarrow> allowance option" where
  "record_reading reading now a =
     (case a of
        TokenPriced \<Rightarrow> Some TokenPriced
      | RequestPool limit remaining resets_at window \<Rightarrow>
          (case (case pr_resets_in reading of
                   None \<Rightarrow> Some resets_at
                 | Some after \<Rightarrow> map_option Some (instant_add now after)) of
             None \<Rightarrow> None
           | Some resets_at' \<Rightarrow>
               Some (RequestPool (stated (pr_limit reading) limit)
                 (stated (pr_remaining reading) remaining) resets_at'
                 (stated (pr_window reading) window))))"

section \<open>A cadence learned from the ledger\<close>

record throttle_row =
  tr_provider :: rstr
  tr_throttle :: bool
  tr_observed_at :: int

fun differences :: "int list \<Rightarrow> int list" where
  "differences (a # b # rest) = wrap64 (b - a) # differences (b # rest)"
| "differences _ = []"

text \<open>
  The halved sum is the source's truncating division: where it is negative, and would differ, the
  median is raised to 0 anyway.
\<close>

definition MIN_SAMPLE_FOR_SUMMARY :: nat where "MIN_SAMPLE_FOR_SUMMARY = 5"

definition learned_window :: "throttle_row list \<Rightarrow> rstr \<Rightarrow> int \<Rightarrow> (window \<times> int) option" where
  "learned_window rows provider now =
     (let throttled = filter (\<lambda>t. t \<le> now)
            (map tr_observed_at (filter tr_throttle (filter (\<lambda>r. tr_provider r = provider) rows)))
      in if length throttled < MIN_SAMPLE_FOR_SUMMARY then None
         else
           (let times = sort throttled;
                intervals = sort (differences times);
                sample = length intervals;
                mid = sample div 2;
                median = (if sample mod 2 = 1 then intervals ! mid
                          else wrap64 (intervals ! (mid - 1) + intervals ! mid) div 2);
                positive = max median 0;
                seconds = (if positive \<le> 2 ^ 32 - 1 then word_of_int positive else u32_max)
            in Some (Learned seconds sample, last times)))"

section \<open>Health\<close>

datatype workload_outcome =
    Served
  | RateLimited "nat option"
  | CredentialRejected
  | CapacityFailure

definition counts_toward_cooldown :: "workload_outcome \<Rightarrow> bool" where
  "counts_toward_cooldown outcome =
     (case outcome of RateLimited _ \<Rightarrow> True | CapacityFailure \<Rightarrow> True | _ \<Rightarrow> False)"

record free_resource =
  fr_credential :: credential_id
  fr_model :: rstr

definition fr_provider :: "free_resource \<Rightarrow> rstr" where
  "fr_provider r = cr_provider (fr_credential r)"

definition resource_label :: "free_resource \<Rightarrow> rstr" where
  "resource_label r = fr_model r @ u '' ('' @ credential_label (fr_credential r) @ u '')''"

datatype cooldown_cause = Declared | Invented

record resource_health =
  consecutive_failures :: "32 word"
  cooling_down_until :: "nat option"
  cooldown_cause :: "cooldown_cause option"
  credential_rejected :: bool

definition health_new :: resource_health where
  "health_new = \<lparr>consecutive_failures = 0, cooling_down_until = None, cooldown_cause = None,
     credential_rejected = False\<rparr>"

definition health_available :: "nat \<Rightarrow> resource_health \<Rightarrow> bool" where
  "health_available now h =
     (if credential_rejected h then False
      else (case cooling_down_until h of Some until \<Rightarrow> until \<le> now | None \<Rightarrow> True))"

definition declared_wait_remaining :: "nat \<Rightarrow> resource_health \<Rightarrow> nat option" where
  "declared_wait_remaining now h =
     (if cooldown_cause h \<noteq> Some Declared then None
      else (case cooling_down_until h of
              Some until \<Rightarrow> if until > now then Some (until - now) else None
            | None \<Rightarrow> None))"

definition backoff :: "resource_health \<Rightarrow> nat" where
  "backoff h =
     (let steps = min (unat (saturating_sub (consecutive_failures h) FAILURES_BEFORE_COOLDOWN)) 8
      in min (min (BASE_COOLDOWN * 2 ^ steps) duration_max) MAX_COOLDOWN)"

definition fail :: "nat option \<Rightarrow> nat \<Rightarrow> resource_health \<Rightarrow> resource_health option" where
  "fail retry_after now h =
     (let h1 = h\<lparr>consecutive_failures := saturating_inc (consecutive_failures h)\<rparr>
      in case retry_after of
           Some declared \<Rightarrow>
             map_option (\<lambda>until. h1\<lparr>cooling_down_until := Some until, cooldown_cause := Some Declared\<rparr>)
               (instant_add now declared)
         | None \<Rightarrow>
             if consecutive_failures h1 \<ge> FAILURES_BEFORE_COOLDOWN
             then map_option
                    (\<lambda>until. h1\<lparr>cooling_down_until := Some until, cooldown_cause := Some Invented\<rparr>)
                    (instant_add now (backoff h1))
             else Some h1)"

definition observe_health ::
    "workload_outcome \<Rightarrow> nat \<Rightarrow> resource_health \<Rightarrow> resource_health option" where
  "observe_health outcome now h =
     (case outcome of
        Served \<Rightarrow> Some \<lparr>consecutive_failures = 0, cooling_down_until = None, cooldown_cause = None,
                       credential_rejected = False\<rparr>
      | CredentialRejected \<Rightarrow> Some (h\<lparr>credential_rejected := True\<rparr>)
      | RateLimited retry_after \<Rightarrow> fail retry_after now h
      | CapacityFailure \<Rightarrow> fail None now h)"

section \<open>The pool\<close>

record free_pool =
  allowances :: "(credential_id \<times> allowance) list"
  healths :: "(free_resource \<times> resource_health) list"

definition pool_new :: free_pool where
  "pool_new = \<lparr>allowances = [], healths = []\<rparr>"

text \<open>The index of a key's entry, which is appended when there is none, with the entries.\<close>

definition entry_of :: "'v \<Rightarrow> 'k \<Rightarrow> ('k \<times> 'v) list \<Rightarrow> nat \<times> ('k \<times> 'v) list" where
  "entry_of fresh k es =
     (case position (\<lambda>e. fst e = k) es of
        Some i \<Rightarrow> (i, es)
      | None \<Rightarrow> (length es, es @ [(k, fresh)]))"

definition set_entry :: "nat \<Rightarrow> 'v \<Rightarrow> ('k \<times> 'v) list \<Rightarrow> ('k \<times> 'v) list" where
  "set_entry i v es = es[i := (fst (es ! i), v)]"

definition lookup_entry :: "'v \<Rightarrow> 'k \<Rightarrow> ('k \<times> 'v) list \<Rightarrow> 'v" where
  "lookup_entry fresh k es =
     (case List.find (\<lambda>e. fst e = k) es of Some e \<Rightarrow> snd e | None \<Rightarrow> fresh)"

definition health_entry ::
    "free_resource \<Rightarrow> free_pool \<Rightarrow> nat \<times> (free_resource \<times> resource_health) list" where
  "health_entry r p = entry_of health_new r (healths p)"

definition allowance_entry ::
    "credential_id \<Rightarrow> free_pool \<Rightarrow> nat \<times> (credential_id \<times> allowance) list" where
  "allowance_entry c p = entry_of unknown_pool c (allowances p)"

definition record_pool :: "credential_id \<Rightarrow> pool_reading \<Rightarrow> nat \<Rightarrow> free_pool \<Rightarrow> free_pool option" where
  "record_pool c reading now p =
     (case allowance_entry c p of (i, es) \<Rightarrow>
        (case record_reading reading now (snd (es ! i)) of
           None \<Rightarrow> None
         | Some a \<Rightarrow> Some (p\<lparr>allowances := set_entry i a es\<rparr>)))"

definition observe :: "free_resource \<Rightarrow> workload_outcome \<Rightarrow> nat \<Rightarrow> free_pool \<Rightarrow> free_pool option" where
  "observe r outcome now p =
     (case health_entry r p of (i, es) \<Rightarrow>
        (case observe_health outcome now (snd (es ! i)) of
           None \<Rightarrow> None
         | Some h \<Rightarrow>
             (let p1 = p\<lparr>healths := set_entry i h es\<rparr>
              in case outcome of
                   RateLimited retry_after \<Rightarrow>
                     record_pool (fr_credential r)
                       (no_reading\<lparr>pr_remaining := Some 0, pr_resets_in := retry_after\<rparr>) now p1
                 | _ \<Rightarrow> Some p1)))"

definition adopt_observed ::
    "free_resource \<Rightarrow> 32 word \<Rightarrow> nat option \<Rightarrow> cooldown_cause option \<Rightarrow> bool \<Rightarrow> free_pool \<Rightarrow> free_pool" where
  "adopt_observed r failures until cause rejected p =
     (case health_entry r p of (i, es) \<Rightarrow>
        p\<lparr>healths := set_entry i
            \<lparr>consecutive_failures = failures, cooling_down_until = until, cooldown_cause = cause,
             credential_rejected = rejected\<rparr> es\<rparr>)"

definition withhold_in_flight :: "credential_id \<Rightarrow> 32 word \<Rightarrow> 32 word \<Rightarrow> free_pool \<Rightarrow> free_pool" where
  "withhold_in_flight c known_remaining in_flight p =
     (case allowance_entry c p of (i, es) \<Rightarrow>
        p\<lparr>allowances :=
            (case snd (es ! i) of
               RequestPool limit _ resets_at window \<Rightarrow>
                 set_entry i (RequestPool limit (Some (saturating_sub known_remaining in_flight))
                                resets_at window) es
             | TokenPriced \<Rightarrow> es)\<rparr>)"

definition declare_token_priced :: "credential_id \<Rightarrow> free_pool \<Rightarrow> free_pool" where
  "declare_token_priced c p =
     p\<lparr>allowances :=
         (case position (\<lambda>e. fst e = c) (allowances p) of
            Some i \<Rightarrow> set_entry i TokenPriced (allowances p)
          | None \<Rightarrow> allowances p @ [(c, TokenPriced)])\<rparr>"

definition pool_allowance :: "credential_id \<Rightarrow> free_pool \<Rightarrow> allowance" where
  "pool_allowance c p = lookup_entry unknown_pool c (allowances p)"

definition pool_health :: "free_resource \<Rightarrow> free_pool \<Rightarrow> resource_health" where
  "pool_health r p = lookup_entry health_new r (healths p)"

definition is_available :: "free_resource \<Rightarrow> nat \<Rightarrow> free_pool \<Rightarrow> bool" where
  "is_available r now p \<longleftrightarrow>
     health_available now (pool_health r p) \<and> \<not> is_exhausted (pool_allowance (fr_credential r) p) now"

definition rotate_from ::
    "credential_id \<Rightarrow> credential_id list \<Rightarrow> rstr \<Rightarrow> nat \<Rightarrow> free_pool \<Rightarrow> credential_id option" where
  "rotate_from exhausted siblings model now p =
     List.find (\<lambda>c. is_available \<lparr>fr_credential = c, fr_model = model\<rparr> now p)
       (filter (\<lambda>c. c \<noteq> exhausted) siblings)"

definition observed :: "free_pool \<Rightarrow> (free_resource \<times> resource_health) list" where
  "observed p = sort_key (\<lambda>e. resource_label (fst e)) (healths p)"

section \<open>The user's preferences\<close>

record free_resource_key =
  fk_provider :: rstr
  fk_model :: rstr

definition key_matches :: "free_resource \<Rightarrow> free_resource_key \<Rightarrow> bool" where
  "key_matches r k \<longleftrightarrow> fk_provider k = fr_provider r \<and> fk_model k = fr_model r"

record free_preferences =
  fp_order :: "free_resource_key list"
  fp_disabled :: "free_resource_key list"
  fp_pinned :: "free_resource_key option"

definition is_disabled :: "free_preferences \<Rightarrow> free_resource \<Rightarrow> bool" where
  "is_disabled prefs r \<longleftrightarrow> list_ex (key_matches r) (fp_disabled prefs)"

definition is_pinned :: "free_preferences \<Rightarrow> free_resource \<Rightarrow> bool" where
  "is_pinned prefs r \<longleftrightarrow> (case fp_pinned prefs of Some k \<Rightarrow> key_matches r k | None \<Rightarrow> False)"

definition preference_rank :: "free_preferences \<Rightarrow> free_resource \<Rightarrow> nat" where
  "preference_rank prefs r =
     (case position (key_matches r) (fp_order prefs) of Some i \<Rightarrow> i | None \<Rightarrow> 2 ^ 64 - 1)"

definition arrange :: "free_preferences \<Rightarrow> free_resource list \<Rightarrow> free_resource list" where
  "arrange prefs candidates =
     sort_key (preference_rank prefs) (filter (\<lambda>r. \<not> is_disabled prefs r) candidates)"

section \<open>Searching\<close>

lemma find_split:
  "List.find P xs = Some c \<longleftrightarrow>
     (\<exists>before after. xs = before @ c # after \<and> P c \<and> (\<forall>b\<in>set before. \<not> P b))"
proof
  assume "List.find P xs = Some c"
  then obtain i where i: "i < length xs" "P (xs ! i)" "c = xs ! i" "\<forall>j<i. \<not> P (xs ! j)"
    by (auto simp: find_Some_iff)
  have "\<forall>b\<in>set (take i xs). \<not> P b"
    using i(1,4) by (auto simp: in_set_conv_nth)
  then show "\<exists>before after. xs = before @ c # after \<and> P c \<and> (\<forall>b\<in>set before. \<not> P b)"
    using i(1-3) id_take_nth_drop by blast
next
  assume "\<exists>before after. xs = before @ c # after \<and> P c \<and> (\<forall>b\<in>set before. \<not> P b)"
  then obtain before after where x: "xs = before @ c # after" "P c" "\<forall>b\<in>set before. \<not> P b"
    by blast
  have "List.find P (before @ c # after) = Some c"
    using x(2,3) by (induction before) auto
  then show "List.find P xs = Some c" by (simp add: x(1))
qed

lemma find_filter: "List.find P (filter Q xs) = List.find (\<lambda>x. Q x \<and> P x) xs"
  by (induction xs) auto

section \<open>A store of entries\<close>

text \<open>
  What the two lists of the pool have in common: an entry is found or made, and then replaced. Any
  store with these laws keeps one entry per key, and what it holds of a key is what the key's own
  updates made of it.
\<close>

locale keyed_store =
  fixes look :: "'k \<Rightarrow> 's \<Rightarrow> 'v"
    and put :: "'k \<Rightarrow> 'v \<Rightarrow> 's \<Rightarrow> 's"
    and keys :: "'s \<Rightarrow> 'k list"
  assumes look_put: "look k' (put k v s) = (if k' = k then v else look k' s)"
    and set_keys_put: "set (keys (put k v s)) = insert k (set (keys s))"
    and distinct_keys_put: "distinct (keys s) \<Longrightarrow> distinct (keys (put k v s))"
begin

primrec updates :: "('k \<times> ('v \<Rightarrow> 'v option)) list \<Rightarrow> 's \<Rightarrow> 's option" where
  "updates [] s = Some s"
| "updates (x # xs) s =
     (case snd x (look (fst x) s) of None \<Rightarrow> None | Some v \<Rightarrow> updates xs (put (fst x) v s))"

primrec through :: "('v \<Rightarrow> 'v option) list \<Rightarrow> 'v \<Rightarrow> 'v option" where
  "through [] v = Some v"
| "through (f # fs) v = (case f v of None \<Rightarrow> None | Some v' \<Rightarrow> through fs v')"

lemma own_history:
  assumes "updates xs s = Some s'"
  shows "through (map snd (filter (\<lambda>x. fst x = k) xs)) (look k s) = Some (look k s')"
  using assms
proof (induction xs arbitrary: s)
  case (Cons x xs)
  then obtain v where v: "snd x (look (fst x) s) = Some v" "updates xs (put (fst x) v s) = Some s'"
    by (auto split: option.splits)
  show ?case
    using Cons.IH [OF v(2)] v(1) by (cases "fst x = k") (auto simp: look_put)
qed simp

lemma distinct_keys_updates:
  "updates xs s = Some s' \<Longrightarrow> distinct (keys s) \<Longrightarrow> distinct (keys s')"
  by (induction xs arbitrary: s) (auto simp: distinct_keys_put split: option.splits)

end

definition put_entry :: "'v \<Rightarrow> 'k \<Rightarrow> 'v \<Rightarrow> ('k \<times> 'v) list \<Rightarrow> ('k \<times> 'v) list" where
  "put_entry fresh k v es = (case entry_of fresh k es of (i, es') \<Rightarrow> set_entry i v es')"

lemma position_find:
  "position P xs = Some i \<Longrightarrow> List.find P xs = Some (xs ! i)"
  by (induction xs arbitrary: i) (auto split: if_splits)

lemma entry_of_look:
  assumes "entry_of fresh k es = (i, es')"
  shows "i < length es' \<and> fst (es' ! i) = k \<and> snd (es' ! i) = lookup_entry fresh k es"
proof (cases "position (\<lambda>e. fst e = k) es")
  case None
  then have "List.find (\<lambda>e. fst e = k) es = None"
    by (auto simp: find_None_iff)
  then show ?thesis
    using assms None by (auto simp: entry_of_def lookup_entry_def)
next
  case (Some j)
  then show ?thesis
    using assms position_SomeD [OF Some] position_find [OF Some]
    by (simp add: entry_of_def lookup_entry_def)
qed

lemma put_entry_simps:
  "put_entry fresh k v [] = [(k, v)]"
  "put_entry fresh k v (e # es) = (if fst e = k then (k, v) # es else e # put_entry fresh k v es)"
proof -
  show "put_entry fresh k v (e # es) = (if fst e = k then (k, v) # es else e # put_entry fresh k v es)"
    by (cases "position (\<lambda>e. fst e = k) es")
      (auto simp: put_entry_def entry_of_def set_entry_def simp del: position_None)
qed (simp add: put_entry_def entry_of_def set_entry_def)

lemma lookup_put_entry:
  "lookup_entry fresh k' (put_entry fresh k v es) = (if k' = k then v else lookup_entry fresh k' es)"
  by (induction es) (auto simp: put_entry_simps lookup_entry_def)

lemma keys_put_entry: "fst ` set (put_entry fresh k v es) = insert k (fst ` set es)"
  by (induction es) (auto simp: put_entry_simps)

lemma distinct_put_entry: "distinct (map fst es) \<Longrightarrow> distinct (map fst (put_entry fresh k v es))"
  by (induction es) (auto simp: put_entry_simps keys_put_entry)

definition put_health :: "free_resource \<Rightarrow> resource_health \<Rightarrow> free_pool \<Rightarrow> free_pool" where
  "put_health r h p = p\<lparr>healths := put_entry health_new r h (healths p)\<rparr>"

definition put_allowance :: "credential_id \<Rightarrow> allowance \<Rightarrow> free_pool \<Rightarrow> free_pool" where
  "put_allowance c a p = p\<lparr>allowances := put_entry unknown_pool c a (allowances p)\<rparr>"

interpretation health_store:
  keyed_store "lookup_entry health_new" "put_entry health_new" "map fst"
  by unfold_locales (simp_all add: lookup_put_entry keys_put_entry distinct_put_entry)

interpretation allowance_store:
  keyed_store "lookup_entry unknown_pool" "put_entry unknown_pool" "map fst"
  by unfold_locales (simp_all add: lookup_put_entry keys_put_entry distinct_put_entry)

lemma pool_put [simp]:
  "pool_health r (put_health r' h p) = (if r = r' then h else pool_health r p)"
  "pool_allowance c (put_allowance c' a p) = (if c = c' then a else pool_allowance c p)"
  by (simp_all add: pool_health_def pool_allowance_def put_health_def put_allowance_def lookup_put_entry)

lemma pool_other [simp]:
  "pool_health r (put_allowance c a p) = pool_health r p"
  "pool_allowance c (put_health r h p) = pool_allowance c p"
  "healths (put_allowance c a p) = healths p"
  "allowances (put_health r h p) = allowances p"
  "healths (put_health r h p) = put_entry health_new r h (healths p)"
  "allowances (put_allowance c a p) = put_entry unknown_pool c a (allowances p)"
  by (simp_all add: put_allowance_def put_health_def pool_health_def pool_allowance_def)

section \<open>The operations as updates of the store\<close>

lemma record_pool_put:
  "record_pool c reading now p =
     map_option (\<lambda>a. put_allowance c a p) (record_reading reading now (pool_allowance c p))"
proof -
  obtain i es where e: "allowance_entry c p = (i, es)" by fastforce
  then show ?thesis
    using entry_of_look [of unknown_pool c "allowances p" i es]
    by (auto simp: record_pool_def allowance_entry_def put_allowance_def put_entry_def
        pool_allowance_def split: option.splits)
qed

lemma observe_put:
  "observe r outcome now p =
     (case observe_health outcome now (pool_health r p) of
        None \<Rightarrow> None
      | Some h \<Rightarrow>
          (case outcome of
             RateLimited retry_after \<Rightarrow>
               record_pool (fr_credential r)
                 (no_reading\<lparr>pr_remaining := Some 0, pr_resets_in := retry_after\<rparr>) now (put_health r h p)
           | _ \<Rightarrow> Some (put_health r h p)))"
proof -
  obtain i es where e: "health_entry r p = (i, es)" by fastforce
  then show ?thesis
    using entry_of_look [of health_new r "healths p" i es]
    by (auto simp: observe_def health_entry_def put_health_def put_entry_def pool_health_def Let_def
        split: option.splits workload_outcome.splits)
qed

lemma adopt_observed_put:
  "adopt_observed r failures until cause rejected p =
     put_health r \<lparr>consecutive_failures = failures, cooling_down_until = until,
       cooldown_cause = cause, credential_rejected = rejected\<rparr> p"
  by (simp add: adopt_observed_def health_entry_def put_health_def put_entry_def split: prod.split)

lemma withhold_put:
  "withhold_in_flight c known in_flight p =
     (case pool_allowance c p of
        RequestPool limit _ resets_at window \<Rightarrow>
          put_allowance c (RequestPool limit (Some (saturating_sub known in_flight)) resets_at window) p
      | TokenPriced \<Rightarrow> p\<lparr>allowances := snd (allowance_entry c p)\<rparr>)"
proof -
  obtain i es where e: "allowance_entry c p = (i, es)" by fastforce
  then show ?thesis
    using entry_of_look [of unknown_pool c "allowances p" i es]
    by (auto simp: withhold_in_flight_def allowance_entry_def put_allowance_def put_entry_def
        pool_allowance_def split: allowance.splits)
qed

lemma declare_token_priced_put:
  "declare_token_priced c p = put_allowance c TokenPriced p"
  by (cases "position (\<lambda>e. fst e = c) (allowances p)")
    (simp_all add: declare_token_priced_def put_allowance_def put_entry_def entry_of_def set_entry_def
      del: position_None)

lemma distinct_entry_of:
  "distinct (map fst es) \<Longrightarrow> distinct (map fst (snd (entry_of fresh k es)))"
  by (auto simp: entry_of_def split: option.splits)

section \<open>Runs\<close>

primrec observe_all :: "(free_resource \<times> workload_outcome \<times> nat) list \<Rightarrow> free_pool \<Rightarrow> free_pool option" where
  "observe_all [] p = Some p"
| "observe_all (x # xs) p =
     (case x of (r, outcome, now) \<Rightarrow>
        (case observe r outcome now p of None \<Rightarrow> None | Some q \<Rightarrow> observe_all xs q))"

text \<open>The pools the operations can produce.\<close>

inductive pool_reachable :: "free_pool \<Rightarrow> bool" where
  pool_start: "pool_reachable pool_new"
| pool_observe: "pool_reachable p \<Longrightarrow> observe r outcome now p = Some q \<Longrightarrow> pool_reachable q"
| pool_adopt: "pool_reachable p \<Longrightarrow> pool_reachable (adopt_observed r failures until cause rejected p)"
| pool_record: "pool_reachable p \<Longrightarrow> record_pool c reading now p = Some q \<Longrightarrow> pool_reachable q"
| pool_withhold: "pool_reachable p \<Longrightarrow> pool_reachable (withhold_in_flight c known in_flight p)"
| pool_token: "pool_reachable p \<Longrightarrow> pool_reachable (declare_token_priced c p)"

lemma observe_cases:
  assumes "observe r outcome now p = Some q"
  obtains h where "observe_health outcome now (pool_health r p) = Some h"
    "\<nexists>retry_after. outcome = RateLimited retry_after" "q = put_health r h p"
  | h retry_after a where "observe_health outcome now (pool_health r p) = Some h"
    "outcome = RateLimited retry_after"
    "record_reading (no_reading\<lparr>pr_remaining := Some 0, pr_resets_in := retry_after\<rparr>) now
       (pool_allowance (fr_credential r) p) = Some a"
    "q = put_allowance (fr_credential r) a (put_health r h p)"
  using assms
  by (auto simp: observe_put record_pool_put split: option.splits workload_outcome.splits)

text \<open>What a rate limit says of the allowance, as an update.\<close>

definition limit_reading :: "nat option \<Rightarrow> pool_reading" where
  "limit_reading retry_after = no_reading\<lparr>pr_remaining := Some 0, pr_resets_in := retry_after\<rparr>"

fun limit_updates ::
    "(free_resource \<times> workload_outcome \<times> nat) list \<Rightarrow>
       (credential_id \<times> (allowance \<Rightarrow> allowance option)) list" where
  "limit_updates [] = []"
| "limit_updates ((r, RateLimited retry_after, now) # xs) =
     (fr_credential r, record_reading (limit_reading retry_after) now) # limit_updates xs"
| "limit_updates (_ # xs) = limit_updates xs"

lemma observe_all_updates:
  assumes "observe_all xs p = Some q"
  shows "health_store.updates (map (\<lambda>(r, outcome, now). (r, observe_health outcome now)) xs) (healths p)
           = Some (healths q)"
    "allowance_store.updates (limit_updates xs) (allowances p) = Some (allowances q)"
proof -
  have "health_store.updates (map (\<lambda>(r, outcome, now). (r, observe_health outcome now)) xs) (healths p)
           = Some (healths q) \<and>
        allowance_store.updates (limit_updates xs) (allowances p) = Some (allowances q)"
    using assms
  proof (induction xs arbitrary: p)
    case (Cons x xs)
    obtain r outcome now where x: "x = (r, outcome, now)" by (cases x)
    then obtain p1 where o: "observe r outcome now p = Some p1" "observe_all xs p1 = Some q"
      using Cons.prems by (auto split: option.splits)
    note IH = Cons.IH [OF o(2)]
    show ?case
      using o(1) by (rule observe_cases; cases outcome)
        (use IH in \<open>auto simp: x limit_reading_def pool_health_def [symmetric] pool_allowance_def [symmetric]\<close>)
  qed simp
  then show
    "health_store.updates (map (\<lambda>(r, outcome, now). (r, observe_health outcome now)) xs) (healths p)
       = Some (healths q)"
    "allowance_store.updates (limit_updates xs) (allowances p) = Some (allowances q)"
    by simp_all
qed

text \<open>The health of one resource under a run of its own outcomes.\<close>

primrec health_run :: "(workload_outcome \<times> nat) list \<Rightarrow> resource_health \<Rightarrow> resource_health option" where
  "health_run [] h = Some h"
| "health_run (x # xs) h =
     (case observe_health (fst x) (snd x) h of None \<Rightarrow> None | Some h' \<Rightarrow> health_run xs h')"

text \<open>The allowance of one credential under the rate limits of its own.\<close>

primrec limit_run :: "(nat option \<times> nat) list \<Rightarrow> allowance \<Rightarrow> allowance option" where
  "limit_run [] a = Some a"
| "limit_run (x # xs) a =
     (case record_reading (limit_reading (fst x)) (snd x) a of
        None \<Rightarrow> None | Some a' \<Rightarrow> limit_run xs a')"

fun limits_of :: "credential_id \<Rightarrow> (free_resource \<times> workload_outcome \<times> nat) list \<Rightarrow> (nat option \<times> nat) list" where
  "limits_of c [] = []"
| "limits_of c ((r, RateLimited retry_after, now) # xs) =
     (if fr_credential r = c then (retry_after, now) # limits_of c xs else limits_of c xs)"
| "limits_of c (_ # xs) = limits_of c xs"

lemma health_run_through:
  "health_store.through (map (\<lambda>(outcome, now). observe_health outcome now) xs) h = health_run xs h"
  by (induction xs arbitrary: h) (auto split: option.splits)

lemma limit_run_through:
  "allowance_store.through (map snd (filter (\<lambda>x. fst x = c) (limit_updates xs))) a =
     limit_run (limits_of c xs) a"
  by (induction c xs arbitrary: a rule: limits_of.induct) (auto split: option.splits)

lemma limits_of_mem:
  "(retry_after, t) \<in> set (limits_of c xs) \<Longrightarrow>
     \<exists>r. (r, RateLimited retry_after, t) \<in> set xs \<and> fr_credential r = c"
  by (induction c xs rule: limits_of.induct) (auto split: if_splits)

lemma own_outcomes:
  "map snd (filter (\<lambda>x. fst x = r) (map (\<lambda>(r, outcome, now). (r, observe_health outcome now)) xs)) =
   map (\<lambda>(outcome, now). observe_health outcome now) (map snd (filter (\<lambda>x. fst x = r) xs))"
  by (induction xs) auto

lemma health_run_append:
  "health_run (xs @ ys) h = (case health_run xs h of None \<Rightarrow> None | Some h' \<Rightarrow> health_run ys h')"
  by (induction xs arbitrary: h) (auto split: option.splits)

lemma unat_u32_max: "unat u32_max = 2 ^ 32 - 1"
  by (simp add: u32_max_def unsigned_minus_1_eq_mask mask_eq_exp_minus_1)

lemma unat_saturating_inc:
  "unat (saturating_inc w) = (if unat w = 2 ^ 32 - 1 then 2 ^ 32 - 1 else Suc (unat w))"
proof (cases "w = u32_max")
  case False
  then have ne: "unat w \<noteq> 2 ^ 32 - 1"
    by (metis unat_u32_max word_unat_eq_iff)
  have "1 + w \<noteq> 0"
    using False by (metis add_eq_0_iff u32_max_def)
  then show ?thesis
    using ne False by (simp add: saturating_inc_def unatSuc add.commute)
qed (simp add: saturating_inc_def unat_u32_max)

lemma backoff_unat:
  "backoff h = min (30 * NANOS * 2 ^ (unat (consecutive_failures h) - 2)) (900 * NANOS)"
proof -
  have two: "unat (2 :: 32 word) = 2" by simp
  have steps: "unat (saturating_sub (consecutive_failures h) FAILURES_BEFORE_COOLDOWN) =
      unat (consecutive_failures h) - 2"
    by (auto simp: saturating_sub_def FAILURES_BEFORE_COOLDOWN_def unat_sub word_less_nat_alt word_le_nat_alt)
  define n where "n = unat (consecutive_failures h) - 2"
  have small: "30 * NANOS * 2 ^ min n 8 \<le> duration_max"
  proof -
    have "(2 :: nat) ^ min n 8 \<le> 2 ^ 8" by (rule power_increasing) auto
    then show ?thesis by (simp add: NANOS_def duration_max_def)
  qed
  have "min (30 * NANOS * 2 ^ min n 8) (900 * NANOS) = min (30 * NANOS * 2 ^ n) (900 * NANOS)"
  proof (cases "n \<le> 8")
    case False
    then have "(2 :: nat) ^ 8 \<le> 2 ^ n" by (intro power_increasing) auto
    then show ?thesis using False by (simp add: NANOS_def)
  qed simp
  then show ?thesis
    using small by (simp add: backoff_def Let_def steps n_def [symmetric] BASE_COOLDOWN_def MAX_COOLDOWN_def
        min.commute)
qed

text \<open>A resource for closed examples.\<close>

definition example_resource :: free_resource where
  "example_resource =
     \<lparr>fr_credential = \<lparr>cr_provider = u ''router'', cr_reference = Environment (u ''KEY'')\<rparr>,
      fr_model = u ''model''\<rparr>"

lemma observe_first_limit:
  "observe r (RateLimited None) now pool_new =
     Some (put_allowance (fr_credential r) (RequestPool None (Some 0) None None)
             (put_health r (health_new\<lparr>consecutive_failures := 1\<rparr>) pool_new))"
  by (simp add: observe_put observe_health_def fail_def Let_def FAILURES_BEFORE_COOLDOWN_def
      saturating_inc_def record_pool_put record_reading_def no_reading_def pool_new_def pool_health_def
      pool_allowance_def lookup_entry_def unknown_pool_def health_new_def u32_max_def word_le_nat_alt
      stated_def)

section \<open>Properties\<close>

text \<open>Each credential and each resource has one entry, whatever is done to the pool.\<close>

theorem one_entry_per_key:
  assumes "pool_reachable p"
  shows "distinct (map fst (allowances p)) \<and> distinct (map fst (healths p))"
  using assms
proof induction
  case (pool_observe p r outcome now q)
  then show ?case
    by (elim observe_cases) (simp_all add: distinct_put_entry)
next
  case (pool_adopt p r failures until cause rejected)
  then show ?case
    by (simp add: adopt_observed_put distinct_put_entry put_health_def)
next
  case (pool_record p c reading now q)
  then show ?case
    by (auto simp: record_pool_put distinct_put_entry put_allowance_def)
next
  case (pool_withhold p c known in_flight)
  then show ?case
    by (simp add: withhold_put distinct_put_entry put_allowance_def allowance_entry_def distinct_entry_of
        split: allowance.split)
next
  case (pool_token p c)
  then show ?case
    by (simp add: declare_token_priced_put distinct_put_entry put_allowance_def)
qed (simp add: pool_new_def)

theorem one_entry_per_key_witness:
  "\<exists>p. observe example_resource (RateLimited None) 5 pool_new = Some p \<and>
     distinct (map fst (allowances p)) \<and> distinct (map fst (healths p))"
  using one_entry_per_key [OF pool_observe [OF pool_start observe_first_limit]] observe_first_limit
  by blast

text \<open>
  C25. One key's history is its own: after any run of outcomes, over any resources, the health of a
  resource is what its own outcomes made of it in their order, and the allowance of a credential
  what its own rate limits made of it.
\<close>

theorem histories_are_separate:
  assumes "observe_all xs p = Some q"
  shows "health_run (map snd (filter (\<lambda>x. fst x = r) xs)) (pool_health r p) = Some (pool_health r q) \<and>
         limit_run (limits_of c xs) (pool_allowance c p) = Some (pool_allowance c q)"
  using health_store.own_history [OF observe_all_updates(1) [OF assms], of r]
    allowance_store.own_history [OF observe_all_updates(2) [OF assms], of c]
  unfolding own_outcomes health_run_through limit_run_through pool_health_def pool_allowance_def
  by simp

theorem histories_are_separate_witness:
  "\<exists>q. observe_all [(example_resource, RateLimited None, 5),
      (example_resource\<lparr>fr_model := u ''other''\<rparr>, Served, 6)] pool_new = Some q \<and>
     health_run [(RateLimited None, 5)] health_new = Some (pool_health example_resource q)"
proof -
  let ?xs = "[(example_resource, RateLimited None, 5), (example_resource\<lparr>fr_model := u ''other''\<rparr>, Served, 6)]"
  have other: "example_resource\<lparr>fr_model := u ''other''\<rparr> \<noteq> example_resource"
    by (simp add: example_resource_def)
  obtain q where q: "observe_all ?xs pool_new = Some q"
    by (simp add: observe_first_limit) (simp add: observe_put observe_health_def)
  have "pool_health example_resource pool_new = health_new"
    by (simp add: pool_health_def pool_new_def lookup_entry_def)
  then show ?thesis
    using histories_are_separate [OF q, of example_resource "fr_credential example_resource"] q other
    by (auto split: option.splits)
qed

text \<open>
  A wait the provider stated is kept exactly: whatever the resource's state was, it becomes available
  again at the stated instant, unless its credential was rejected.
\<close>

theorem stated_wait_is_kept:
  assumes "observe r (RateLimited (Some d)) now p = Some q"
  shows "is_available r t q \<longleftrightarrow> \<not> credential_rejected (pool_health r p) \<and> now + d \<le> t"
  using assms
  by (elim observe_cases)
    (auto simp: is_available_def observe_health_def fail_def Let_def instant_add_def health_available_def
      record_reading_def no_reading_def stated_def split: if_splits allowance.splits)

theorem stated_wait_is_kept_witness:
  "\<exists>q. observe example_resource (RateLimited (Some NANOS)) 5 pool_new = Some q \<and>
     is_available example_resource (5 + NANOS) q \<and> \<not> is_available example_resource 6 q"
proof -
  obtain q where q: "observe example_resource (RateLimited (Some NANOS)) 5 pool_new = Some q"
    by (simp add: observe_put observe_health_def fail_def Let_def instant_add_def instant_max_def
        NANOS_def record_pool_put record_reading_def no_reading_def pool_new_def pool_allowance_def
        lookup_entry_def unknown_pool_def)
  have "\<not> credential_rejected (pool_health example_resource pool_new)"
    by (simp add: pool_health_def pool_new_def lookup_entry_def health_new_def)
  then show ?thesis
    using stated_wait_is_kept [OF q] q by (simp add: NANOS_def)
qed

text \<open>
  A single rate limit without a stated wait takes every model behind the credential out of service
  for good: the empty pool it records has no reset, and no later outcome, of success or failure, of
  any resource, brings one back that the provider does not state.
\<close>

theorem unstated_limit_is_never_lifted:
  assumes "observe r (RateLimited None) now p = Some p1"
    and "pool_allowance (fr_credential r) p = RequestPool limit remaining None window"
    and "observe_all xs p1 = Some q"
    and "\<forall>d. \<forall>t. \<forall>r'. (r', RateLimited (Some d), t) \<in> set xs \<longrightarrow> fr_credential r' \<noteq> fr_credential r"
    and "fr_credential r' = fr_credential r"
  shows "\<not> is_available r' t q"
proof -
  let ?c = "fr_credential r"
  have keeps: "\<exists>l w. a' = RequestPool l (Some 0) None w"
    if "limit_run ys a = Some a'" "\<exists>l w. a = RequestPool l (Some 0) None w" "\<forall>y\<in>set ys. fst y = None"
    for ys a a'
    using that
    by (induction ys arbitrary: a)
      (auto simp: record_reading_def limit_reading_def no_reading_def stated_def)
  have unstated: "\<forall>y\<in>set (limits_of ?c xs). fst y = None"
    using assms(4) limits_of_mem by (metis option.exhaust prod.collapse)
  have "\<exists>l w. pool_allowance ?c p1 = RequestPool l (Some 0) None w"
    using assms(1,2)
    by (elim observe_cases) (auto simp: record_reading_def no_reading_def stated_def)
  then have "\<exists>l w. pool_allowance ?c q = RequestPool l (Some 0) None w"
    using keeps unstated allowance_store.own_history [OF observe_all_updates(2) [OF assms(3)], of ?c]
    unfolding limit_run_through pool_allowance_def by blast
  then show ?thesis
    using assms(5) by (auto simp: is_available_def)
qed

theorem unstated_limit_is_never_lifted_witness:
  "\<exists>p1 q. observe example_resource (RateLimited None) 5 pool_new = Some p1 \<and>
      observe_all [(example_resource, Served, 6)] p1 = Some q \<and>
      \<not> is_available (example_resource\<lparr>fr_model := u ''other''\<rparr>) 900 q"
proof -
  obtain p1 where p1: "observe example_resource (RateLimited None) 5 pool_new = Some p1"
    by (auto simp: observe_first_limit)
  obtain q where q: "observe_all [(example_resource, Served, 6)] p1 = Some q"
    by (simp add: observe_put observe_health_def)
  have "pool_allowance (fr_credential example_resource) pool_new = RequestPool None None None None"
    by (simp add: pool_allowance_def pool_new_def lookup_entry_def unknown_pool_def)
  from unstated_limit_is_never_lifted [OF p1 this q] show ?thesis
    using p1 q by auto
qed

text \<open>
  C26. The cooldown the pool invents: after n failures in a row that stated no wait, none of them panicking,
  a resource that had none is in no cooldown if n is 0 or 1, and otherwise until 30 seconds doubled
  n - 2 times, at most 15 minutes, after the last failure.
\<close>

theorem cooldown_schedule:
  assumes "\<forall>t\<in>set ts. t + 900 * NANOS \<le> instant_max" and "length ts < 2 ^ 32"
  shows "\<exists>h. health_run (map (Pair CapacityFailure) ts) health_new = Some h \<and>
     cooling_down_until h =
       (if length ts < 2 then None
        else Some (last ts + min (30 * NANOS * 2 ^ (length ts - 2)) (900 * NANOS)))"
proof -
  have "\<exists>h. health_run (map (Pair CapacityFailure) ts) health_new = Some h \<and>
     unat (consecutive_failures h) = length ts \<and>
     cooling_down_until h =
       (if length ts < 2 then None
        else Some (last ts + min (30 * NANOS * 2 ^ (length ts - 2)) (900 * NANOS)))"
    using assms
  proof (induction ts rule: rev_induct)
    case (snoc t us)
    then obtain h where h: "health_run (map (Pair CapacityFailure) us) health_new = Some h"
        "unat (consecutive_failures h) = length us"
        "cooling_down_until h =
           (if length us < 2 then None
            else Some (last us + min (30 * NANOS * 2 ^ (length us - 2)) (900 * NANOS)))"
      by auto
    have n: "unat (saturating_inc (consecutive_failures h)) = Suc (length us)"
      using h(2) snoc.prems(2) by (simp add: unat_saturating_inc)
    have ge: "FAILURES_BEFORE_COOLDOWN \<le> saturating_inc (consecutive_failures h) \<longleftrightarrow> us \<noteq> []"
      by (cases us) (simp_all add: FAILURES_BEFORE_COOLDOWN_def word_le_nat_alt n)
    show ?case
    proof (cases "us = []")
      case False
      have "instant_add t (min (30 * NANOS * 2 ^ (length us - 1)) (900 * NANOS)) =
          Some (t + min (30 * NANOS * 2 ^ (length us - 1)) (900 * NANOS))"
        using snoc.prems(1) by (auto simp: instant_add_def)
      then show ?thesis
        using False h(1) ge n
        by (simp add: health_run_append observe_health_def fail_def Let_def backoff_unat)
    next
      case True
      then show ?thesis
        using h ge n by (simp add: health_run_append observe_health_def fail_def Let_def)
    qed
  qed (simp add: health_new_def)
  then show ?thesis by blast
qed

theorem cooldown_schedule_witness:
  "\<exists>h. health_run (map (Pair CapacityFailure) [0, 1, 2, 3]) health_new = Some h \<and>
     cooling_down_until h = Some (3 + 120 * NANOS)"
proof -
  have "\<exists>h. health_run (map (Pair CapacityFailure) [0, 1, 2, 3]) health_new = Some h \<and>
     cooling_down_until h = (if length [0, 1, 2, 3 :: nat] < 2 then None
        else Some (last [0, 1, 2, 3] + min (30 * NANOS * 2 ^ (length [0, 1, 2, 3 :: nat] - 2)) (900 * NANOS)))"
    by (rule cooldown_schedule) (auto simp: instant_max_def NANOS_def)
  then show ?thesis by (simp add: NANOS_def)
qed

text \<open>A stated wait of the largest number of seconds a header can carry is a panic, not a wait.\<close>

theorem enormous_wait_panics:
  assumes "NANOS \<le> now"
  shows "observe r (RateLimited (Some ((2 ^ 63 - 1) * NANOS))) now p = None"
  using assms
  by (simp add: observe_put observe_health_def fail_def Let_def instant_add_def instant_max_def NANOS_def)

theorem enormous_wait_panics_witness:
  "observe example_resource (RateLimited (Some ((2 ^ 63 - 1) * NANOS))) (2 * NANOS) pool_new = None"
  by (rule enormous_wait_panics) simp

text \<open>
  Rotation removes the exhausted credential and nothing else: the next one is the first of the others
  that is available for the model, and there is none exactly when none of the others is.
\<close>

theorem rotation_removes_only_the_exhausted:
  "(rotate_from exhausted siblings model now p = Some c \<longleftrightarrow>
      (\<exists>before after. siblings = before @ c # after \<and> c \<noteq> exhausted \<and>
         is_available \<lparr>fr_credential = c, fr_model = model\<rparr> now p \<and>
         (\<forall>b\<in>set before. b = exhausted \<or> \<not> is_available \<lparr>fr_credential = b, fr_model = model\<rparr> now p))) \<and>
   (rotate_from exhausted siblings model now p = None \<longleftrightarrow>
      (\<forall>b\<in>set siblings. b = exhausted \<or> \<not> is_available \<lparr>fr_credential = b, fr_model = model\<rparr> now p))"
proof -
  let ?ok = "\<lambda>c. c \<noteq> exhausted \<and> is_available \<lparr>fr_credential = c, fr_model = model\<rparr> now p"
  have "rotate_from exhausted siblings model now p = List.find ?ok siblings"
    by (simp add: rotate_from_def find_filter)
  then show ?thesis
    by (auto simp: find_split find_None_iff)
qed

theorem rotation_removes_only_the_exhausted_witness:
  "rotate_from (fr_credential example_resource) [fr_credential example_resource] (u ''m'') 5 pool_new = None"
  using rotation_removes_only_the_exhausted [of "fr_credential example_resource"
      "[fr_credential example_resource]" "u ''m''" 5 pool_new]
  by simp

text \<open>
  The user's order: what is offered is exactly what was configured and not disabled, by the rank the
  user gave, and in the configured order among those of one rank.
\<close>

theorem arrange_is_the_users_order:
  "mset (arrange prefs rs) = mset (filter (\<lambda>r. \<not> is_disabled prefs r) rs) \<and>
   sorted (map (preference_rank prefs) (arrange prefs rs)) \<and>
   filter (\<lambda>r. preference_rank prefs r = k) (arrange prefs rs) =
     filter (\<lambda>r. preference_rank prefs r = k) (filter (\<lambda>r. \<not> is_disabled prefs r) rs)"
proof (intro conjI)
  show "filter (\<lambda>r. preference_rank prefs r = k) (arrange prefs rs) =
     filter (\<lambda>r. preference_rank prefs r = k) (filter (\<lambda>r. \<not> is_disabled prefs r) rs)"
    unfolding arrange_def by (rule sort_key_stable)
qed (simp_all add: arrange_def)

end
