(* ===== verification/Upstream.thy ===== *)
theory Upstream
  imports Free_Pool
begin

text \<open>
  Where the gateway forwards, \<open>crates/inference-gateway/src/gateway/upstream.rs\<close>: the backends it
  holds, which of them serves, and how a request finds its backend. The secrets attached to requests
  and the HTTP agent are left out; whether a base URL is an absolute http(s) one and whether a
  credential can stand in a header are arguments of the constructor, since both are answers of
  libraries. The clock is read once per question here, the source reads it once per candidate.
\<close>

section \<open>Routes\<close>

record route =
  rt_protocol :: rstr
  rt_tools :: tool_semantics
  rt_targets :: "rstr list"
  rt_base_url :: rstr

definition route_new :: "rstr \<Rightarrow> rstr list \<Rightarrow> rstr \<Rightarrow> route" where
  "route_new protocol targets base_url =
     \<lparr>rt_protocol = protocol, rt_tools = Unverified, rt_targets = targets,
      rt_base_url = trim_end_matches (\<lambda>c. c = 47) base_url\<rparr>"

definition VERSION_SEGMENT :: rstr where "VERSION_SEGMENT = u ''/v1''"

definition path_of :: "rstr \<Rightarrow> rstr" where
  "path_of target = takeWhile (\<lambda>c. c \<noteq> 63 \<and> c \<noteq> 35) target"

definition is_segment_prefix :: "rstr \<Rightarrow> rstr \<Rightarrow> bool" where
  "is_segment_prefix path pre \<longleftrightarrow>
     path = pre \<or> starts_with path pre \<and> starts_with (drop (length pre) path) [47]"

definition claims :: "route \<Rightarrow> rstr \<Rightarrow> bool" where
  "claims r target =
     (let path = path_of target;
          path' = (case strip_pre VERSION_SEGMENT path of
                     Some rest \<Rightarrow> if rest = [] \<or> starts_with rest [47] then rest else path
                   | None \<Rightarrow> path)
      in list_ex (is_segment_prefix path') (rt_targets r))"

section \<open>Backends\<close>

record upstream_backend =
  ub_provider :: rstr
  ub_routes :: "route list"
  ub_models :: "rstr list"
  ub_credential_id :: credential_id
  ub_cost :: cost
  ub_account :: "rstr option"

datatype upstream_error =
    NoProtocolServed rstr
  | BaseUrlNotAbsolute rstr rstr
  | CredentialNotHeaderSafe rstr
  | NoBackend

definition upstream_backend_new ::
    "(rstr \<Rightarrow> bool) \<Rightarrow> bool \<Rightarrow> rstr \<Rightarrow> route list \<Rightarrow> credential_id \<Rightarrow> cost \<Rightarrow>
       upstream_error + upstream_backend" where
  "upstream_backend_new absolute_http header_safe provider routes credential_id cost =
     (if routes = [] then Inl (NoProtocolServed provider)
      else (case List.find (\<lambda>r. \<not> absolute_http (rt_base_url r)) routes of
              Some r \<Rightarrow> Inl (BaseUrlNotAbsolute provider (rt_protocol r))
            | None \<Rightarrow>
                if \<not> header_safe then Inl (CredentialNotHeaderSafe provider)
                else Inr \<lparr>ub_provider = provider, ub_routes = routes, ub_models = [],
                          ub_credential_id = credential_id, ub_cost = cost, ub_account = None\<rparr>))"

definition normalise_model :: "rstr \<Rightarrow> rstr" where
  "normalise_model model =
     map (\<lambda>c. if c = 46 \<or> c = 95 then 45 else c) (map ascii_lower (trim model))"

definition with_models :: "rstr list \<Rightarrow> upstream_backend \<Rightarrow> upstream_backend" where
  "with_models models b = b\<lparr>ub_models := remdups_adj (sort (map normalise_model models))\<rparr>"

definition with_account :: "rstr \<Rightarrow> upstream_backend \<Rightarrow> upstream_backend" where
  "with_account a b = b\<lparr>ub_account := Some a\<rparr>"

definition account_of :: "upstream_backend \<Rightarrow> rstr" where
  "account_of b = (case ub_account b of Some a \<Rightarrow> a | None \<Rightarrow> ub_provider b)"

definition serves_model :: "rstr \<Rightarrow> upstream_backend \<Rightarrow> bool" where
  "serves_model model b \<longleftrightarrow> normalise_model model \<in> set (ub_models b)"

definition can_serve :: "assigned_model \<Rightarrow> upstream_backend \<Rightarrow> bool" where
  "can_serve model b =
     (case model_name model of
        Some name \<Rightarrow> ub_models b = [] \<or> serves_model name b
      | None \<Rightarrow> True)"

definition route_for :: "rstr \<Rightarrow> upstream_backend \<Rightarrow> route option" where
  "route_for target b = List.find (\<lambda>r. claims r target) (ub_routes b)"

definition as_routing_backend :: "rstr \<Rightarrow> assigned_model \<Rightarrow> upstream_backend \<Rightarrow> backend option" where
  "as_routing_backend protocol model b =
     map_option
       (\<lambda>r. backend_new (ub_provider b) protocol model (ub_credential_id b) (ub_cost b) (rt_tools r))
       (List.find (\<lambda>r. rt_protocol r = protocol) (ub_routes b))"

section \<open>The upstream\<close>

record upstream =
  us_backends :: "upstream_backend list"
  us_serving :: nat
  us_cooling :: "rstr \<rightharpoonup> nat"
  us_excluded :: "(rstr \<Rightarrow> bool) option"

definition with_failover :: "upstream_backend list \<Rightarrow> upstream_error + upstream" where
  "with_failover backends =
     (if backends = [] then Inl NoBackend
      else Inr \<lparr>us_backends = backends, us_serving = 0, us_cooling = Map.empty, us_excluded = None\<rparr>)"

definition with_exclusion :: "(rstr \<Rightarrow> bool) \<Rightarrow> upstream \<Rightarrow> upstream" where
  "with_exclusion excluded up = up\<lparr>us_excluded := Some excluded\<rparr>"

definition cool_down :: "rstr \<Rightarrow> nat \<Rightarrow> nat \<Rightarrow> upstream \<Rightarrow> upstream option" where
  "cool_down a rest now up =
     map_option (\<lambda>until. up\<lparr>us_cooling := (us_cooling up)(a \<mapsto> until)\<rparr>) (instant_add now rest)"

definition cooling :: "rstr \<Rightarrow> nat \<Rightarrow> upstream \<Rightarrow> bool" where
  "cooling a now up = (case us_cooling up a of Some until \<Rightarrow> now < until | None \<Rightarrow> False)"

definition is_excluded :: "rstr \<Rightarrow> upstream \<Rightarrow> bool" where
  "is_excluded a up = (case us_excluded up of Some excluded \<Rightarrow> excluded a | None \<Rightarrow> False)"

definition serving :: "upstream \<Rightarrow> upstream_backend" where
  "serving up = us_backends up ! us_serving up"

definition for_model :: "rstr \<Rightarrow> nat \<Rightarrow> upstream \<Rightarrow> upstream_backend option" where
  "for_model model now up =
     (let pool = filter (\<lambda>b. \<not> is_excluded (account_of b) up) (filter (serves_model model) (us_backends up))
      in case pool of
           [] \<Rightarrow> None
         | first # _ \<Rightarrow>
             Some (case List.find (\<lambda>b. \<not> cooling (account_of b) now up) pool of
                     Some b \<Rightarrow> b | None \<Rightarrow> first))"

definition serving_for :: "rstr option \<Rightarrow> nat \<Rightarrow> upstream \<Rightarrow> upstream_backend" where
  "serving_for model now up =
     (case (case model of Some m \<Rightarrow> for_model m now up | None \<Rightarrow> None) of
        Some b \<Rightarrow> b | None \<Rightarrow> serving up)"

definition serving_for_target :: "rstr option \<Rightarrow> rstr \<Rightarrow> nat \<Rightarrow> upstream \<Rightarrow> upstream_backend" where
  "serving_for_target model target now up =
     (let chosen = serving_for model now up
      in if route_for target chosen \<noteq> None then chosen
         else (case filter (\<lambda>b. route_for target b \<noteq> None) (us_backends up) of
                 [only] \<Rightarrow> only
               | _ \<Rightarrow> chosen))"

definition switch_to :: "credential_id \<Rightarrow> upstream \<Rightarrow> bool \<times> upstream" where
  "switch_to c up =
     (case position (\<lambda>b. ub_credential_id b = c) (us_backends up) of
        Some index \<Rightarrow> (True, up\<lparr>us_serving := index\<rparr>)
      | None \<Rightarrow> (False, up))"

definition credentials_of :: "rstr \<Rightarrow> upstream \<Rightarrow> credential_id list" where
  "credentials_of provider up =
     map ub_credential_id (filter (\<lambda>b. ub_provider b = provider) (us_backends up))"

definition backend_for :: "credential_id \<Rightarrow> rstr \<Rightarrow> assigned_model \<Rightarrow> upstream \<Rightarrow> backend option" where
  "backend_for c protocol model up =
     (case List.find (\<lambda>b. ub_credential_id b = c) (us_backends up) of
        Some b \<Rightarrow> as_routing_backend protocol model b
      | None \<Rightarrow> None)"

definition filter_map :: "('a \<Rightarrow> 'b option) \<Rightarrow> 'a list \<Rightarrow> 'b list" where
  "filter_map f xs = map the (filter (\<lambda>y. y \<noteq> None) (map f xs))"

definition failover_candidates :: "rstr \<Rightarrow> assigned_model \<Rightarrow> upstream \<Rightarrow> backend list" where
  "failover_candidates protocol model up =
     filter_map (as_routing_backend protocol model \<circ> snd)
       (filter (\<lambda>(index, b). index \<noteq> us_serving up \<and> can_serve model b)
         (enumerate 0 (us_backends up)))"

definition routing_backends :: "rstr \<Rightarrow> assigned_model \<Rightarrow> upstream \<Rightarrow> backend list" where
  "routing_backends protocol model up =
     filter_map (as_routing_backend protocol model) (filter (can_serve model) (us_backends up))"

section \<open>Lemmas\<close>

definition upstream_wf :: "upstream \<Rightarrow> bool" where
  "upstream_wf up \<longleftrightarrow> us_serving up < length (us_backends up)"

lemma with_failover_wf: "with_failover backends = Inr up \<Longrightarrow> upstream_wf up"
  by (auto simp: with_failover_def upstream_wf_def split: if_splits)

lemma switch_to_True:
  assumes "switch_to c up = (True, up')"
  shows "upstream_wf up'" "us_backends up' = us_backends up" "ub_credential_id (serving up') = c"
    "serving up' \<in> set (us_backends up)"
  using assms
  by (auto simp: switch_to_def upstream_wf_def serving_def dest: position_SomeD split: option.splits)

lemma switch_to_False: "switch_to c up = (False, up') \<Longrightarrow> up' = up"
  by (auto simp: switch_to_def split: option.splits)

lemma switch_to_known:
  "fst (switch_to c up) \<longleftrightarrow> c \<in> ub_credential_id ` set (us_backends up)"
  by (auto simp: switch_to_def split: option.splits dest: position_SomeD)

lemma as_routing_backend_Some:
  assumes "as_routing_backend protocol model b = Some r"
  shows "be_provider r = ub_provider b" "be_protocol r = protocol" "be_model r = model"
    "be_credential r = ub_credential_id b" "be_cost r = ub_cost b"
  using assms by (auto simp: as_routing_backend_def backend_new_def)

lemma set_filter_map: "set (filter_map f xs) = {y. \<exists>x\<in>set xs. f x = Some y}"
  by (force simp: filter_map_def)

lemma failover_candidate:
  "c \<in> set (failover_candidates protocol model up) \<longleftrightarrow>
     (\<exists>i<length (us_backends up). i \<noteq> us_serving up \<and> can_serve model (us_backends up ! i) \<and>
        as_routing_backend protocol model (us_backends up ! i) = Some c)"
  by (auto simp: failover_candidates_def set_filter_map in_set_enumerate_eq)

text \<open>Where a request is forwarded, against the backend the upstream serves from.\<close>

lemma first_available:
  assumes "(case pool of [] \<Rightarrow> None
    | first # _ \<Rightarrow> Some (case List.find P pool of Some b \<Rightarrow> b | None \<Rightarrow> first)) = Some b"
  shows "b \<in> set pool"
proof (cases "List.find P pool")
  case (Some c)
  then have "c \<in> set pool" by (auto simp: find_Some_iff)
  then show ?thesis using assms Some by (cases pool) auto
next
  case None
  then show ?thesis using assms by (cases pool) auto
qed

lemma for_model_SomeD:
  assumes "for_model m now up = Some b"
  shows "b \<in> set (us_backends up)" "serves_model m b" "\<not> is_excluded (account_of b) up"
  using first_available [OF assms [unfolded for_model_def Let_def]] by auto

lemma serving_for_cases:
  "serving_for model now up = serving up \<or>
     (\<exists>m. model = Some m \<and> for_model m now up = Some (serving_for model now up))"
  by (auto simp: serving_for_def split: option.split)

lemma serving_for_target_cases:
  "serving_for_target model target now up = serving_for model now up \<or>
     route_for target (serving_for model now up) = None \<and>
     filter (\<lambda>b. route_for target b \<noteq> None) (us_backends up) = [serving_for_target model target now up]"
  by (auto simp: serving_for_target_def Let_def split: list.split)

section \<open>Properties\<close>

text \<open>
  Which backend a model's pool answers: the pool is every backend that declares the model and is not
  excluded, in configured order; the first that is not resting is chosen, and the first at all when
  every one rests.
\<close>

theorem for_model_decides:
  "for_model m now up = Some b \<longleftrightarrow>
     (\<exists>before after.
        filter (\<lambda>b. \<not> is_excluded (account_of b) up) (filter (serves_model m) (us_backends up)) =
          before @ b # after \<and>
        (\<forall>x\<in>set before. cooling (account_of x) now up) \<and>
        (cooling (account_of b) now up \<longrightarrow>
           before = [] \<and> (\<forall>x\<in>set after. cooling (account_of x) now up)))"
proof -
  define pool where
    "pool = filter (\<lambda>b. \<not> is_excluded (account_of b) up) (filter (serves_model m) (us_backends up))"
  let ?rests = "\<lambda>b. cooling (account_of b) now up"
  have f: "for_model m now up = (case pool of [] \<Rightarrow> None
      | first # _ \<Rightarrow> Some (case List.find (\<lambda>b. \<not> ?rests b) pool of Some b \<Rightarrow> b | None \<Rightarrow> first))"
    unfolding for_model_def pool_def Let_def ..
  show ?thesis
  proof (cases "List.find (\<lambda>b. \<not> ?rests b) pool")
    case None
    then have rest: "\<forall>x\<in>set pool. ?rests x" by (auto simp: find_None_iff)
    show ?thesis
    proof (cases pool)
      case (Cons a list)
      then have answer: "for_model m now up = Some a" using None by (simp add: f)
      show ?thesis
        unfolding pool_def [symmetric] answer
      proof
        assume "Some a = Some b"
        then show "\<exists>before after. pool = before @ b # after \<and> (\<forall>x\<in>set before. ?rests x) \<and>
            (?rests b \<longrightarrow> before = [] \<and> (\<forall>x\<in>set after. ?rests x))"
          using rest Cons by (intro exI [of _ "[]"] exI [of _ list]) auto
      next
        assume "\<exists>before after. pool = before @ b # after \<and> (\<forall>x\<in>set before. ?rests x) \<and>
            (?rests b \<longrightarrow> before = [] \<and> (\<forall>x\<in>set after. ?rests x))"
        then obtain bs as where p: "pool = bs @ b # as" "?rests b \<longrightarrow> bs = []" by blast
        then have "bs = []" using rest by simp
        then show "Some a = Some b" using p(1) Cons by simp
      qed
    next
      case Nil
      then show ?thesis unfolding pool_def [symmetric] by (simp add: f)
    qed
  next
    case (Some c)
    then obtain before after where c: "pool = before @ c # after" "\<not> ?rests c" "\<forall>x\<in>set before. ?rests x"
      by (auto simp: find_split)
    have answer: "for_model m now up = Some c"
      using c(1) Some by (cases before) (auto simp: f)
    show ?thesis
      unfolding pool_def [symmetric] answer
    proof
      assume "Some c = Some b"
      then show "\<exists>before after. pool = before @ b # after \<and> (\<forall>x\<in>set before. ?rests x) \<and>
          (?rests b \<longrightarrow> before = [] \<and> (\<forall>x\<in>set after. ?rests x))"
        using c by (intro exI [of _ before] exI [of _ after]) auto
    next
      assume "\<exists>before after. pool = before @ b # after \<and> (\<forall>x\<in>set before. ?rests x) \<and>
          (?rests b \<longrightarrow> before = [] \<and> (\<forall>x\<in>set after. ?rests x))"
      then obtain bs as where p: "pool = bs @ b # as" "\<forall>x\<in>set bs. ?rests x"
          "?rests b \<longrightarrow> bs = [] \<and> (\<forall>x\<in>set as. ?rests x)" by blast
      have "\<not> ?rests b"
      proof
        assume r: "?rests b"
        then have "\<forall>x\<in>set pool. ?rests x" using p(3) unfolding p(1) by simp
        moreover have "c \<in> set pool" unfolding c(1) by simp
        ultimately show False using c(2) by blast
      qed
      then have "List.find (\<lambda>b. \<not> ?rests b) pool = Some b"
        unfolding find_split using p(1,2) by (intro exI [of _ bs] exI [of _ as]) simp
      then show "Some c = Some b" using Some by simp
    qed
  qed
qed

lemma plain_m: "normalise_model [109] = [109]"
  by code_simp

theorem for_model_decides_witness:
  "for_model (u ''m'') 0
     \<lparr>us_backends = [\<lparr>ub_provider = u ''p'', ub_routes = [], ub_models = [u ''m''],
        ub_credential_id = \<lparr>cr_provider = u ''p'', cr_reference = Environment (u ''K'')\<rparr>,
        ub_cost = Free, ub_account = None\<rparr>],
      us_serving = 0, us_cooling = [u ''p'' \<mapsto> 7], us_excluded = None\<rparr> =
   Some \<lparr>ub_provider = u ''p'', ub_routes = [], ub_models = [u ''m''],
        ub_credential_id = \<lparr>cr_provider = u ''p'', cr_reference = Environment (u ''K'')\<rparr>,
        ub_cost = Free, ub_account = None\<rparr>"
  by (subst for_model_decides)
    (rule exI [of _ "[]"], rule exI [of _ "[]"],
     simp add: is_excluded_def account_of_def serves_model_def plain_m)

text \<open>
  An account the person took out of its pool still carries the requests: when every account that declares
  the model is excluded, the request goes to the serving backend, excluded or not.
\<close>

theorem excluded_account_still_serves:
  assumes "\<forall>b\<in>set (us_backends up). serves_model m b \<longrightarrow> is_excluded (account_of b) up"
  shows "serving_for (Some m) now up = serving up"
proof -
  have "filter (\<lambda>b. \<not> is_excluded (account_of b) up) (filter (serves_model m) (us_backends up)) = []"
    using assms by (auto simp: filter_empty_conv)
  then show ?thesis by (simp add: serving_for_def for_model_def Let_def)
qed

theorem excluded_account_still_serves_witness:
  "serving_for (Some (u ''m'')) 0
     \<lparr>us_backends = [\<lparr>ub_provider = u ''p'', ub_routes = [], ub_models = [u ''m''],
        ub_credential_id = \<lparr>cr_provider = u ''p'', cr_reference = Environment (u ''K'')\<rparr>,
        ub_cost = Free, ub_account = None\<rparr>],
      us_serving = 0, us_cooling = Map.empty, us_excluded = Some (\<lambda>a. a = u ''p'')\<rparr> =
   \<lparr>ub_provider = u ''p'', ub_routes = [], ub_models = [u ''m''],
        ub_credential_id = \<lparr>cr_provider = u ''p'', cr_reference = Environment (u ''K'')\<rparr>,
        ub_cost = Free, ub_account = None\<rparr>"
  by (subst excluded_account_still_serves) (simp_all add: is_excluded_def account_of_def serving_def)

end
