(* ===== verification/Gateway_Session.thy ===== *)
theory Gateway_Session
  imports Interactive Upstream
begin

text \<open>
  What one live gateway session is on and what moves it,
  \<open>crates/inference-gateway/src/gateway/session/mod.rs\<close> and the pacing refusal of
  \<open>gateway/mod.rs\<close>: the state behind the session's lock, with every operation that changes it as a
  function of that state and of the upstream. One call runs under the lock, so it is one step here.
  An operation that adds a stated wait to the clock can panic and is \<open>None\<close> then. The evidence rows
  and the log lines are left out.
\<close>

section \<open>Exchanges\<close>

datatype stream_end = Complete | Truncated | Aborted | ClientClosed

record framing =
  fg_relayed :: "nat option"
  fg_ended :: stream_end

datatype exchange_outcome =
    Forwarded nat
  | Unauthenticated
  | Declined
  | Unrouted
  | NotReached rstr
  | ClientGone
  | IdleClosed

record exchange =
  ex_outcome :: exchange_outcome
  ex_protocol :: "rstr option"
  ex_requested_model :: "rstr option"
  ex_framing :: "framing option"
  ex_first_byte_at :: "int option"

record rate_limit_headers =
  rl_remaining :: "int option"
  rl_reset :: "int option"
  rl_retry_after :: "int option"
  rl_read_from :: "rstr list"

definition saturating_i64 :: "int \<Rightarrow> int" where
  "saturating_i64 i = max (- (2 ^ 63)) (min (2 ^ 63 - 1) i)"

definition resets_at_unix :: "rate_limit_headers \<Rightarrow> int \<Rightarrow> int option" where
  "resets_at_unix headers seen_at =
     map_option (\<lambda>reset. if reset \<ge> seen_at then reset else saturating_i64 (seen_at + reset))
       (rl_reset headers)"

definition stated_retry_after :: "rate_limit_headers \<Rightarrow> nat option" where
  "stated_retry_after headers =
     (case rl_retry_after headers of
        None \<Rightarrow> None
      | Some seconds \<Rightarrow> if seconds < 0 then None else Some (nat seconds * NANOS))"

record observation =
  ob_workload :: workload_outcome
  ob_failure :: "provider_failure option"

definition classify :: "exchange_outcome \<Rightarrow> nat option \<Rightarrow> observation option" where
  "classify outcome stated_wait =
     (case outcome of
        Forwarded status \<Rightarrow>
          Some (if 401 \<le> status \<and> status \<le> 403
                then \<lparr>ob_workload = CredentialRejected, ob_failure = None\<rparr>
                else if status = 429
                then \<lparr>ob_workload = RateLimited stated_wait, ob_failure = failure_from_status 429\<rparr>
                else if 500 \<le> status \<and> status \<le> 599
                then \<lparr>ob_workload = CapacityFailure, ob_failure = failure_from_status status\<rparr>
                else \<lparr>ob_workload = Served, ob_failure = failure_from_status status\<rparr>)
      | NotReached _ \<Rightarrow> Some \<lparr>ob_workload = CapacityFailure, ob_failure = Some Unreachable\<rparr>
      | _ \<Rightarrow> None)"

datatype failure_class =
    Throttle | ExhaustedQuota | Upstream5xx | Timeout | StreamAbort | EmptyCompletion
  | CredentialFailure | RequestIncompatibility | UnknownFailure

definition EXHAUSTED_QUOTA_HORIZON_SECONDS :: int where "EXHAUSTED_QUOTA_HORIZON_SECONDS = 300"

definition quota_is_exhausted :: "rate_limit_headers \<Rightarrow> int option \<Rightarrow> bool" where
  "quota_is_exhausted quota observed_at =
     (if rl_remaining quota \<noteq> Some 0 then False
      else
        (let reopens = (case observed_at of
               Some seen_at \<Rightarrow> map_option (\<lambda>t. saturating_i64 (t - seen_at)) (resets_at_unix quota seen_at)
             | None \<Rightarrow> rl_reset quota)
         in case (case reopens of Some s \<Rightarrow> Some s | None \<Rightarrow> rl_retry_after quota) of
              Some seconds \<Rightarrow> seconds \<ge> EXHAUSTED_QUOTA_HORIZON_SECONDS
            | None \<Rightarrow> False))"

definition TRANSPORT_TIMEOUT_DETAIL :: rstr where
  "TRANSPORT_TIMEOUT_DETAIL = u ''the provider did not answer in time''"

definition failure_class_of :: "exchange \<Rightarrow> rate_limit_headers \<Rightarrow> failure_class option" where
  "failure_class_of ex quota =
     (case ex_outcome ex of
        Forwarded status \<Rightarrow>
          if status = 401 \<or> status = 403 then Some CredentialFailure
          else if status = 402 then Some ExhaustedQuota
          else if status = 429 then
            Some (if quota_is_exhausted quota (ex_first_byte_at ex) then ExhaustedQuota else Throttle)
          else if 400 \<le> status \<and> status \<le> 499 then Some RequestIncompatibility
          else if 500 \<le> status \<and> status \<le> 599 then Some Upstream5xx
          else (case ex_framing ex of
                  Some f \<Rightarrow>
                    if fg_ended f = Truncated \<or> fg_ended f = Aborted then Some StreamAbort
                    else if fg_relayed f = Some 0 \<and> fg_ended f = Complete then Some EmptyCompletion
                    else None
                | None \<Rightarrow> None)
      | NotReached detail \<Rightarrow> Some (if detail = TRANSPORT_TIMEOUT_DETAIL then Timeout else UnknownFailure)
      | _ \<Rightarrow> None)"

section \<open>The state of a session\<close>

datatype change_cause = FailoverCause provider_failure | MigrationCause | CredentialRotation

record assignment_change =
  ac_from :: assignment
  ac_to :: assignment
  ac_cause :: change_cause
  ac_cache :: cache_locality

record session =
  se_pin :: pin
  se_assignment :: "assignment option"
  se_record :: "assignment_change list"
  se_free :: free_pool
  se_quota :: "(rate_limit_headers \<times> int) option"
  se_preference :: pairing_preference
  se_affinities :: pairing_affinities

definition session_new :: session where
  "session_new = \<lparr>se_pin = NoPin, se_assignment = None, se_record = [], se_free = pool_new,
     se_quota = None, se_preference = Strong, se_affinities = Map.empty\<rparr>"

definition note_change ::
    "assignment \<Rightarrow> assignment \<Rightarrow> change_cause \<Rightarrow> cache_locality \<Rightarrow> session \<Rightarrow> session" where
  "note_change from to cause cache s =
     s\<lparr>se_record := se_record s @ [\<lparr>ac_from = from, ac_to = to, ac_cause = cause, ac_cache = cache\<rparr>]\<rparr>"

definition bind_session :: "rstr \<Rightarrow> rstr \<Rightarrow> assigned_model \<Rightarrow> upstream \<Rightarrow> session \<Rightarrow> session" where
  "bind_session harness protocol model up s =
     (case as_routing_backend protocol model (serving up) of
        None \<Rightarrow> s
      | Some b \<Rightarrow> s\<lparr>se_assignment := Some (assignment_new harness b)\<rparr>)"

definition set_pairing_preference :: "rstr \<Rightarrow> pairing_affinities \<Rightarrow> session \<Rightarrow> session" where
  "set_pairing_preference slug affinities s =
     s\<lparr>se_preference := (case preference_from_slug slug of Some p \<Rightarrow> p | None \<Rightarrow> Strong),
       se_affinities := affinities\<rparr>"

definition pin_to_serving_provider :: "session \<Rightarrow> rstr option \<times> session" where
  "pin_to_serving_provider s =
     (case se_assignment s of
        None \<Rightarrow> (None, s)
      | Some a \<Rightarrow> (Some (be_provider (as_backend a)), s\<lparr>se_pin := ToProvider (be_provider (as_backend a))\<rparr>))"

definition unpin :: "session \<Rightarrow> session" where
  "unpin s = s\<lparr>se_pin := NoPin\<rparr>"

definition migrate_session ::
    "backend \<Rightarrow> session_activity \<Rightarrow> upstream \<Rightarrow> session \<Rightarrow> (migration_refusal + assignment) \<times> upstream \<times> session" where
  "migrate_session to activity up s =
     (case se_assignment s of
        None \<Rightarrow> (Inl RefusedMidTurn, up, s)
      | Some current \<Rightarrow>
          (case migrate (se_pin s) current to activity of
             Inl why \<Rightarrow> (Inl why, up, s)
           | Inr migrated \<Rightarrow>
               (case switch_to (be_credential (as_backend migrated)) up of
                  (False, up1) \<Rightarrow>
                    (Inl (RefusedIncompatible (ProtocolMismatch (be_provider (as_backend migrated))
                       (be_protocol (as_backend migrated)) (be_protocol (as_backend current)))), up1, s)
                | (True, up1) \<Rightarrow>
                    (Inr migrated, up1,
                     (note_change current migrated MigrationCause
                        (cache_between (as_backend current) (as_backend migrated)) s)
                       \<lparr>se_assignment := Some migrated\<rparr>))))"

definition observe_quota_headers :: "rate_limit_headers \<Rightarrow> int \<Rightarrow> session \<Rightarrow> session" where
  "observe_quota_headers headers observed_at s =
     (if rl_read_from headers = [] then s else s\<lparr>se_quota := Some (headers, observed_at)\<rparr>)"

section \<open>One finished exchange\<close>

datatype exchange_effect = Unchanged | RotatedCredential | FailedOver

primrec failovers :: "exchange_effect \<Rightarrow> nat" where
  "failovers FailedOver = 1"
| "failovers Unchanged = 0"
| "failovers RotatedCredential = 0"

definition UNBOUND_CLIENT :: rstr where "UNBOUND_CLIENT = u ''client''"

definition bound_by_exchange :: "upstream \<Rightarrow> exchange \<Rightarrow> backend option" where
  "bound_by_exchange up ex =
     (case ex_protocol ex of
        None \<Rightarrow> None
      | Some protocol \<Rightarrow>
          as_routing_backend protocol
            (case ex_requested_model ex of Some m \<Rightarrow> Named m | None \<Rightarrow> HarnessDefault) (serving up))"

definition model_key :: "assigned_model \<Rightarrow> rstr" where
  "model_key m = model_label m"

text \<open>The rotation to another key of the same provider, when there is one to rotate to.\<close>

definition rotate_credential ::
    "assignment \<Rightarrow> nat \<Rightarrow> upstream \<Rightarrow> session \<Rightarrow> (upstream \<times> session) option" where
  "rotate_credential current now up s =
     (case rotate_from (be_credential (as_backend current))
             (credentials_of (be_provider (as_backend current)) up)
             (model_key (be_model (as_backend current))) now (se_free s) of
        None \<Rightarrow> None
      | Some next \<Rightarrow>
          (case backend_for next (be_protocol (as_backend current)) (be_model (as_backend current)) up of
             None \<Rightarrow> None
           | Some b \<Rightarrow>
               (case switch_to next up of
                  (False, _) \<Rightarrow> None
                | (True, up1) \<Rightarrow>
                    (let to = assignment_new (as_harness current) b
                     in Some (up1,
                          (note_change current to CredentialRotation
                             (cache_between (as_backend current) (as_backend to)) s)
                            \<lparr>se_assignment := Some to\<rparr>)))))"

text \<open>The failover, over what the gateway knows: no past observations and no correlations.\<close>

definition fail_over ::
    "assignment \<Rightarrow> provider_failure \<Rightarrow> upstream \<Rightarrow> session \<Rightarrow> exchange_effect \<times> upstream \<times> session" where
  "fail_over current failure up s =
     (case on_provider_failure (se_pin s) current
             (failover_candidates (be_protocol (as_backend current)) (be_model (as_backend current)) up)
             (se_preference s) (se_affinities s) no_observations Map.empty of
        FailOver to cache _ _ \<Rightarrow>
          (case switch_to (be_credential (as_backend to)) up of
             (True, up1) \<Rightarrow>
               (FailedOver, up1,
                (note_change current to (FailoverCause failure) cache s)\<lparr>se_assignment := Some to\<rparr>)
           | (False, up1) \<Rightarrow> (Unchanged, up1, s))
      | _ \<Rightarrow> (Unchanged, up, s))"

definition observe_bound ::
    "assignment \<Rightarrow> observation \<Rightarrow> nat \<Rightarrow> upstream \<Rightarrow> session \<Rightarrow>
       (exchange_effect \<times> upstream \<times> session) option" where
  "observe_bound current ob now up s =
     (case observe \<lparr>fr_credential = be_credential (as_backend current),
                    fr_model = model_key (be_model (as_backend current))\<rparr> (ob_workload ob) now (se_free s) of
        None \<Rightarrow> None
      | Some free \<Rightarrow>
          (let s1 = s\<lparr>se_free := free\<rparr>;
               about_credential = (case ob_workload ob of
                 CredentialRejected \<Rightarrow> True | RateLimited _ \<Rightarrow> True | _ \<Rightarrow> False)
           in case (if about_credential then rotate_credential current now up s1 else None) of
                Some (up1, s2) \<Rightarrow> Some (RotatedCredential, up1, s2)
              | None \<Rightarrow>
                  (case ob_failure ob of
                     None \<Rightarrow> Some (Unchanged, up, s1)
                   | Some failure \<Rightarrow> Some (fail_over current failure up s1))))"

definition observe_exchange ::
    "exchange \<Rightarrow> nat \<Rightarrow> nat option \<Rightarrow> upstream \<Rightarrow> session \<Rightarrow>
       (exchange_effect \<times> upstream \<times> session) option" where
  "observe_exchange ex now stated_wait up s =
     (case classify (ex_outcome ex) stated_wait of
        None \<Rightarrow> Some (Unchanged, up, s)
      | Some ob \<Rightarrow>
          (case se_assignment s of
             Some current \<Rightarrow> observe_bound current ob now up s
           | None \<Rightarrow>
               (case bound_by_exchange up ex of
                  None \<Rightarrow> Some (Unchanged, up, s)
                | Some b \<Rightarrow>
                    (let bound = assignment_new UNBOUND_CLIENT b
                     in observe_bound bound ob now up (s\<lparr>se_assignment := Some bound\<rparr>)))))"

section \<open>Pacing\<close>

text \<open>Whether a request is answered without dialling: the wait, in seconds, that is handed back.\<close>

definition paced_refusal :: "nat \<Rightarrow> int \<Rightarrow> upstream \<Rightarrow> session \<Rightarrow> nat option" where
  "paced_refusal now now_unix up s =
     (case se_assignment s of
        None \<Rightarrow> None
      | Some a \<Rightarrow>
          (let r = \<lparr>fr_credential = be_credential (as_backend a),
                    fr_model = model_label (be_model (as_backend a))\<rparr>
           in if is_available r now (se_free s) then None
              else (case se_quota s of
                      None \<Rightarrow> None
                    | Some (headers, observed_at) \<Rightarrow>
                        (case rl_retry_after headers of
                           None \<Rightarrow> None
                         | Some declared \<Rightarrow>
                             (let remaining = wrap64 (wrap64 (observed_at + declared) - now_unix)
                              in if remaining \<le> 0 then None
                                 else if rotate_from (fr_credential r)
                                           (credentials_of (be_provider (as_backend a)) up)
                                           (fr_model r) now (se_free s) \<noteq> None
                                 then None
                                 else Some (nat remaining))))))"

section \<open>Lemmas\<close>

lemma note_change_simps [simp]:
  "se_pin (note_change from to cause cache s) = se_pin s"
  "se_assignment (note_change from to cause cache s) = se_assignment s"
  "se_free (note_change from to cause cache s) = se_free s"
  "se_preference (note_change from to cause cache s) = se_preference s"
  "se_affinities (note_change from to cause cache s) = se_affinities s"
  "se_record (note_change from to cause cache s) =
     se_record s @ [\<lparr>ac_from = from, ac_to = to, ac_cause = cause, ac_cache = cache\<rparr>]"
  by (simp_all add: note_change_def)

text \<open>What a move of the session is: one entry of the record, and the upstream on the new key.\<close>

definition moved ::
    "assignment \<Rightarrow> assignment \<Rightarrow> change_cause \<Rightarrow> upstream \<Rightarrow> session \<Rightarrow> upstream \<Rightarrow> session \<Rightarrow> bool" where
  "moved a b cause up s up' s' \<longleftrightarrow>
     se_assignment s' = Some b \<and> se_pin s' = se_pin s \<and> as_harness b = as_harness a \<and>
     be_model (as_backend b) = be_model (as_backend a) \<and>
     be_protocol (as_backend b) = be_protocol (as_backend a) \<and>
     be_credential (as_backend b) \<noteq> be_credential (as_backend a) \<and>
     se_record s' = se_record s @ [\<lparr>ac_from = a, ac_to = b, ac_cause = cause,
       ac_cache = cache_between (as_backend a) (as_backend b)\<rparr>] \<and>
     us_backends up' = us_backends up \<and> us_serving up' < length (us_backends up') \<and>
     ub_credential_id (serving up') = be_credential (as_backend b)"

lemma rotate_credential_Some:
  assumes "rotate_credential a now up s = Some (up', s')"
  shows "\<exists>b. moved a b CredentialRotation up s up' s' \<and>
     be_credential (as_backend b) \<in> set (credentials_of (be_provider (as_backend a)) up) \<and>
     (\<exists>ub. List.find (\<lambda>ub. ub_credential_id ub = be_credential (as_backend b)) (us_backends up) = Some ub \<and>
        be_provider (as_backend b) = ub_provider ub)"
proof -
  obtain c b where c: "rotate_from (be_credential (as_backend a))
      (credentials_of (be_provider (as_backend a)) up) (model_key (be_model (as_backend a))) now (se_free s) = Some c"
    "backend_for c (be_protocol (as_backend a)) (be_model (as_backend a)) up = Some b"
    "switch_to c up = (True, up')"
    "s' = (note_change a (assignment_new (as_harness a) b) CredentialRotation
             (cache_between (as_backend a) b) s)\<lparr>se_assignment := Some (assignment_new (as_harness a) b)\<rparr>"
    using assms by (auto simp: rotate_credential_def Let_def split: option.splits prod.splits bool.splits)
  obtain ub where ub: "List.find (\<lambda>b. ub_credential_id b = c) (us_backends up) = Some ub"
      "as_routing_backend (be_protocol (as_backend a)) (be_model (as_backend a)) ub = Some b"
    using c(2) by (auto simp: backend_for_def split: option.splits)
  have uc: "ub_credential_id ub = c" using ub(1) by (auto simp: find_Some_iff)
  have mem: "c \<noteq> be_credential (as_backend a)" "c \<in> set (credentials_of (be_provider (as_backend a)) up)"
    using c(1) find_SomeD [of _ "filter _ _"] by (auto simp: rotate_from_def dest!: find_SomeD)
  show ?thesis
    using switch_to_True [OF c(3)] as_routing_backend_Some [OF ub(2)] uc ub(1) mem
    by (intro exI [of _ "assignment_new (as_harness a) b"])
      (simp add: moved_def c(4) upstream_wf_def)
qed

lemma fail_over_cases:
  assumes "fail_over a failure up s = (effect, up', s')"
  obtains "effect = Unchanged" "up' = up" "s' = s"
  | b where "effect = FailedOver" "se_pin s = NoPin"
      "tool_rank (be_tools (as_backend a)) \<le> tool_rank (be_tools (as_backend b))"
      "as_backend b \<in> set (failover_candidates (be_protocol (as_backend a)) (be_model (as_backend a)) up)"
      "se_assignment s' = Some b" "se_pin s' = se_pin s" "as_harness b = as_harness a"
      "be_model (as_backend b) = be_model (as_backend a)"
      "be_protocol (as_backend b) = be_protocol (as_backend a)"
      "se_record s' = se_record s @ [\<lparr>ac_from = a, ac_to = b, ac_cause = FailoverCause failure,
         ac_cache = cache_between (as_backend a) (as_backend b)\<rparr>]"
      "us_backends up' = us_backends up" "us_serving up' < length (us_backends up')"
      "ub_credential_id (serving up') = be_credential (as_backend b)"
      "cache_between (as_backend a) (as_backend b) \<noteq> Preserved"
proof -
  let ?cs = "failover_candidates (be_protocol (as_backend a)) (be_model (as_backend a)) up"
  let ?r = "on_provider_failure (se_pin s) a ?cs (se_preference s) (se_affinities s) no_observations Map.empty"
  consider (stays) "\<nexists>to cache e d. ?r = FailOver to cache e d"
    | (unknown) to cache e d up1 where "?r = FailOver to cache e d"
        "switch_to (be_credential (as_backend to)) up = (False, up1)"
    | (moves) to cache e d up1 where "?r = FailOver to cache e d"
        "switch_to (be_credential (as_backend to)) up = (True, up1)"
    by (metis (full_types) surj_pair)
  then show ?thesis
  proof cases
    case stays
    then show ?thesis
      using assms that(1) by (cases ?r) (auto simp: fail_over_def)
  next
    case unknown
    then show ?thesis
      using assms that(1) switch_to_False [OF unknown(2)] by (auto simp: fail_over_def)
  next
    case moves
    have p: "se_pin s = NoPin"
      using moves(1) by (cases "se_pin s") (simp_all add: on_provider_failure_def)
    note r = failure_response(1) [OF moves(1) [unfolded p] refl]
    obtain before b after where b: "filter (\<lambda>c. be_model c = be_model (as_backend a))
          (filter (may_replace a) ?cs) = before @ b # after" "to = assignment_new (as_harness a) b"
      using best_of_map [OF r [THEN conjunct1] r [THEN conjunct2, THEN conjunct1]] by auto
    from b(1) have m: "b \<in> set (filter (\<lambda>c. be_model c = be_model (as_backend a))
          (filter (may_replace a) ?cs))" by simp
    have result: "effect = FailedOver" "up' = up1"
      "s' = (note_change a to (FailoverCause failure) cache s)\<lparr>se_assignment := Some to\<rparr>"
      using assms moves by (auto simp: fail_over_def)
    show ?thesis
      by (rule that(2) [of to])
        (use result p m b(2) r switch_to_True [OF moves(2)] in
          \<open>auto simp: may_replace_def upstream_wf_def\<close>)
  qed
qed

text \<open>What one exchange can do to a session that is assigned.\<close>

lemma observe_bound_cases:
  assumes "observe_bound a ob now up s = Some (effect, up', s')" and "se_assignment s = Some a"
  obtains (stays) "effect = Unchanged" "up' = up" "se_assignment s' = Some a" "se_pin s' = se_pin s"
      "se_record s' = se_record s"
  | (rotates) b where "effect = RotatedCredential" "moved a b CredentialRotation up s up' s'"
      "be_credential (as_backend b) \<in> set (credentials_of (be_provider (as_backend a)) up)"
      "\<exists>ub. List.find (\<lambda>ub. ub_credential_id ub = be_credential (as_backend b)) (us_backends up) = Some ub \<and>
         be_provider (as_backend b) = ub_provider ub"
  | (fails_over) b failure where "effect = FailedOver" "se_pin s = NoPin"
      "tool_rank (be_tools (as_backend a)) \<le> tool_rank (be_tools (as_backend b))"
      "as_backend b \<in> set (failover_candidates (be_protocol (as_backend a)) (be_model (as_backend a)) up)"
      "se_assignment s' = Some b" "se_pin s' = se_pin s" "as_harness b = as_harness a"
      "be_model (as_backend b) = be_model (as_backend a)"
      "be_protocol (as_backend b) = be_protocol (as_backend a)"
      "se_record s' = se_record s @ [\<lparr>ac_from = a, ac_to = b, ac_cause = FailoverCause failure,
         ac_cache = cache_between (as_backend a) (as_backend b)\<rparr>]"
      "us_backends up' = us_backends up" "us_serving up' < length (us_backends up')"
      "ub_credential_id (serving up') = be_credential (as_backend b)"
      "cache_between (as_backend a) (as_backend b) \<noteq> Preserved"
proof -
  obtain free where free: "observe \<lparr>fr_credential = be_credential (as_backend a),
      fr_model = model_key (be_model (as_backend a))\<rparr> (ob_workload ob) now (se_free s) = Some free"
    using assms(1) by (auto simp: observe_bound_def split: option.splits)
  let ?s1 = "s\<lparr>se_free := free\<rparr>"
  have s1: "se_assignment ?s1 = Some a" "se_pin ?s1 = se_pin s" "se_record ?s1 = se_record s"
    by (simp_all add: assms(2))
  consider (rot) "rotate_credential a now up ?s1 = Some (up', s')" "effect = RotatedCredential"
    | (same) "effect = Unchanged" "up' = up" "s' = ?s1"
    | (over) failure where "fail_over a failure up ?s1 = (effect, up', s')"
    using assms(1) unfolding observe_bound_def free Let_def
    by (auto split: option.splits if_splits)
  then show ?thesis
  proof cases
    case rot
    then obtain b where "moved a b CredentialRotation up ?s1 up' s'"
      "be_credential (as_backend b) \<in> set (credentials_of (be_provider (as_backend a)) up)"
      "\<exists>ub. List.find (\<lambda>ub. ub_credential_id ub = be_credential (as_backend b)) (us_backends up) = Some ub \<and>
         be_provider (as_backend b) = ub_provider ub"
      using rotate_credential_Some by blast
    then show ?thesis
      using rot(2) s1 by (intro rotates [of b]) (auto simp: moved_def)
  next
    case same
    then show ?thesis using stays s1 by simp
  next
    case over
    then show ?thesis
      by (rule fail_over_cases) (use stays fails_over s1 in metis)+
  qed
qed

lemma migrate_session_cases:
  assumes "migrate_session to activity up s = (r, up', s')"
  obtains (refused) why where "r = Inl why" "up' = up" "s' = s"
  | (migrated) a b where "se_assignment s = Some a" "migrate (se_pin s) a to activity = Inr b" "r = Inr b"
      "us_backends up' = us_backends up" "us_serving up' < length (us_backends up')"
      "ub_credential_id (serving up') = be_credential (as_backend b)"
      "s' = (note_change a b MigrationCause (cache_between (as_backend a) (as_backend b)) s)
              \<lparr>se_assignment := Some b\<rparr>"
proof (cases "se_assignment s")
  case None
  then show ?thesis using assms refused [of RefusedMidTurn] by (auto simp: migrate_session_def)
next
  case (Some a)
  show ?thesis
  proof (cases "migrate (se_pin s) a to activity")
    case (Inl why)
    then show ?thesis using assms refused [of why] Some by (auto simp: migrate_session_def)
  next
    case (Inr b)
    obtain ok up1 where sw: "switch_to (be_credential (as_backend b)) up = (ok, up1)" by fastforce
    show ?thesis
    proof (cases ok)
      case True
      then show ?thesis
        using assms Some Inr sw switch_to_True [of _ up up1]
        by (intro migrated [of a b]) (auto simp: migrate_session_def upstream_wf_def)
    next
      case False
      then show ?thesis
        using assms Some Inr sw switch_to_False [of _ up up1] refused by (auto simp: migrate_session_def)
    qed
  qed
qed

section \<open>A session's life\<close>

text \<open>The states a session and its upstream reach, over the backends they were built with.\<close>

inductive session_reachable :: "upstream_backend list \<Rightarrow> upstream \<Rightarrow> session \<Rightarrow> bool"
  for backends :: "upstream_backend list" where
  session_start: "with_failover backends = Inr up \<Longrightarrow> session_reachable backends up session_new"
| session_exclusion: "session_reachable backends up s \<Longrightarrow>
     session_reachable backends (with_exclusion excluded up) s"
| session_cool: "session_reachable backends up s \<Longrightarrow> cool_down account rest now up = Some up' \<Longrightarrow>
     session_reachable backends up' s"
| session_bind: "session_reachable backends up s \<Longrightarrow>
     session_reachable backends up (bind_session harness protocol model up s)"
| session_preference: "session_reachable backends up s \<Longrightarrow>
     session_reachable backends up (set_pairing_preference slug affinities s)"
| session_pin: "session_reachable backends up s \<Longrightarrow> pin_to_serving_provider s = (p, s') \<Longrightarrow>
     session_reachable backends up s'"
| session_unpin: "session_reachable backends up s \<Longrightarrow> session_reachable backends up (unpin s)"
| session_migrate: "session_reachable backends up s \<Longrightarrow>
     migrate_session to activity up s = (r, up', s') \<Longrightarrow> session_reachable backends up' s'"
| session_quota: "session_reachable backends up s \<Longrightarrow>
     session_reachable backends up (observe_quota_headers headers seen s)"
| session_exchange: "session_reachable backends up s \<Longrightarrow>
     observe_exchange ex now stated_wait up s = Some (effect, up', s') \<Longrightarrow>
     session_reachable backends up' s'"

text \<open>The backend a session believes it is on is the one the gateway forwards to.\<close>

definition agrees :: "upstream_backend list \<Rightarrow> upstream \<Rightarrow> session \<Rightarrow> bool" where
  "agrees backends up s \<longleftrightarrow>
     us_backends up = backends \<and> us_serving up < length backends \<and>
     (\<forall>a. se_assignment s = Some a \<longrightarrow> be_credential (as_backend a) = ub_credential_id (serving up))"

lemma agrees_bound:
  assumes "agrees backends up s" and "se_assignment s = Some a"
    and "observe_bound a ob now up s = Some (effect, up', s')"
  shows "agrees backends up' s'"
  using assms(3,2)
  by (rule observe_bound_cases) (use assms(1,2) in \<open>auto simp: agrees_def moved_def\<close>)

lemma agrees_assign:
  assumes "agrees backends up s" and "as_routing_backend protocol model (serving up) = Some b"
  shows "agrees backends up (s\<lparr>se_assignment := Some (assignment_new harness b)\<rparr>)"
  using assms as_routing_backend_Some(4) by (auto simp: agrees_def)

lemma session_agrees: "session_reachable backends up s \<Longrightarrow> agrees backends up s"
proof (induction rule: session_reachable.induct)
  case (session_start up)
  then show ?case
    by (auto simp: agrees_def session_new_def with_failover_def split: if_splits)
next
  case (session_bind up s harness protocol model)
  then show ?case
    by (auto simp: bind_session_def agrees_assign split: option.split)
next
  case (session_migrate up s to activity r up' s')
  then show ?case
    by (elim migrate_session_cases) (auto simp: agrees_def)
next
  case (session_exchange up s ex now stated_wait effect up' s')
  then show ?case
    by (auto simp: observe_exchange_def bound_by_exchange_def Let_def
        intro: agrees_bound agrees_assign split: option.splits)
qed (auto simp: agrees_def with_exclusion_def cool_down_def serving_def set_pairing_preference_def
      pin_to_serving_provider_def unpin_def observe_quota_headers_def split: option.splits)
text \<open>A run of exchanges.\<close>

fun observe_exchanges ::
    "(exchange \<times> nat \<times> nat option) list \<Rightarrow> upstream \<Rightarrow> session \<Rightarrow> (upstream \<times> session) option" where
  "observe_exchanges [] up s = Some (up, s)"
| "observe_exchanges ((ex, now, stated_wait) # xs) up s =
     (case observe_exchange ex now stated_wait up s of
        None \<Rightarrow> None
      | Some (effect, up1, s1) \<Rightarrow> observe_exchanges xs up1 s1)"

text \<open>The record read as a path from one assignment to another.\<close>

fun follows :: "assignment \<Rightarrow> assignment_change list \<Rightarrow> assignment \<Rightarrow> bool" where
  "follows a [] b \<longleftrightarrow> a = b"
| "follows a (c # cs) b \<longleftrightarrow> ac_from c = a \<and> follows (ac_to c) cs b"

definition transparent :: "assignment_change \<Rightarrow> bool" where
  "transparent c \<longleftrightarrow> ac_cause c \<noteq> MigrationCause \<and> ac_cache c \<noteq> Preserved \<and>
     as_harness (ac_to c) = as_harness (ac_from c) \<and>
     be_model (as_backend (ac_to c)) = be_model (as_backend (ac_from c)) \<and>
     be_protocol (as_backend (ac_to c)) = be_protocol (as_backend (ac_from c))"

lemma exchange_path:
  assumes "observe_exchange ex now stated_wait up s = Some (effect, up', s')"
    and "se_assignment s = Some a"
  shows "\<exists>b new. se_assignment s' = Some b \<and> se_record s' = se_record s @ new \<and>
     length new \<le> 1 \<and> follows a new b \<and> list_all transparent new"
proof (cases "classify (ex_outcome ex) stated_wait")
  case None
  then show ?thesis
    using assms by (intro exI [of _ a] exI [of _ "[]"]) (simp add: observe_exchange_def)
next
  case (Some ob)
  then have "observe_bound a ob now up s = Some (effect, up', s')"
    using assms by (simp add: observe_exchange_def)
  then show ?thesis
    using assms(2)
  proof (cases rule: observe_bound_cases)
    case stays
    then show ?thesis by (intro exI [of _ a] exI [of _ "[]"]) simp
  next
    case (rotates b)
    then show ?thesis
      by (intro exI [of _ b] exI [of _ "[\<lparr>ac_from = a, ac_to = b, ac_cause = CredentialRotation,
             ac_cache = cache_between (as_backend a) (as_backend b)\<rparr>]"])
        (auto simp: moved_def transparent_def)
  next
    case (fails_over b failure)
    then show ?thesis
      by (intro exI [of _ b] exI [of _ "[\<lparr>ac_from = a, ac_to = b, ac_cause = FailoverCause failure,
             ac_cache = cache_between (as_backend a) (as_backend b)\<rparr>]"])
        (auto simp: transparent_def)
  qed
qed

lemma follows_append: "follows a xs b \<Longrightarrow> follows b ys c \<Longrightarrow> follows a (xs @ ys) c"
  by (induction a xs b rule: follows.induct) auto

lemma follows_transparent:
  "follows a cs b \<Longrightarrow> list_all transparent cs \<Longrightarrow>
     as_harness b = as_harness a \<and> be_model (as_backend b) = be_model (as_backend a) \<and>
     be_protocol (as_backend b) = be_protocol (as_backend a)"
  by (induction a cs b rule: follows.induct) (auto simp: transparent_def)

section \<open>A small gateway for closed examples\<close>

definition example_key :: "string \<Rightarrow> upstream_backend" where
  "example_key var = \<lparr>ub_provider = u ''router'',
     ub_routes = [route_new (u ''openai-chat'') [u ''/chat''] (u ''https://router'')], ub_models = [],
     ub_credential_id = \<lparr>cr_provider = u ''router'', cr_reference = Environment (u var)\<rparr>,
     ub_cost = Free, ub_account = None\<rparr>"

definition example_upstream :: upstream where
  "example_upstream = \<lparr>us_backends = [example_key ''A'', example_key ''B''], us_serving = 0,
     us_cooling = Map.empty, us_excluded = None\<rparr>"

definition example_assignment :: "string \<Rightarrow> assignment" where
  "example_assignment var = assignment_new (u ''codex'')
     (backend_new (u ''router'') (u ''openai-chat'') (Named (u ''m''))
       \<lparr>cr_provider = u ''router'', cr_reference = Environment (u var)\<rparr> Free Unverified)"

definition example_session :: session where
  "example_session = bind_session (u ''codex'') (u ''openai-chat'') (Named (u ''m'')) example_upstream session_new"

definition example_refusal :: exchange where
  "example_refusal = \<lparr>ex_outcome = Forwarded 401, ex_protocol = Some (u ''openai-chat''),
     ex_requested_model = None, ex_framing = None, ex_first_byte_at = Some 0\<rparr>"

lemma example_routing_backend:
  "as_routing_backend (u ''openai-chat'') (Named (u ''m'')) (example_key var) =
     Some (as_backend (example_assignment var))"
  by (simp add: as_routing_backend_def example_key_def route_new_def example_assignment_def)

lemma example_serving: "serving example_upstream = example_key ''A''"
  by (simp add: serving_def example_upstream_def)

lemma example_session_eq:
  "example_session = session_new\<lparr>se_assignment := Some (example_assignment ''A'')\<rparr>"
  by (simp add: example_session_def bind_session_def example_serving example_routing_backend del: u.simps)
    (simp add: example_assignment_def)

lemma example_reachable: "session_reachable [example_key ''A'', example_key ''B''] example_upstream example_session"
  unfolding example_session_def
  by (intro session_bind session_start) (simp add: with_failover_def example_upstream_def)

lemma example_rotation:
  "\<exists>up' s'. observe_exchange example_refusal 5 None example_upstream (example_session\<lparr>se_pin := p\<rparr>) =
     Some (RotatedCredential, up', s') \<and> se_assignment s' = Some (example_assignment ''B'')"
proof -
  let ?A = "example_assignment ''A''"
  let ?r = "\<lparr>fr_credential = be_credential (as_backend ?A), fr_model = model_key (be_model (as_backend ?A))\<rparr>"
  let ?free = "put_health ?r (health_new\<lparr>credential_rejected := True\<rparr>) pool_new"
  have obs: "observe ?r CredentialRejected 5 pool_new = Some ?free"
    by (simp add: observe_put observe_health_def pool_health_def pool_new_def lookup_entry_def)
  have creds: "be_credential (as_backend ?A) = ub_credential_id (example_key ''A'')"
    "ub_credential_id (example_key ''A'') \<noteq> ub_credential_id (example_key ''B'')"
    by (simp_all add: example_assignment_def example_key_def backend_new_def)
  have siblings: "credentials_of (be_provider (as_backend ?A)) example_upstream =
      [ub_credential_id (example_key ''A''), ub_credential_id (example_key ''B'')]"
    by (simp add: credentials_of_def example_upstream_def example_assignment_def example_key_def backend_new_def)
  have fresh: "is_available \<lparr>fr_credential = ub_credential_id (example_key ''B''), fr_model = m\<rparr> 5 ?free" for m
    using creds(2) by (simp add: is_available_def creds(1) pool_health_def pool_allowance_def pool_new_def
        lookup_entry_def put_entry_simps unknown_pool_def health_available_def health_new_def eq_commute)
  have rot: "rotate_from (be_credential (as_backend ?A)) (credentials_of (be_provider (as_backend ?A)) example_upstream)
      m 5 ?free = Some (ub_credential_id (example_key ''B''))" for m
    using creds fresh [of m] unfolding siblings by (simp add: rotate_from_def)
  have other: "backend_for (ub_credential_id (example_key ''B'')) (be_protocol (as_backend ?A))
      (be_model (as_backend ?A)) example_upstream = Some (as_backend (example_assignment ''B''))"
    using creds(2) example_routing_backend [of "''B''"]
    by (simp add: backend_for_def example_upstream_def example_assignment_def backend_new_def)
  have sw: "switch_to (ub_credential_id (example_key ''B'')) example_upstream = (True, example_upstream\<lparr>us_serving := 1\<rparr>)"
    using creds(2) by (simp add: switch_to_def example_upstream_def)
  have "as_harness ?A = as_harness (example_assignment ''B'')"
    by (simp add: example_assignment_def)
  then have B: "assignment_new (as_harness ?A) (as_backend (example_assignment ''B'')) = example_assignment ''B''"
    by (simp add: example_assignment_def)
  have free0: "se_free session_new = pool_new" by (simp add: session_new_def)
  show ?thesis
    by (simp add: observe_exchange_def example_refusal_def classify_def example_session_eq observe_bound_def
        obs free0 rotate_credential_def rot other sw B Let_def)
qed
lemma example_unpinned: "example_session\<lparr>se_pin := NoPin\<rparr> = example_session"
  by (simp add: example_session_eq session_new_def)

text \<open>A session whose only key was refused, with a wait of a minute on record.\<close>

definition example_paced :: session where
  "example_paced = example_session
     \<lparr>se_free := put_health \<lparr>fr_credential = be_credential (as_backend (example_assignment ''A'')),
          fr_model = model_label (be_model (as_backend (example_assignment ''A'')))\<rparr>
        (health_new\<lparr>credential_rejected := True\<rparr>) pool_new,
      se_quota := Some (\<lparr>rl_remaining = None, rl_reset = None, rl_retry_after = Some 60,
        rl_read_from = [u ''retry-after'']\<rparr>, 100)\<rparr>"

lemma example_paced_refusal:
  "paced_refusal 5 110 (example_upstream\<lparr>us_backends := [example_key ''A'']\<rparr>) example_paced = Some 50"
proof -
  have "credentials_of (be_provider (as_backend (example_assignment ''A'')))
      (example_upstream\<lparr>us_backends := [example_key ''A'']\<rparr>) =
      [be_credential (as_backend (example_assignment ''A''))]"
    by (simp add: credentials_of_def example_upstream_def example_assignment_def example_key_def backend_new_def)
  then show ?thesis
    by (simp add: paced_refusal_def example_paced_def example_session_eq Let_def is_available_def
        health_available_def rotate_from_def wrap64_def)
qed

section \<open>Properties\<close>

text \<open>
  C13. The session is where the upstream serves from, and a request leaves it only for a stated reason: in
  every state the operations reach, in any order, the credential of the session's assignment is that of
  the serving backend; and the backend a request is forwarded to, whatever model it names and whatever
  it asks for, is one the upstream has and either carries that same credential, or was chosen for the
  model the request names, declares it and is not excluded, or is the only backend that claims the
  target when the chosen one does not claim it. A request that names no model anybody offers, for a
  target the serving backend claims, is forwarded to the serving backend.
\<close>

theorem session_agrees_with_upstream:
  fixes model :: "rstr option" and target :: rstr and now :: nat
  assumes "session_reachable backends up s" and "se_assignment s = Some a"
  defines "to \<equiv> serving_for_target model target now up"
  shows "be_credential (as_backend a) = ub_credential_id (serving up) \<and> to \<in> set backends \<and>
     (ub_credential_id to = be_credential (as_backend a) \<or>
      (\<exists>m. model = Some m \<and> serves_model m to \<and> \<not> is_excluded (account_of to) up) \<or>
      route_for target (serving_for model now up) = None \<and>
        {b \<in> set backends. route_for target b \<noteq> None} = {to}) \<and>
     (\<not> (\<exists>m. \<exists>b \<in> set backends. model = Some m \<and> serves_model m b \<and> \<not> is_excluded (account_of b) up) \<and>
        route_for target (serving up) \<noteq> None \<longrightarrow> to = serving up)"
proof -
  have up: "us_backends up = backends" "serving up \<in> set backends"
    and credential: "be_credential (as_backend a) = ub_credential_id (serving up)"
    using session_agrees [OF assms(1)] assms(2) by (auto simp: agrees_def serving_def)
  have "serving_for model now up \<in> set backends \<and>
      (serving_for model now up = serving up \<or> (\<exists>m. model = Some m \<and>
         serves_model m (serving_for model now up) \<and>
         \<not> is_excluded (account_of (serving_for model now up)) up))"
    using serving_for_cases [of model now up] for_model_SomeD up by metis
  moreover have "to = serving_for model now up \<or> route_for target (serving_for model now up) = None \<and>
      filter (\<lambda>b. route_for target b \<noteq> None) backends = [to]"
    using serving_for_target_cases [of model target now up] up(1) unfolding to_def by simp
  moreover have "{b \<in> set backends. route_for target b \<noteq> None} = {to} \<and> to \<in> set backends"
    if "filter (\<lambda>b. route_for target b \<noteq> None) backends = [to]"
    using arg_cong [OF that, of set] by auto
  moreover have "to = serving up"
    if "\<not> (\<exists>m. \<exists>b \<in> set backends. model = Some m \<and> serves_model m b \<and> \<not> is_excluded (account_of b) up)"
      and "route_for target (serving up) \<noteq> None"
  proof -
    have "serving_for model now up = serving up"
      using that(1) serving_for_cases [of model now up] for_model_SomeD up(1) by metis
    then show ?thesis using that(2) by (simp add: to_def serving_for_target_def Let_def)
  qed
  ultimately show ?thesis using credential by auto
qed

theorem session_agrees_with_upstream_witness:
  "\<exists>(up' :: upstream) (s' :: session). se_assignment s' = Some (example_assignment ''B'') \<and>
     be_credential (as_backend (example_assignment ''B'')) = ub_credential_id (serving up') \<and>
     serving_for_target None (u ''/v1/messages'') 5 up' \<in> set [example_key ''A'', example_key ''B'']"
proof -
  obtain up' s' where e: "observe_exchange example_refusal 5 None example_upstream example_session =
      Some (RotatedCredential, up', s')" "se_assignment s' = Some (example_assignment ''B'')"
    using example_rotation [of NoPin] unfolding example_unpinned by blast
  show ?thesis
    using session_agrees_with_upstream [OF session_exchange [OF example_reachable e(1)] e(2)] e(2) by blast
qed

text \<open>
  C14. The record is the session's path: over any run of exchanges the assignment is reached from the one the
  run began with by the changes the record gained, each from where the one before ended; no exchange
  makes a migration, and the harness, the model and the protocol stay what they were.
\<close>

theorem record_is_the_path:
  assumes "observe_exchanges xs up s = Some (up', s')" and "se_assignment s = Some a"
  shows "\<exists>b new. se_assignment s' = Some b \<and> se_record s' = se_record s @ new \<and>
     length new \<le> length xs \<and> follows a new b \<and>
     (\<forall>c\<in>set new. ac_cause c \<noteq> MigrationCause \<and> warrants_a_warning (ac_cache c)) \<and>
     as_harness b = as_harness a \<and> be_model (as_backend b) = be_model (as_backend a) \<and>
     be_protocol (as_backend b) = be_protocol (as_backend a)"
proof -
  have "\<exists>b new. se_assignment s' = Some b \<and> se_record s' = se_record s @ new \<and>
     length new \<le> length xs \<and> follows a new b \<and> list_all transparent new"
    using assms
  proof (induction xs up s arbitrary: a rule: observe_exchanges.induct)
    case (2 ex now stated_wait xs up s)
    then obtain effect up1 s1 where e: "observe_exchange ex now stated_wait up s = Some (effect, up1, s1)"
        "observe_exchanges xs up1 s1 = Some (up', s')"
      by (auto split: option.splits)
    obtain b1 new1 where one: "se_assignment s1 = Some b1" "se_record s1 = se_record s @ new1"
        "length new1 \<le> 1" "follows a new1 b1" "list_all transparent new1"
      using exchange_path [OF e(1) 2(3)] by blast
    obtain b new where rest: "se_assignment s' = Some b" "se_record s' = se_record s1 @ new"
        "length new \<le> length xs" "follows b1 new b" "list_all transparent new"
      using 2(1) [OF e(1) refl refl e(2) one(1)] by blast
    show ?case
      using one rest follows_append [OF one(4) rest(4)]
      by (intro exI [of _ b] exI [of _ "new1 @ new"]) auto
  qed (auto intro: exI [of _ "[]"])
  then show ?thesis
    using follows_transparent by (fastforce simp: transparent_def list_all_iff warrants_a_warning_def)
qed

theorem record_is_the_path_witness:
  "\<exists>s' :: session. length (se_record s') \<le> 1 \<and> se_assignment s' = Some (example_assignment ''B'')"
proof -
  obtain up' s' where e: "observe_exchange example_refusal 5 None example_upstream example_session =
      Some (RotatedCredential, up', s')" "se_assignment s' = Some (example_assignment ''B'')"
    using example_rotation [of NoPin] unfolding example_unpinned by blast
  have "observe_exchanges [(example_refusal, 5, None)] example_upstream example_session = Some (up', s')"
    by (simp add: e(1))
  moreover have "se_assignment example_session = Some (example_assignment ''A'')" "se_record example_session = []"
    by (simp_all add: example_session_eq session_new_def)
  ultimately show ?thesis
    using record_is_the_path [of "[(example_refusal, 5, None)]"] e(2) by fastforce
qed

text \<open>
  C15. A pinned session stays with its provider whatever the exchanges say, as long as no two backends share
  a credential: it may rotate keys, and never fails over.
\<close>

theorem pinned_session_stays:
  assumes "observe_exchange ex now stated_wait up s = Some (effect, up', s')"
    and "se_pin s = ToProvider p" and "se_assignment s = Some a" and "be_provider (as_backend a) = p"
    and "distinct (map ub_credential_id (us_backends up))"
  shows "effect \<noteq> FailedOver \<and> se_pin s' = ToProvider p \<and>
     (\<exists>b. se_assignment s' = Some b \<and> be_provider (as_backend b) = p)"
proof (cases "classify (ex_outcome ex) stated_wait")
  case None
  then show ?thesis using assms by (simp add: observe_exchange_def)
next
  case (Some ob)
  then have "observe_bound a ob now up s = Some (effect, up', s')"
    using assms by (simp add: observe_exchange_def)
  then show ?thesis
    using assms(3)
  proof (cases rule: observe_bound_cases)
    case (rotates b)
    then obtain ub ub' where "ub \<in> set (us_backends up)" "be_provider (as_backend b) = ub_provider ub"
        "ub_credential_id ub = be_credential (as_backend b)"
        "ub' \<in> set (us_backends up)" "ub_credential_id ub' = be_credential (as_backend b)" "ub_provider ub' = p"
      using assms(4) by (auto simp: credentials_of_def dest!: find_SomeD)
    moreover from this have "ub' = ub"
      using assms(5) by (metis distinct_map inj_on_def)
    ultimately show ?thesis
      using rotates assms(2) by (auto simp: moved_def)
  qed (use assms in simp_all)
qed

theorem pinned_session_stays_witness:
  "\<exists>up' s'. observe_exchange example_refusal 5 None example_upstream
       (example_session\<lparr>se_pin := ToProvider (u ''router'')\<rparr>) = Some (RotatedCredential, up', s') \<and>
     se_pin s' = ToProvider (u ''router'')"
proof -
  let ?s = "example_session\<lparr>se_pin := ToProvider (u ''router'')\<rparr>"
  obtain up' s' where e: "observe_exchange example_refusal 5 None example_upstream ?s =
      Some (RotatedCredential, up', s')"
    using example_rotation by blast
  have "se_pin s' = ToProvider (u ''router'')"
    using pinned_session_stays [OF e, of "u ''router''" "example_assignment ''A''"]
    by (simp add: example_session_eq example_assignment_def backend_new_def example_upstream_def
        example_key_def)
  then show ?thesis using e by blast
qed

text \<open>
  C16. A request is refused without dialling only when dialling is pointless: the session's resource is not
  available, no other key of its provider is, and the wait handed back is at least a second and, on a
  clock that has not gone backwards, no longer than the provider asked for.
\<close>

theorem paced_refusal_is_justified:
  assumes "paced_refusal now now_unix up s = Some wait"
    and "\<forall>headers seen. se_quota s = Some (headers, seen) \<longrightarrow> 0 \<le> seen \<and> seen \<le> now_unix \<and> now_unix < 2 ^ 62 \<and>
           (\<forall>declared. rl_retry_after headers = Some declared \<longrightarrow> 0 \<le> declared \<and> declared < 2 ^ 62)"
  shows "\<exists>a headers seen declared. se_assignment s = Some a \<and> se_quota s = Some (headers, seen) \<and>
     rl_retry_after headers = Some declared \<and> 1 \<le> wait \<and> int wait \<le> declared \<and>
     (\<forall>c. c = be_credential (as_backend a) \<or> c \<in> set (credentials_of (be_provider (as_backend a)) up) \<longrightarrow>
        \<not> is_available \<lparr>fr_credential = c, fr_model = model_label (be_model (as_backend a))\<rparr> now (se_free s))"
proof -
  obtain a headers seen declared where a: "se_assignment s = Some a" "se_quota s = Some (headers, seen)"
      "rl_retry_after headers = Some declared"
      "\<not> is_available \<lparr>fr_credential = be_credential (as_backend a),
         fr_model = model_label (be_model (as_backend a))\<rparr> now (se_free s)"
      "rotate_from (be_credential (as_backend a)) (credentials_of (be_provider (as_backend a)) up)
         (model_label (be_model (as_backend a))) now (se_free s) = None"
      "0 < wrap64 (wrap64 (seen + declared) - now_unix)"
      "wait = nat (wrap64 (wrap64 (seen + declared) - now_unix))"
    using assms(1) by (auto simp: paced_refusal_def Let_def split: option.splits if_splits)
  have r: "0 \<le> seen" "seen \<le> now_unix" "now_unix < 2 ^ 62" "0 \<le> declared" "declared < 2 ^ 62"
    using assms(2) a(2,3) by auto
  have "wrap64 (wrap64 (seen + declared) - now_unix) = seen + declared - now_unix"
    using r by (simp add: wrap64_def)
  then have "1 \<le> wait" "int wait \<le> declared"
    using a(6,7) r(2) by auto
  moreover have "\<not> is_available \<lparr>fr_credential = c, fr_model = model_label (be_model (as_backend a))\<rparr> now (se_free s)"
    if "c = be_credential (as_backend a) \<or> c \<in> set (credentials_of (be_provider (as_backend a)) up)" for c
    using that a(4,5) by (auto simp: rotate_from_def find_None_iff)
  ultimately show ?thesis using a(1-3) by blast
qed

theorem paced_refusal_is_justified_witness:
  "\<not> is_available \<lparr>fr_credential = be_credential (as_backend (example_assignment ''A'')),
       fr_model = model_label (be_model (as_backend (example_assignment ''A'')))\<rparr> 5 (se_free example_paced)"
  using paced_refusal_is_justified [OF example_paced_refusal]
  by (simp add: example_paced_def example_session_eq)

end
