(* ===== verification/Event_Bus.thy ===== *)
theory Event_Bus
  imports Prelude "HOL-Library.Sublist" "HOL-Library.Multiset"
begin

text \<open>
  The lifecycle-event bus, \<open>crates/glasshouse/src/events/bus.rs\<close>. The state behind the bus's lock and
  the queues behind the subscribers' locks are one record; a subscription is known by a number and is
  gone from the queues once its consumer dropped it, which is what the bus's weak reference finds. A
  publish is one step up to the moment it lets go of the lock, and handing its record to the sink is a
  step of its own, which any other step may come before. Counters are natural numbers: 64 bits of
  events are never published.
\<close>

section \<open>Records and queues\<close>

record 'e recorded_event =
  re_seq :: nat
  re_session :: rstr
  re_at :: int
  re_event :: 'e

definition RecordedEvent :: "nat \<Rightarrow> rstr \<Rightarrow> int \<Rightarrow> 'e \<Rightarrow> 'e recorded_event" where
  "RecordedEvent seq session at_time event =
     \<lparr>re_seq = seq, re_session = session, re_at = at_time, re_event = event\<rparr>"

record 'e queue =
  q_events :: "'e recorded_event list"
  q_capacity :: nat
  q_dropped :: nat

definition DEFAULT_HISTORY :: nat where "DEFAULT_HISTORY = 4096"
definition DEFAULT_SUBSCRIBER_QUEUE :: nat where "DEFAULT_SUBSCRIBER_QUEUE = 1024"

text \<open>The loop that makes room for one more, counting what it drops.\<close>

function make_room :: "nat \<Rightarrow> 'a list \<Rightarrow> nat \<Rightarrow> 'a list \<times> nat" where
  "make_room capacity events dropped =
     (if length events \<ge> capacity \<and> capacity > 0 then make_room capacity (tl events) (dropped + 1)
      else (events, dropped))"
  by pat_completeness auto
termination
  by (relation "measure (\<lambda>(capacity, events, dropped). length events)") auto

declare make_room.simps [simp del]

definition push_queue :: "'e recorded_event \<Rightarrow> 'e queue \<Rightarrow> 'e queue" where
  "push_queue r q =
     (case make_room (q_capacity q) (q_events q) (q_dropped q) of
        (events, dropped) \<Rightarrow>
          if q_capacity q > 0 then q\<lparr>q_events := events @ [r], q_dropped := dropped\<rparr>
          else q\<lparr>q_events := events, q_dropped := dropped + 1\<rparr>)"

definition drain_queue :: "'e queue \<Rightarrow> 'e recorded_event list \<times> 'e queue" where
  "drain_queue q = (q_events q, q\<lparr>q_events := []\<rparr>)"

section \<open>The bus\<close>

record 'e bus =
  b_seq :: nat
  b_history :: "'e recorded_event list"
  b_history_capacity :: nat
  b_history_dropped :: nat
  b_subscribers :: "nat list"
  b_sink :: bool

text \<open>
  The bus and what surrounds it: the live queues, the number the next subscription gets, what each
  consumer has taken, the records on their way to the sink, and what the sink has recorded.
\<close>

record 'e world =
  w_bus :: "'e bus"
  w_queues :: "nat \<Rightarrow> 'e queue option"
  w_next :: nat
  w_taken :: "nat \<Rightarrow> 'e recorded_event list"
  w_pending :: "'e recorded_event list"
  w_sink_log :: "'e recorded_event list"

definition with_history :: "nat \<Rightarrow> 'e bus" where
  "with_history history = \<lparr>b_seq = 0, b_history = [], b_history_capacity = history,
     b_history_dropped = 0, b_subscribers = [], b_sink = False\<rparr>"

definition world_new :: "nat \<Rightarrow> 'e world" where
  "world_new history = \<lparr>w_bus = with_history history, w_queues = (\<lambda>_. None), w_next = 0,
     w_taken = (\<lambda>_. []), w_pending = [], w_sink_log = []\<rparr>"

definition push_history :: "'e recorded_event \<Rightarrow> 'e bus \<Rightarrow> 'e bus" where
  "push_history r b =
     (case make_room (b_history_capacity b) (b_history b) (b_history_dropped b) of
        (events, dropped) \<Rightarrow>
          b\<lparr>b_history := (if b_history_capacity b > 0 then events @ [r] else events),
            b_history_dropped := dropped\<rparr>)"

text \<open>Dead subscribers leave the list, the others get the record.\<close>

fun retain_live ::
    "'e recorded_event \<Rightarrow> nat list \<Rightarrow> (nat \<Rightarrow> 'e queue option) \<Rightarrow>
       nat list \<times> (nat \<Rightarrow> 'e queue option)" where
  "retain_live r [] queues = ([], queues)"
| "retain_live r (i # ids) queues =
     (case queues i of
        None \<Rightarrow> retain_live r ids queues
      | Some q \<Rightarrow>
          (case retain_live r ids (queues(i := Some (push_queue r q))) of
             (live, queues') \<Rightarrow> (i # live, queues')))"

definition publish :: "rstr \<Rightarrow> int \<Rightarrow> 'e \<Rightarrow> 'e world \<Rightarrow> 'e recorded_event \<times> 'e world" where
  "publish session at_time event w =
     (let seq = b_seq (w_bus w) + 1;
          r = RecordedEvent seq session at_time event;
          b1 = push_history r ((w_bus w)\<lparr>b_seq := seq\<rparr>)
      in case retain_live r (b_subscribers b1) (w_queues w) of
           (live, queues) \<Rightarrow>
             (r, w\<lparr>w_bus := b1\<lparr>b_subscribers := live\<rparr>, w_queues := queues,
                   w_pending := w_pending w @ (if b_sink b1 then [r] else [])\<rparr>))"

text \<open>One of the publishers that let go of the lock hands its record over.\<close>

definition deliver :: "nat \<Rightarrow> 'e world \<Rightarrow> 'e world" where
  "deliver i w =
     (if i < length (w_pending w)
      then w\<lparr>w_sink_log := w_sink_log w @ [w_pending w ! i],
             w_pending := take i (w_pending w) @ drop (Suc i) (w_pending w)\<rparr>
      else w)"

definition attach_sink :: "'e world \<Rightarrow> 'e world" where
  "attach_sink w = w\<lparr>w_bus := (w_bus w)\<lparr>b_sink := True\<rparr>\<rparr>"

definition subscribe_with_capacity :: "nat \<Rightarrow> 'e world \<Rightarrow> nat \<times> 'e world" where
  "subscribe_with_capacity capacity w =
     (w_next w,
      w\<lparr>w_bus := (w_bus w)\<lparr>b_subscribers := b_subscribers (w_bus w) @ [w_next w]\<rparr>,
        w_queues := (w_queues w)(w_next w := Some \<lparr>q_events = [], q_capacity = capacity, q_dropped = 0\<rparr>),
        w_next := w_next w + 1\<rparr>)"

definition drop_subscription :: "nat \<Rightarrow> 'e world \<Rightarrow> 'e world" where
  "drop_subscription i w = w\<lparr>w_queues := (w_queues w)(i := None)\<rparr>"

definition drain :: "nat \<Rightarrow> 'e world \<Rightarrow> 'e world" where
  "drain i w =
     (case w_queues w i of
        None \<Rightarrow> w
      | Some q \<Rightarrow>
          (case drain_queue q of (events, q') \<Rightarrow>
             w\<lparr>w_queues := (w_queues w)(i := Some q'),
               w_taken := (w_taken w)(i := w_taken w i @ events)\<rparr>))"

definition subscribers :: "'e world \<Rightarrow> nat" where
  "subscribers w = length (filter (\<lambda>i. w_queues w i \<noteq> None) (b_subscribers (w_bus w)))"

definition history_for :: "rstr \<Rightarrow> 'e world \<Rightarrow> 'e recorded_event list" where
  "history_for session w = filter (\<lambda>r. re_session r = session) (b_history (w_bus w))"

section \<open>Runs\<close>

datatype 'e action =
    Publish rstr int 'e
  | Deliver nat
  | AttachSink
  | Subscribe nat
  | DropSubscription nat
  | Drain nat

primrec bus_step :: "'e world \<Rightarrow> 'e action \<Rightarrow> 'e world" where
  "bus_step w (Publish session at_time event) = snd (publish session at_time event w)"
| "bus_step w (Deliver i) = deliver i w"
| "bus_step w AttachSink = attach_sink w"
| "bus_step w (Subscribe capacity) = snd (subscribe_with_capacity capacity w)"
| "bus_step w (DropSubscription i) = drop_subscription i w"
| "bus_step w (Drain i) = drain i w"

definition bus_run :: "'e action list \<Rightarrow> 'e world \<Rightarrow> 'e world" where
  "bus_run actions w = foldl bus_step w actions"

text \<open>What a run published, numbered from the count it began at.\<close>

fun published :: "nat \<Rightarrow> 'e action list \<Rightarrow> 'e recorded_event list" where
  "published seq [] = []"
| "published seq (Publish session at_time event # actions) =
     RecordedEvent (seq + 1) session at_time event #
     published (seq + 1) actions"
| "published seq (_ # actions) = published seq actions"

section \<open>A bounded queue\<close>

definition lastn :: "nat \<Rightarrow> 'a list \<Rightarrow> 'a list" where
  "lastn n xs = drop (length xs - n) xs"

lemma length_lastn [simp]: "length (lastn n xs) = min n (length xs)"
  by (simp add: lastn_def)

lemma lastn_all [simp]: "length xs \<le> n \<Longrightarrow> lastn n xs = xs"
  by (simp add: lastn_def)

lemma lastn_lastn: "lastn n (lastn n xs @ ys) = lastn n (xs @ ys)"
proof (cases "length xs \<le> n")
  case False
  have "drop (length xs - n) (xs @ ys) = drop (length xs - n) xs @ ys"
    using False by simp
  moreover have "length xs + length ys - n = length ys + (length xs - n)"
    using False by simp
  ultimately have "drop (length xs + length ys - n) (xs @ ys) = drop (length ys) (drop (length xs - n) xs @ ys)"
    by (metis drop_drop)
  then show ?thesis
    using False by (simp add: lastn_def)
qed simp

text \<open>
  The contract the history and the subscribers' queues share: the newest records are kept, as many as
  there is room for, and what does not fit is counted.
\<close>

locale bounded_queue =
  fixes push :: "'r \<Rightarrow> 'q \<Rightarrow> 'q"
    and contents :: "'q \<Rightarrow> 'r list"
    and capacity :: "'q \<Rightarrow> nat"
    and lost :: "'q \<Rightarrow> nat"
  assumes push_contents:
      "length (contents q) \<le> capacity q \<Longrightarrow> contents (push r q) = lastn (capacity q) (contents q @ [r])"
    and push_capacity: "capacity (push r q) = capacity q"
    and push_lost:
      "0 < capacity q \<Longrightarrow> length (contents q) \<le> capacity q \<Longrightarrow>
         lost (push r q) + length (contents (push r q)) = lost q + length (contents q) + 1"
begin

lemma fits_push: "length (contents q) \<le> capacity q \<Longrightarrow> length (contents (push r q)) \<le> capacity (push r q)"
  by (simp add: push_contents push_capacity)

lemma pushes:
  assumes "length (contents q) \<le> capacity q"
  shows "contents (fold push rs q) = lastn (capacity q) (contents q @ rs) \<and>
     capacity (fold push rs q) = capacity q \<and> length (contents (fold push rs q)) \<le> capacity q"
  using assms
proof (induction rs arbitrary: q)
  case (Cons r rs)
  note IH = Cons.IH [OF fits_push [OF Cons.prems], of r]
  show ?case
    using IH Cons.prems by (simp add: push_capacity push_contents lastn_lastn)
qed simp

lemma pushes_lost:
  assumes "0 < capacity q" and "length (contents q) \<le> capacity q"
  shows "lost (fold push rs q) + length (contents (fold push rs q)) = lost q + length (contents q) + length rs"
  using assms
proof (induction rs arbitrary: q)
  case (Cons r rs)
  then show ?case
    using Cons.IH [of "push r q"] fits_push [OF Cons.prems(2), of r] push_lost [OF Cons.prems, of r]
    by (simp add: push_capacity)
qed simp

end

lemma make_room_stop:
  "length events < capacity \<or> capacity = 0 \<Longrightarrow> make_room capacity events dropped = (events, dropped)"
  by (subst make_room.simps) auto

lemma make_room_pop:
  assumes "Suc n \<le> length (e # es)"
  shows "make_room (Suc n) (e # es) dropped = make_room (Suc n) es (dropped + 1)"
  using assms by (subst make_room.simps) simp

lemma make_room_lastn:
  "make_room (Suc n) events dropped = (lastn n events, dropped + (length events - n))"
proof (induction events arbitrary: dropped)
  case Nil
  show ?case by (simp add: make_room_stop)
next
  case (Cons e es)
  show ?case
  proof (cases "Suc n \<le> length (e # es)")
    case True
    then show ?thesis
      using Cons.IH [of "dropped + 1"] by (simp add: make_room_pop lastn_def Suc_diff_le)
  next
    case False
    then show ?thesis by (simp add: make_room_stop)
  qed
qed

lemma lastn_snoc: "lastn n xs @ [x] = lastn (Suc n) (xs @ [x])"
  by (simp add: lastn_def)

lemma lastn_0 [simp]: "lastn 0 xs = []"
  by (simp add: lastn_def)

interpretation subscriber_queue: bounded_queue push_queue q_events q_capacity q_dropped
proof
  fix q :: "'e queue" and r
  show "length (q_events q) \<le> q_capacity q \<Longrightarrow> q_events (push_queue r q) = lastn (q_capacity q) (q_events q @ [r])"
    by (cases "q_capacity q") (simp_all add: push_queue_def make_room_stop make_room_lastn lastn_snoc)
  show "q_capacity (push_queue r q) = q_capacity q"
    by (simp add: push_queue_def split: prod.split)
  show "0 < q_capacity q \<Longrightarrow> length (q_events q) \<le> q_capacity q \<Longrightarrow>
      q_dropped (push_queue r q) + length (q_events (push_queue r q)) = q_dropped q + length (q_events q) + 1"
    by (cases "q_capacity q") (simp_all add: push_queue_def make_room_lastn)
qed

interpretation bus_history: bounded_queue push_history b_history b_history_capacity b_history_dropped
proof
  fix q :: "'e bus" and r
  show "length (b_history q) \<le> b_history_capacity q \<Longrightarrow>
      b_history (push_history r q) = lastn (b_history_capacity q) (b_history q @ [r])"
    by (cases "b_history_capacity q") (simp_all add: push_history_def make_room_stop make_room_lastn lastn_snoc)
  show "b_history_capacity (push_history r q) = b_history_capacity q"
    by (simp add: push_history_def split: prod.split)
  show "0 < b_history_capacity q \<Longrightarrow> length (b_history q) \<le> b_history_capacity q \<Longrightarrow>
      b_history_dropped (push_history r q) + length (b_history (push_history r q)) =
        b_history_dropped q + length (b_history q) + 1"
    by (cases "b_history_capacity q") (simp_all add: push_history_def make_room_lastn)
qed

section \<open>Steps\<close>

lemma push_history_keeps [simp]:
  "b_seq (push_history r b) = b_seq b" "b_subscribers (push_history r b) = b_subscribers b"
  "b_sink (push_history r b) = b_sink b"
  by (simp_all add: push_history_def split: prod.split)

lemma retain_live_distinct:
  assumes "distinct ids"
  shows "retain_live r ids queues =
     (filter (\<lambda>i. queues i \<noteq> None) ids,
      \<lambda>i. if i \<in> set ids then map_option (push_queue r) (queues i) else queues i)"
  using assms
proof (induction ids arbitrary: queues)
  case (Cons i ids)
  show ?case
  proof (cases "queues i")
    case None
    then show ?thesis using Cons by (auto simp: fun_eq_iff)
  next
    case (Some q)
    have "filter (\<lambda>j. (queues(i := Some (push_queue r q))) j \<noteq> None) ids = filter (\<lambda>j. queues j \<noteq> None) ids"
      using Cons.prems by (intro filter_cong) auto
    then show ?thesis using Some Cons by (auto simp: fun_eq_iff)
  qed
qed simp

definition bus_ok :: "'e world \<Rightarrow> bool" where
  "bus_ok w \<longleftrightarrow>
     length (b_history (w_bus w)) \<le> b_history_capacity (w_bus w) \<and>
     distinct (b_subscribers (w_bus w)) \<and>
     (\<forall>i \<in> set (b_subscribers (w_bus w)). i < w_next w) \<and>
     (\<forall>i. w_queues w i \<noteq> None \<longrightarrow> i \<in> set (b_subscribers (w_bus w))) \<and>
     (\<forall>i q. w_queues w i = Some q \<longrightarrow> length (q_events q) \<le> q_capacity q) \<and>
     (\<forall>i \<ge> w_next w. w_taken w i = [])"

lemma bus_ok_new: "bus_ok (world_new history)"
  by (simp add: bus_ok_def world_new_def with_history_def)

lemma publish_step:
  assumes "bus_ok w" and r: "r = RecordedEvent (b_seq (w_bus w) + 1) session at_time event"
  shows "snd (publish session at_time event w) =
     w\<lparr>w_bus := (push_history r ((w_bus w)\<lparr>b_seq := b_seq (w_bus w) + 1\<rparr>))
          \<lparr>b_subscribers := filter (\<lambda>i. w_queues w i \<noteq> None) (b_subscribers (w_bus w))\<rparr>,
       w_queues := (\<lambda>i. map_option (push_queue r) (w_queues w i)),
       w_pending := w_pending w @ (if b_sink (w_bus w) then [r] else [])\<rparr>"
proof -
  have "w_queues w i = None" if "i \<notin> set (b_subscribers (w_bus w))" for i
    using assms(1) that unfolding bus_ok_def by blast
  moreover have "distinct (b_subscribers (w_bus w))"
    using assms(1) by (simp add: bus_ok_def)
  ultimately show ?thesis
    by (auto simp: publish_def Let_def r retain_live_distinct fun_eq_iff intro!: world.equality)
qed

lemma bus_ok_step:
  assumes "bus_ok w"
  shows "bus_ok (bus_step w a)"
proof (cases a)
  case (Publish session at_time event)
  have "length (b_history (push_history r b)) \<le> b_history_capacity (push_history r b)"
    if "length (b_history b) \<le> b_history_capacity b" for r and b :: "'a bus"
    using that by (rule bus_history.fits_push)
  moreover have "length (q_events (push_queue r q)) \<le> q_capacity (push_queue r q)"
    if "length (q_events q) \<le> q_capacity q" for r and q :: "'a queue"
    using that by (rule subscriber_queue.fits_push)
  ultimately show ?thesis
    using assms unfolding Publish bus_step.simps publish_step [OF assms refl] by (auto simp: bus_ok_def)
next
  case (Drain i)
  then show ?thesis
    using assms by (cases "w_queues w i") (force simp: bus_ok_def drain_def drain_queue_def)+
qed (use assms in \<open>auto simp: bus_ok_def deliver_def attach_sink_def subscribe_with_capacity_def
       drop_subscription_def split: if_splits\<close>)

lemma bus_run_simps [simp]:
  "bus_run [] w = w" "bus_run (a # actions) w = bus_run actions (bus_step w a)"
  "bus_run (xs @ ys) w = bus_run ys (bus_run xs w)"
  by (simp_all add: bus_run_def)

lemma bus_ok_run: "bus_ok w \<Longrightarrow> bus_ok (bus_run actions w)"
  by (induction actions arbitrary: w) (simp_all add: bus_ok_step)

text \<open>Only a publish touches what the bus has recorded.\<close>

lemma other_steps:
  "b_history (w_bus (deliver i w)) = b_history (w_bus w)" "b_seq (w_bus (deliver i w)) = b_seq (w_bus w)"
  "b_history_dropped (w_bus (deliver i w)) = b_history_dropped (w_bus w)"
  "b_history_capacity (w_bus (deliver i w)) = b_history_capacity (w_bus w)"
  "b_history (w_bus (attach_sink w)) = b_history (w_bus w)" "b_seq (w_bus (attach_sink w)) = b_seq (w_bus w)"
  "b_history_dropped (w_bus (attach_sink w)) = b_history_dropped (w_bus w)"
  "b_history_capacity (w_bus (attach_sink w)) = b_history_capacity (w_bus w)"
  "b_history (w_bus (snd (subscribe_with_capacity c w))) = b_history (w_bus w)"
  "b_seq (w_bus (snd (subscribe_with_capacity c w))) = b_seq (w_bus w)"
  "b_history_dropped (w_bus (snd (subscribe_with_capacity c w))) = b_history_dropped (w_bus w)"
  "b_history_capacity (w_bus (snd (subscribe_with_capacity c w))) = b_history_capacity (w_bus w)"
  "w_bus (drop_subscription i w) = w_bus w" "w_bus (drain i w) = w_bus w"
  by (simp_all add: deliver_def attach_sink_def subscribe_with_capacity_def drop_subscription_def
      drain_def drain_queue_def split: option.split)

lemma history_step:
  assumes "bus_ok w"
  shows "b_history (w_bus (bus_step w a)) =
      lastn (b_history_capacity (w_bus w)) (b_history (w_bus w) @ published (b_seq (w_bus w)) [a])"
    and "b_seq (w_bus (bus_step w a)) = b_seq (w_bus w) + length (published (b_seq (w_bus w)) [a])"
    and "b_history_capacity (w_bus (bus_step w a)) = b_history_capacity (w_bus w)"
proof -
  have fits: "length (b_history (w_bus w)) \<le> b_history_capacity (w_bus w)"
    using assms by (simp add: bus_ok_def)
  show "b_history (w_bus (bus_step w a)) =
      lastn (b_history_capacity (w_bus w)) (b_history (w_bus w) @ published (b_seq (w_bus w)) [a])"
    by (cases a) (simp_all add: publish_step [OF assms refl] bus_history.push_contents fits other_steps)
  show "b_seq (w_bus (bus_step w a)) = b_seq (w_bus w) + length (published (b_seq (w_bus w)) [a])"
    by (cases a) (simp_all add: publish_step [OF assms refl] other_steps)
  show "b_history_capacity (w_bus (bus_step w a)) = b_history_capacity (w_bus w)"
    by (cases a) (simp_all add: publish_step [OF assms refl] bus_history.push_capacity other_steps)
qed

lemma published_Cons:
  "published seq (a # actions) = published seq [a] @ published (seq + length (published seq [a])) actions"
  by (cases a) simp_all

lemma published_append:
  "published seq (xs @ ys) = published seq xs @ published (seq + length (published seq xs)) ys"
proof (induction xs arbitrary: seq)
  case (Cons a xs)
  then show ?case by (cases a) (simp_all add: add.assoc)
qed simp

lemma published_seqs: "map re_seq (published seq actions) = [seq + 1 ..< seq + 1 + length (published seq actions)]"
proof (induction actions arbitrary: seq)
  case (Cons a actions)
  then show ?case by (cases a) (simp_all add: RecordedEvent_def upt_conv_Cons del: upt_Suc)
qed simp

lemma history_run:
  assumes "bus_ok w"
  shows "b_history (w_bus (bus_run actions w)) =
      lastn (b_history_capacity (w_bus w)) (b_history (w_bus w) @ published (b_seq (w_bus w)) actions) \<and>
    b_seq (w_bus (bus_run actions w)) = b_seq (w_bus w) + length (published (b_seq (w_bus w)) actions)"
  using assms
proof (induction actions arbitrary: w)
  case Nil
  then show ?case by (simp add: bus_ok_def)
next
  case (Cons a actions)
  show ?case
    using Cons.IH [OF bus_ok_step [OF Cons.prems, of a]] history_step [OF Cons.prems, of a]
    by (subst (1 2) published_Cons) (simp add: lastn_lastn add.assoc)
qed

lemma lost_step:
  assumes "bus_ok w" and "0 < b_history_capacity (w_bus w)"
  shows "b_history_dropped (w_bus (bus_step w a)) + length (b_history (w_bus (bus_step w a))) =
    b_history_dropped (w_bus w) + length (b_history (w_bus w)) + length (published (b_seq (w_bus w)) [a])"
proof (cases a)
  case (Publish session at_time event)
  have "length (b_history (w_bus w)) \<le> b_history_capacity (w_bus w)"
    using assms(1) by (simp add: bus_ok_def)
  then show ?thesis
    using bus_history.push_lost [of "(w_bus w)\<lparr>b_seq := b_seq (w_bus w) + 1\<rparr>"
        "RecordedEvent (b_seq (w_bus w) + 1) session at_time event"] assms(2)
    unfolding Publish bus_step.simps publish_step [OF assms(1) refl] by simp
qed (simp_all add: other_steps)

lemma lost_run:
  assumes "bus_ok w" and "0 < b_history_capacity (w_bus w)"
  shows "b_history_dropped (w_bus (bus_run actions w)) + length (b_history (w_bus (bus_run actions w))) =
    b_history_dropped (w_bus w) + length (b_history (w_bus w)) + length (published (b_seq (w_bus w)) actions)"
  using assms
proof (induction actions arbitrary: w)
  case (Cons a actions)
  show ?case
    using Cons.IH [OF bus_ok_step [OF Cons.prems(1), of a]] history_step [OF Cons.prems(1), of a]
      lost_step [OF Cons.prems, of a] Cons.prems(2)
    by (subst published_Cons) simp
qed simp

section \<open>What a subscriber sees\<close>

text \<open>
  The account of one subscription: what its consumer took and what waits are some of the records in
  their order, the waiting ones the newest, and the rest was counted as dropped.
\<close>

definition accounted :: "'e recorded_event list \<Rightarrow> nat \<Rightarrow> 'e world \<Rightarrow> bool" where
  "accounted records i w =
     (\<exists>q (old :: 'e recorded_event list). w_queues w i = Some q \<and> length (q_events q) \<le> q_capacity q \<and>
        records = old @ q_events q \<and> subseq (w_taken w i) old \<and>
        length old = length (w_taken w i) + q_dropped q)"

lemma accounted_push:
  assumes "accounted records i w" and "bus_ok w"
  shows "accounted (records @ [RecordedEvent (b_seq (w_bus w) + 1) session at_time event]) i
    (bus_step w (Publish session at_time event))"
proof -
  obtain q :: "'a queue" and old where q: "w_queues w i = Some q" and fits: "length (q_events q) \<le> q_capacity q"
    and records: "records = old @ q_events q" and taken: "subseq (w_taken w i) old"
    and count: "length old = length (w_taken w i) + q_dropped q"
    using assms(1) unfolding accounted_def by auto
  define r where "r = RecordedEvent (b_seq (w_bus w) + 1) session at_time event"
  define gone where "gone = take (length (q_events q) + 1 - q_capacity q) (q_events q @ [r])"
  have kept: "q_events (push_queue r q) = lastn (q_capacity q) (q_events q @ [r])"
    by (rule subscriber_queue.push_contents [OF fits])
  have split: "q_events q @ [r] = gone @ q_events (push_queue r q)"
    unfolding kept gone_def lastn_def by (simp del: take_append drop_append)
  have "q_dropped (push_queue r q) = q_dropped q + length gone"
    using subscriber_queue.push_lost [OF _ fits, of r] fits
    by (cases "q_capacity q") (simp_all add: gone_def kept push_queue_def make_room_stop make_room_lastn)
  moreover have "length (q_events (push_queue r q)) \<le> q_capacity (push_queue r q)"
    by (rule subscriber_queue.fits_push [OF fits])
  moreover have "subseq (w_taken w i) (old @ gone)"
    using taken by (metis append_Nil2 list_emb_append_mono list_emb_Nil)
  moreover have "records @ [r] = (old @ gone) @ q_events (push_queue r q)"
    using records split by simp
  ultimately show ?thesis
    using q count unfolding accounted_def bus_step.simps publish_step [OF assms(2) refl] r_def [symmetric]
    by (intro exI [of _ "push_queue r q"] exI [of _ "old @ gone"]) simp
qed

lemma accounted_drain:
  assumes "accounted records i w"
  shows "accounted records i (bus_step w (Drain j))"
proof (cases "j = i")
  case True
  obtain q :: "'a queue" and old where q: "w_queues w i = Some q"
    and records: "records = old @ q_events q" and taken: "subseq (w_taken w i) old"
    and count: "length old = length (w_taken w i) + q_dropped q"
    using assms unfolding accounted_def by auto
  have "subseq (w_taken w i @ q_events q) records"
    using taken records by (simp add: list_emb_append_mono)
  then show ?thesis
    using True q count records unfolding accounted_def
    by (intro exI [of _ "q\<lparr>q_events := []\<rparr>"] exI [of _ records]) (simp add: drain_def drain_queue_def)
next
  case False
  then show ?thesis
    using assms by (auto simp: accounted_def drain_def drain_queue_def split: option.split)
qed

lemma accounted_step:
  assumes "accounted records i w" and "bus_ok w" and "a \<noteq> DropSubscription i"
  shows "accounted (records @ published (b_seq (w_bus w)) [a]) i (bus_step w a)"
proof (cases a)
  case (Publish session at_time event)
  then show ?thesis using accounted_push [OF assms(1,2)] by simp
next
  case (Drain j)
  then show ?thesis using accounted_drain [OF assms(1)] by simp
next
  case (Subscribe c)
  have "i \<noteq> w_next w"
    using assms(1,2) unfolding accounted_def bus_ok_def by fastforce
  then show ?thesis
    using Subscribe assms(1) by (simp add: accounted_def subscribe_with_capacity_def)
qed (use assms in \<open>auto simp: accounted_def deliver_def attach_sink_def drop_subscription_def\<close>)

lemma accounted_run:
  assumes "accounted records i w" and "bus_ok w" and "DropSubscription i \<notin> set actions"
  shows "accounted (records @ published (b_seq (w_bus w)) actions) i (bus_run actions w)"
  using assms
proof (induction actions arbitrary: records w)
  case (Cons a actions)
  show ?case
    using Cons.IH [OF accounted_step [OF Cons.prems(1,2), of a] bus_ok_step [OF Cons.prems(2), of a]]
      history_step(2) [OF Cons.prems(2), of a] Cons.prems(3)
    by (subst published_Cons) auto
qed simp

lemma world_new_simps:
  "b_history (w_bus (world_new history)) = []" "b_seq (w_bus (world_new history)) = 0"
  "b_history_capacity (w_bus (world_new history)) = history"
  "b_history_dropped (w_bus (world_new history)) = 0"
  by (simp_all add: world_new_def with_history_def)

lemma dropped_run_0:
  assumes "b_history_capacity (w_bus w) = 0" and "bus_ok w"
  shows "b_history_dropped (w_bus (bus_run actions w)) = b_history_dropped (w_bus w)"
  using assms
proof (induction actions arbitrary: w)
  case (Cons a actions)
  have "b_history_dropped (w_bus (bus_step w a)) = b_history_dropped (w_bus w)"
    using Cons.prems by (cases a) (simp_all add: publish_step other_steps push_history_def make_room_stop)
  then show ?case
    using Cons.IH [OF _ bus_ok_step [OF Cons.prems(2), of a]] history_step(3) [OF Cons.prems(2), of a]
      Cons.prems(1) by simp
qed simp

section \<open>What reaches the sink\<close>

lemma mset_remove_nth: "i < length xs \<Longrightarrow> mset (xs ! i # take i xs @ drop (Suc i) xs) = mset xs"
  by (metis id_take_nth_drop mset.simps(2) mset_append union_mset_add_mset_right)

lemma sink_step:
  assumes "bus_ok w" and "b_sink (w_bus w)"
  shows "mset (w_sink_log (bus_step w a)) + mset (w_pending (bus_step w a)) =
      mset (w_sink_log w) + mset (w_pending w) + mset (published (b_seq (w_bus w)) [a])"
    and "b_sink (w_bus (bus_step w a))"
proof -
  have "mset (w_sink_log (deliver i w)) + mset (w_pending (deliver i w)) =
      mset (w_sink_log w) + mset (w_pending w)" for i
    using mset_remove_nth [of i "w_pending w"] by (simp add: deliver_def)
  then show "mset (w_sink_log (bus_step w a)) + mset (w_pending (bus_step w a)) =
      mset (w_sink_log w) + mset (w_pending w) + mset (published (b_seq (w_bus w)) [a])"
    using assms(2) by (cases a) (simp_all add: publish_step [OF assms(1) refl] attach_sink_def
        subscribe_with_capacity_def drop_subscription_def drain_def drain_queue_def split: option.split)
  show "b_sink (w_bus (bus_step w a))"
    using assms(2) by (cases a) (simp_all add: publish_step [OF assms(1) refl] attach_sink_def deliver_def
        subscribe_with_capacity_def drop_subscription_def drain_def drain_queue_def split: option.split)
qed

lemma sink_run:
  assumes "bus_ok w" and "b_sink (w_bus w)"
  shows "mset (w_sink_log (bus_run actions w)) + mset (w_pending (bus_run actions w)) =
      mset (w_sink_log w) + mset (w_pending w) + mset (published (b_seq (w_bus w)) actions)"
  using assms
proof (induction actions arbitrary: w)
  case (Cons a actions)
  show ?case
    using Cons.IH [OF bus_ok_step [OF Cons.prems(1), of a] sink_step(2) [OF Cons.prems, of a]]
      sink_step(1) [OF Cons.prems, of a] history_step(2) [OF Cons.prems(1), of a]
    by (subst published_Cons) (simp add: ac_simps)
qed simp

section \<open>Properties\<close>

text \<open>
  C27. The bus's own history is the newest of everything published, as many as it keeps; the records
  are numbered 1, 2, 3 and on without a gap, the count of what was recorded is how many were published,
  and what fell out was counted, except that a bus keeping nothing counts nothing.
\<close>

theorem history_is_the_newest_published:
  fixes actions :: "'e action list" and history :: nat
  defines "w \<equiv> bus_run actions (world_new history)"
  shows "b_history (w_bus w) = lastn history (published 0 actions) \<and>
    map re_seq (published 0 actions) = [1 ..< Suc (length (published 0 actions))] \<and>
    b_seq (w_bus w) = length (published 0 actions) \<and>
    b_history_dropped (w_bus w) =
      (if history = 0 then 0 else length (published 0 actions) - length (b_history (w_bus w)))"
proof -
  have run: "b_history (w_bus w) = lastn history (published 0 actions)"
    "b_seq (w_bus w) = length (published 0 actions)"
    using history_run [OF bus_ok_new, of actions history] by (simp_all add: w_def world_new_simps)
  have "b_history_dropped (w_bus w) =
      (if history = 0 then 0 else length (published 0 actions) - length (b_history (w_bus w)))"
    using lost_run [OF bus_ok_new, of history actions] dropped_run_0 [OF _ bus_ok_new, of history actions]
    by (auto simp: w_def world_new_simps)
  then show ?thesis
    using run published_seqs [of 0 actions] by simp
qed

text \<open>
  C28. A subscriber misses nothing it is not told about: until its consumer drops it, what the consumer
  took and what waits in its queue are records published since it subscribed, in their order; what
  waits is the newest of them and never more than the capacity, and together with the count of dropped
  ones they are all that was published.
\<close>

theorem subscriber_is_accounted_for:
  fixes before after :: "'e action list"
  assumes "w = bus_run before (world_new history)"
    and "subscribe_with_capacity capacity w = (i, w')"
    and "DropSubscription i \<notin> set after"
  shows "\<exists>q. w_queues (bus_run after w') i = Some q \<and> length (q_events q) \<le> q_capacity q \<and>
    suffix (q_events q) (published (b_seq (w_bus w)) after) \<and>
    subseq (w_taken (bus_run after w') i @ q_events q) (published (b_seq (w_bus w)) after) \<and>
    length (w_taken (bus_run after w') i @ q_events q) + q_dropped q =
      length (published (b_seq (w_bus w)) after)"
proof -
  have ok: "bus_ok w"
    unfolding assms(1) by (rule bus_ok_run [OF bus_ok_new])
  have sub: "i = w_next w" "w' = bus_step w (Subscribe capacity)"
    using assms(2) by (auto simp: subscribe_with_capacity_def)
  have "accounted [] i w'"
    using ok unfolding sub by (simp add: accounted_def subscribe_with_capacity_def bus_ok_def)
  moreover have "b_seq (w_bus w') = b_seq (w_bus w)"
    by (simp add: sub other_steps)
  ultimately have "accounted (published (b_seq (w_bus w)) after) i (bus_run after w')"
    using accounted_run [of "[]" i w' after] bus_ok_step [OF ok, of "Subscribe capacity"] assms(3) sub(2)
    by simp
  then show ?thesis
    unfolding accounted_def by (fastforce simp: suffix_def intro: list_emb_append_mono)
qed

theorem subscriber_is_accounted_for_witness:
  "\<exists>q. w_queues (bus_run [Publish [1] 5 True, Publish [2] 6 False]
      (snd (subscribe_with_capacity 1 (bus_run [Publish [3] 4 True] (world_new 8))))) 0 = Some q \<and>
    q_events q = [RecordedEvent 3 [2] 6 False] \<and> q_dropped q = 1"
  using subscriber_is_accounted_for [OF refl, of 1 "[Publish [3] 4 True]" 8 0
      "snd (subscribe_with_capacity 1 (bus_run [Publish [3] 4 True] (world_new 8)))"
      "[Publish [1] 5 True, Publish [2] 6 False]"]
  by (simp add: subscribe_with_capacity_def bus_run_def publish_def world_new_def with_history_def
      push_history_def make_room_stop Let_def suffix_def RecordedEvent_def push_queue_def make_room_lastn
      lastn_def)

text \<open>
  Once a sink is attached every record published reaches it exactly once or is on its way to it,
  whatever order the publishers that let go of the lock hand theirs over in.
\<close>

theorem sink_loses_nothing:
  fixes before after :: "'e action list"
  assumes "w = bus_run before (world_new history)" and "w' = attach_sink w"
  shows "mset (w_sink_log (bus_run after w')) + mset (w_pending (bus_run after w')) =
    mset (w_sink_log w) + mset (w_pending w) + mset (published (b_seq (w_bus w)) after)"
proof -
  have "bus_ok w" unfolding assms(1) by (rule bus_ok_run [OF bus_ok_new])
  then have "bus_ok w'" using bus_ok_step [of w AttachSink] assms(2) by simp
  then show ?thesis
    using sink_run [of w' after] by (simp add: assms(2) attach_sink_def)
qed

theorem sink_loses_nothing_witness:
  "mset (w_sink_log (bus_run [Publish [1] 5 True] (attach_sink (bus_run [] (world_new 8))))) +
    mset (w_pending (bus_run [Publish [1] 5 True] (attach_sink (bus_run [] (world_new 8))))) =
    {#RecordedEvent 1 [1] 5 True#}"
  using sink_loses_nothing [OF refl refl, of "[Publish [1] 5 True]" "[]" 8]
  by (simp add: world_new_def with_history_def)

text \<open>
  The sink can see another order than the history has: the lock is let go before the record is
  handed over, so of two publishers the second can reach the sink first.
\<close>

theorem sink_order_can_differ:
  "map re_seq (b_history (w_bus (bus_run
      [AttachSink, Publish [1] 5 True, Publish [2] 6 True, Deliver 1, Deliver 0] (world_new 8)))) = [1, 2] \<and>
   map re_seq (w_sink_log (bus_run
      [AttachSink, Publish [1] 5 True, Publish [2] 6 True, Deliver 1, Deliver 0] (world_new 8))) = [2, 1]"
  by (simp add: bus_run_def publish_def world_new_def with_history_def attach_sink_def deliver_def
      push_history_def make_room_stop Let_def RecordedEvent_def)

end
