(* ===== verification/Stamps.thy ===== *)
theory Stamps
  imports Text_Format
begin

text \<open>
  Instants of \<open>crates/pane/src/events/mod.rs\<close>: milliseconds since the Unix epoch, the time of day and the
  date they print as, and the closed form that turns a count of days into a date. The numbers are
  unbounded integers; an instant is a reading of the clock, far from the ends of 64 bits, and the one
  subtraction the code makes saturate is written out.
\<close>

section \<open>Dates\<close>

definition civil_from_days :: "int \<Rightarrow> int \<times> int \<times> int" where
  "civil_from_days days =
     (let z = days + 719468;
          era = z div 146097;
          doe = z - era * 146097;
          yoe = (doe - doe div 1460 + doe div 36524 - doe div 146096) div 365;
          y = yoe + era * 400;
          doy = doe - (365 * yoe + yoe div 4 - yoe div 100);
          mp = (5 * doy + 2) div 153;
          d = doy - (153 * mp + 2) div 5 + 1;
          m = (if mp < 10 then mp + 3 else mp - 9)
      in (if m \<le> 2 then y + 1 else y, m, d))"

section \<open>Instants\<close>

type_synonym stamp = int

definition stamp_since :: "stamp \<Rightarrow> stamp \<Rightarrow> nat" where
  "stamp_since later earlier = nat (max (min (max (later - earlier) (- (2 ^ 63))) (2 ^ 63 - 1)) 0)"

definition clock_text :: "int \<Rightarrow> rstr" where
  "clock_text ms_of_day =
     decimal0 2 (nat (ms_of_day div 3600000)) @ u '':'' @ decimal0 2 (nat (ms_of_day div 60000 mod 60)) @
     u '':'' @ decimal0 2 (nat (ms_of_day div 1000 mod 60)) @ u ''.'' @
     decimal0 3 (nat (ms_of_day mod 1000)) @ u ''Z''"

definition time_of_day :: "stamp \<Rightarrow> rstr" where
  "time_of_day s = clock_text (s mod 86400000)"

definition stamp_text :: "stamp \<Rightarrow> rstr" where
  "stamp_text s =
     (case civil_from_days (s div 86400000) of
        (y, m, d) \<Rightarrow>
          signed_decimal0 4 y @ u ''-'' @ decimal0 2 (nat m) @ u ''-'' @ decimal0 2 (nat d) @ u ''T'' @
          clock_text (s mod 86400000))"

end
