(* ===== verification/Event_Window.thy ===== *)
theory Event_Window
  imports Stamps
begin

text \<open>
  The inbox of a session, \<open>crates/pane/src/events\<close>: the vocabulary of events and the key that decides
  whether a second arrival is a second event (\<open>mod.rs\<close>), the window that collects them and closes on a
  deadline or an interrupt (\<open>window.rs\<close>), the batch a closed window becomes (\<open>batch.rs\<close>), and the turn of
  \<open>session.rs\<close> that takes the old batch back, rolls what was not acknowledged and waits for the next.
  Identifiers and ages are natural numbers: the window counts the one up from 1, the other stays below
  the age at which an event is dropped.
\<close>

section \<open>Events\<close>

datatype kind =
    WorkerReport rstr rstr
  | WorkerQuiet rstr
  | Prompt
  | CiRun rstr
  | CiCell rstr rstr
  | BgDone rstr
  | AgentDone rstr
  | Hook rstr
  | Message rstr
  | Timer rstr

datatype priority = Batched | Interrupt

record event =
  ev_id :: nat
  ev_kind :: kind
  ev_source :: rstr
  ev_at :: stamp
  ev_payload :: rstr
  ev_priority :: priority
  ev_summary :: rstr
  ev_tool_call :: "rstr option"

definition kind_text :: "kind \<Rightarrow> rstr" where
  "kind_text k =
     (case k of
        WorkerReport _ _ \<Rightarrow> u ''worker.report''
      | WorkerQuiet _ \<Rightarrow> u ''worker.quiet''
      | Prompt \<Rightarrow> u ''prompt''
      | CiRun _ \<Rightarrow> u ''ci.run''
      | CiCell _ _ \<Rightarrow> u ''ci.cell''
      | BgDone _ \<Rightarrow> u ''bg.done''
      | AgentDone _ \<Rightarrow> u ''agent.done''
      | Hook name \<Rightarrow> u ''hook.'' @ name
      | Message _ \<Rightarrow> u ''message''
      | Timer _ \<Rightarrow> u ''timer'')"

definition event_pending ::
    "kind \<Rightarrow> rstr \<Rightarrow> stamp \<Rightarrow> rstr \<Rightarrow> priority \<Rightarrow> rstr \<Rightarrow> event" where
  "event_pending k source at_time payload p summary =
     \<lparr>ev_id = 0, ev_kind = k, ev_source = source, ev_at = at_time, ev_payload = payload, ev_priority = p,
      ev_summary = summary, ev_tool_call = None\<rparr>"

definition event_pending_hook ::
    "rstr \<Rightarrow> rstr \<Rightarrow> stamp \<Rightarrow> rstr \<Rightarrow> priority \<Rightarrow> rstr \<Rightarrow> rstr \<Rightarrow> event" where
  "event_pending_hook name source at_time payload p summary tool_call =
     (event_pending (Hook name) source at_time payload p summary)\<lparr>ev_tool_call := Some tool_call\<rparr>"

definition dedup_key :: "event \<Rightarrow> rstr" where
  "dedup_key e =
     (case ev_kind e of
        WorkerReport path mtime \<Rightarrow> u ''worker.report|'' @ ev_source e @ u ''|'' @ path @ u ''|'' @ mtime
      | WorkerQuiet quiet_since \<Rightarrow> u ''worker.quiet|'' @ ev_source e @ u ''|'' @ quiet_since
      | Prompt \<Rightarrow> u ''prompt|'' @ ev_source e
      | CiRun conclusion \<Rightarrow> u ''ci.run|'' @ ev_source e @ u ''|'' @ conclusion
      | CiCell cell conclusion \<Rightarrow> u ''ci.cell|'' @ ev_source e @ u ''|'' @ cell @ u ''|'' @ conclusion
      | BgDone emission \<Rightarrow> u ''bg.done|'' @ ev_source e @ u ''|'' @ emission
      | AgentDone emission \<Rightarrow> u ''agent.done|'' @ ev_source e @ u ''|'' @ emission
      | Hook name \<Rightarrow> u ''hook|'' @ ev_source e @ u ''|'' @ name @ u ''|'' @
          (case ev_tool_call e of Some c \<Rightarrow> c | None \<Rightarrow> [])
      | Message message_id \<Rightarrow> u ''message|'' @ ev_source e @ u ''|'' @ message_id
      | Timer deadline \<Rightarrow> u ''timer|'' @ ev_source e @ u ''|'' @ deadline)"

definition is_report :: "event \<Rightarrow> bool" where
  "is_report e = (case ev_kind e of WorkerReport _ _ \<Rightarrow> True | _ \<Rightarrow> False)"

definition is_quiet :: "event \<Rightarrow> bool" where
  "is_quiet e = (case ev_kind e of WorkerQuiet _ \<Rightarrow> True | _ \<Rightarrow> False)"

section \<open>The batch\<close>

datatype closed_on = OnInterrupt nat | OnDeadline nat

type_synonym batch_entry = "event \<times> nat"

record batch =
  ba_n :: nat
  ba_closed_on :: closed_on
  ba_entries :: "batch_entry list"
  ba_acked :: "nat set"
  ba_rolled_in :: nat
  ba_cap :: nat
  ba_drop_age :: nat
  ba_newly_dropped :: nat

record dropped_event =
  dr_id :: nat
  dr_kind :: kind
  dr_source :: rstr

record rolled =
  ro_events :: "batch_entry list"
  ro_dropped :: "dropped_event list"

definition batch_new :: "nat \<Rightarrow> closed_on \<Rightarrow> batch_entry list \<Rightarrow> nat \<Rightarrow> nat \<Rightarrow> nat \<Rightarrow> batch" where
  "batch_new n closed entries rolled_in cap drop_age =
     \<lparr>ba_n = n, ba_closed_on = closed, ba_entries = entries, ba_acked = {}, ba_rolled_in = rolled_in,
      ba_cap = cap, ba_drop_age = drop_age, ba_newly_dropped = 0\<rparr>"

definition batch_where :: "rstr option \<Rightarrow> rstr option \<Rightarrow> batch \<Rightarrow> event list" where
  "batch_where k source b =
     filter (\<lambda>e. (case source of None \<Rightarrow> True | Some s \<Rightarrow> ev_source e = s))
       (filter (\<lambda>e. case k of
            None \<Rightarrow> True
          | Some t \<Rightarrow> if t = u ''hook.*'' then (case ev_kind e of Hook _ \<Rightarrow> True | _ \<Rightarrow> False)
                      else kind_text (ev_kind e) = t)
         (map fst (ba_entries b)))"

text \<open>\<open>ack\<close> answers which of the identifiers it holds and which it does not, in their order.\<close>

fun batch_ack :: "nat list \<Rightarrow> batch \<Rightarrow> (nat list \<times> nat list) \<times> batch" where
  "batch_ack [] b = (([], []), b)"
| "batch_ack (i # ids) b =
     (if list_ex (\<lambda>(e, _). ev_id e = i) (ba_entries b)
      then (case batch_ack ids (b\<lparr>ba_acked := insert i (ba_acked b)\<rparr>) of
              ((acked, unknown), b') \<Rightarrow> ((i # acked, unknown), b'))
      else (case batch_ack ids b of ((acked, unknown), b') \<Rightarrow> ((acked, i # unknown), b')))"

definition batch_rest :: "batch \<Rightarrow> event list" where
  "batch_rest b = map fst (filter (\<lambda>(e, _). ev_id e \<notin> ba_acked b) (ba_entries b))"

definition retain_unacked :: "batch \<Rightarrow> batch" where
  "retain_unacked b =
     (let entries = filter (\<lambda>(e, _). ev_id e \<notin> ba_acked b) (ba_entries b)
      in b\<lparr>ba_entries := entries, ba_acked := {}, ba_n := length entries,
           ba_rolled_in := length (filter (\<lambda>(_, age). age > 0) entries)\<rparr>)"

definition batch_payload :: "nat \<Rightarrow> batch \<Rightarrow> rstr option" where
  "batch_payload i b =
     map_option (\<lambda>(e, _). ev_payload e) (List.find (\<lambda>(e, _). ev_id e = i) (ba_entries b))"

definition rolling_depth :: "batch \<Rightarrow> nat" where
  "rolling_depth b =
     min (length (filter (\<lambda>(e, age). ev_id e \<notin> ba_acked b \<and> age + 1 < ba_drop_age b) (ba_entries b)))
       (ba_cap b div 2)"

definition drop_record :: "event \<Rightarrow> dropped_event" where
  "drop_record e = \<lparr>dr_id = ev_id e, dr_kind = ev_kind e, dr_source = ev_source e\<rparr>"

text \<open>The loop of \<open>roll\<close>: survivors with their new age, and the events too old to survive.\<close>

fun age_entries :: "nat set \<Rightarrow> nat \<Rightarrow> batch_entry list \<Rightarrow> batch_entry list \<times> dropped_event list" where
  "age_entries acked drop_age [] = ([], [])"
| "age_entries acked drop_age ((e, age) # entries) =
     (case age_entries acked drop_age entries of
        (survivors, dropped) \<Rightarrow>
          if ev_id e \<in> acked then (survivors, dropped)
          else if age + 1 \<ge> drop_age then (survivors, drop_record e # dropped)
          else ((e, age + 1) # survivors, dropped))"

definition batch_roll :: "batch \<Rightarrow> rolled" where
  "batch_roll b =
     (let half_cap = ba_cap b div 2
      in case age_entries (ba_acked b) (ba_drop_age b) (ba_entries b) of
           (survivors, dropped) \<Rightarrow>
             \<lparr>ro_events = take half_cap survivors,
              ro_dropped = dropped @ map (\<lambda>(e, _). drop_record e) (drop half_cap survivors)\<rparr>)"

section \<open>The window\<close>

record window_config =
  wc_deadline_ms :: int
  wc_cap :: nat
  wc_drop_age :: nat

definition default_config :: window_config where
  "default_config = \<lparr>wc_deadline_ms = 2000, wc_cap = 200, wc_drop_age = 4\<rparr>"

datatype drop_reason = Dedup | QuietUnderReport

datatype accepted = Kept | Dropped drop_reason

datatype arrival_outcome = ArrivalKept nat | ArrivalDropped drop_reason rstr

record window =
  wi_config :: window_config
  wi_next_id :: nat
  wi_first_at :: "stamp option"
  wi_deadline :: "stamp option"
  wi_closed_on :: "closed_on option"
  wi_events :: "event list"
  wi_dedup_keys :: "rstr set"
  wi_rolled_in :: "batch_entry list"
  wi_pending_dropped :: nat
  wi_arrivals :: "(stamp \<times> arrival_outcome) list"

definition window_new :: "window_config \<Rightarrow> window" where
  "window_new config =
     \<lparr>wi_config = config, wi_next_id = 1, wi_first_at = None, wi_deadline = None, wi_closed_on = None,
      wi_events = [], wi_dedup_keys = {}, wi_rolled_in = [], wi_pending_dropped = 0, wi_arrivals = []\<rparr>"

definition window_is_empty :: "window \<Rightarrow> bool" where
  "window_is_empty w \<longleftrightarrow> wi_events w = [] \<and> wi_rolled_in w = []"

definition window_depth :: "window \<Rightarrow> nat" where
  "window_depth w = length (wi_events w) + length (wi_rolled_in w)"

definition payload_ids :: "window \<Rightarrow> rstr set" where
  "payload_ids w = set (map ev_payload (wi_events w @ map fst (wi_rolled_in w)))"

definition carry_forward :: "rolled \<Rightarrow> window \<Rightarrow> window" where
  "carry_forward r w = w\<lparr>wi_pending_dropped := length (ro_dropped r), wi_rolled_in := ro_events r\<rparr>"

definition record_arrival :: "stamp \<Rightarrow> arrival_outcome \<Rightarrow> window \<Rightarrow> window" where
  "record_arrival at_time outcome w = w\<lparr>wi_arrivals := wi_arrivals w @ [(at_time, outcome)]\<rparr>"

text \<open>The first event, or the first look at what was rolled in, sets the deadline.\<close>

definition arm :: "stamp \<Rightarrow> window \<Rightarrow> window" where
  "arm now w = w\<lparr>wi_first_at := Some now, wi_deadline := Some (now + wc_deadline_ms (wi_config w))\<rparr>"

definition keep_event :: "event \<Rightarrow> stamp \<Rightarrow> window \<Rightarrow> window" where
  "keep_event e now w =
     (let w1 = (if is_report e
                then w\<lparr>wi_events := filter (\<lambda>x. \<not> (is_quiet x \<and> ev_source x = ev_source e)) (wi_events w)\<rparr>
                else w);
          e1 = e\<lparr>ev_id := wi_next_id w1\<rparr>;
          w2 = w1\<lparr>wi_next_id := wi_next_id w1 + 1, wi_dedup_keys := insert (dedup_key e) (wi_dedup_keys w1)\<rparr>;
          w3 = (if ev_priority e = Interrupt
                then w2\<lparr>wi_closed_on := Some (OnInterrupt (stamp_since now (the (wi_first_at w2))))\<rparr>
                else w2);
          w4 = record_arrival now (ArrivalKept (ev_id e1)) w3
      in w4\<lparr>wi_events := wi_events w4 @ [e1]\<rparr>)"

definition window_accept :: "event \<Rightarrow> stamp \<Rightarrow> window \<Rightarrow> accepted \<times> window" where
  "window_accept e now w =
     (let w0 = (if wi_first_at w = None then arm now w else w);
          key = dedup_key e
      in if is_quiet e \<and> list_ex (\<lambda>x. is_report x \<and> ev_source x = ev_source e) (wi_events w0)
         then (Dropped QuietUnderReport, record_arrival now (ArrivalDropped QuietUnderReport key) w0)
         else if key \<in> wi_dedup_keys w0
         then (Dropped Dedup, record_arrival now (ArrivalDropped Dedup key) w0)
         else (Kept, keep_event e now w0))"

definition take_batch :: "window \<Rightarrow> batch option \<times> window" where
  "take_batch w =
     (case wi_closed_on w of
        None \<Rightarrow> (None, w)
      | Some closed \<Rightarrow>
          (let interrupts = filter (\<lambda>e. ev_priority e = Interrupt) (wi_events w);
               batched = filter (\<lambda>e. ev_priority e = Batched) (wi_events w);
               rolled_in = wi_rolled_in w;
               capacity_left = wc_cap (wi_config w) - length rolled_in;
               spilled = drop capacity_left batched;
               entries = map (\<lambda>e. (e, 0)) interrupts @ rolled_in @
                         map (\<lambda>e. (e, 0)) (take capacity_left batched);
               b = (batch_new (length entries) closed entries (length rolled_in) (wc_cap (wi_config w))
                      (wc_drop_age (wi_config w)))\<lparr>ba_newly_dropped := wi_pending_dropped w\<rparr>;
               first = (case spilled of [] \<Rightarrow> None | e # _ \<Rightarrow> Some (ev_at e))
           in (Some b,
               w\<lparr>wi_events := spilled, wi_dedup_keys := set (map dedup_key spilled), wi_rolled_in := [],
                 wi_pending_dropped := 0, wi_first_at := first,
                 wi_deadline := map_option (\<lambda>t. t + wc_deadline_ms (wi_config w)) first,
                 wi_closed_on := None\<rparr>)))"

definition close_if_due :: "stamp \<Rightarrow> window \<Rightarrow> batch option \<times> window" where
  "close_if_due now w =
     (let w1 = (if wi_first_at w = None \<and> wi_rolled_in w \<noteq> [] then arm now w else w);
          w2 = (case wi_deadline w1 of
                  Some deadline \<Rightarrow>
                    if wi_closed_on w1 = None \<and> now \<ge> deadline
                    then w1\<lparr>wi_closed_on := Some (OnDeadline (stamp_since now (the (wi_first_at w1))))\<rparr>
                    else w1
                | None \<Rightarrow> w1)
      in take_batch w2)"

section \<open>A turn\<close>

text \<open>
  One look of the wait before a turn: what the background jobs have emitted since the last look, each
  with the instant it is accepted at, the instant of the look, and whether the wait's budget is used up.
  The first look comes after the messages of the socket were accepted, which are the first of its events.
\<close>

record look =
  lo_events :: "(event \<times> stamp) list"
  lo_now :: stamp
  lo_over_budget :: bool

definition EVENT_WAIT_MS :: nat where "EVENT_WAIT_MS = 2500"
definition EVENT_POLL_MS :: nat where "EVENT_POLL_MS = 25"

definition accept_all :: "(event \<times> stamp) list \<Rightarrow> window \<Rightarrow> window" where
  "accept_all es w = foldl (\<lambda>w (e, now). snd (window_accept e now w)) w es"

text \<open>\<open>None\<close> is a wait that is not over after these looks.\<close>

fun next_batch :: "look list \<Rightarrow> window \<Rightarrow> batch option option \<times> window" where
  "next_batch [] w = (None, w)"
| "next_batch (l # looks) w =
     (case close_if_due (lo_now l) (accept_all (lo_events l) w) of
        (Some b, w') \<Rightarrow> (Some (Some b), w')
      | (None, w') \<Rightarrow>
          if window_is_empty w' \<or> lo_over_budget l then (Some None, w')
          else next_batch looks w')"

text \<open>
  The window, the batch the model holds, and where the events that left both went: acknowledged, dropped
  by a roll, withdrawn when a report superseded them, or lost with a task that failed. \<open>in_fresh\<close> lists the batched events in the order
  they were first delivered in.
\<close>

record inbox =
  in_window :: window
  in_live :: "batch option"
  in_settled :: "nat list"
  in_dropped :: "nat list"
  in_withdrawn :: "nat list"
  in_lost :: "nat list"
  in_fresh :: "nat list"

definition inbox_new :: "window_config \<Rightarrow> inbox" where
  "inbox_new config = \<lparr>in_window = window_new config, in_live = None, in_settled = [], in_dropped = [],
     in_withdrawn = [], in_lost = [], in_fresh = []\<rparr>"

definition entry_ids :: "batch_entry list \<Rightarrow> nat list" where
  "entry_ids entries = map (\<lambda>(e, _). ev_id e) entries"

definition acked_ids :: "batch \<Rightarrow> nat list" where
  "acked_ids b = filter (\<lambda>i. i \<in> ba_acked b) (entry_ids (ba_entries b))"

text \<open>Take the batch back and roll it into the window.\<close>

definition inbox_roll :: "inbox \<Rightarrow> inbox" where
  "inbox_roll ib =
     (case in_live ib of
        None \<Rightarrow> ib
      | Some b \<Rightarrow>
          ib\<lparr>in_live := None, in_window := carry_forward (batch_roll b) (in_window ib),
             in_settled := in_settled ib @ acked_ids b,
             in_dropped := in_dropped ib @ map dr_id (ro_dropped (batch_roll b))\<rparr>)"

definition withdrawn_by :: "event \<Rightarrow> stamp \<Rightarrow> window \<Rightarrow> nat list" where
  "withdrawn_by e now w =
     map ev_id (filter (\<lambda>x. x \<notin> set (wi_events (snd (window_accept e now w)))) (wi_events w))"

definition inbox_accept :: "event \<Rightarrow> stamp \<Rightarrow> inbox \<Rightarrow> inbox" where
  "inbox_accept e now ib =
     ib\<lparr>in_window := snd (window_accept e now (in_window ib)),
        in_withdrawn := in_withdrawn ib @ withdrawn_by e now (in_window ib)\<rparr>"

definition fresh_ids :: "batch \<Rightarrow> nat list" where
  "fresh_ids b = map (\<lambda>(e, _). ev_id e)
     (filter (\<lambda>(e, age). age = 0 \<and> ev_priority e = Batched) (ba_entries b))"

definition inbox_close :: "stamp \<Rightarrow> inbox \<Rightarrow> inbox" where
  "inbox_close now ib =
     (case close_if_due now (in_window ib) of
        (None, w) \<Rightarrow> ib\<lparr>in_window := w\<rparr>
      | (Some b, w) \<Rightarrow> ib\<lparr>in_window := w, in_live := Some b, in_fresh := in_fresh ib @ fresh_ids b\<rparr>)"

definition inbox_ack :: "nat list \<Rightarrow> inbox \<Rightarrow> inbox" where
  "inbox_ack ids ib = ib\<lparr>in_live := map_option (\<lambda>b. snd (batch_ack ids b)) (in_live ib)\<rparr>"

definition inbox_retain :: "inbox \<Rightarrow> inbox" where
  "inbox_retain ib =
     (case in_live ib of
        None \<Rightarrow> ib
      | Some b \<Rightarrow> ib\<lparr>in_live := Some (retain_unacked b), in_settled := in_settled ib @ acked_ids b\<rparr>)"

text \<open>
  A task that fails returns without the roll its end would make: the batch goes with the runtime that
  holds it, the window stays with the session.
\<close>

definition inbox_abandon :: "inbox \<Rightarrow> inbox" where
  "inbox_abandon ib =
     (case in_live ib of
        None \<Rightarrow> ib
      | Some b \<Rightarrow>
          ib\<lparr>in_live := None, in_settled := in_settled ib @ acked_ids b,
             in_lost := in_lost ib @ map ev_id (batch_rest b)\<rparr>)"

text \<open>
  What happens to an inbox: events arrive at any time; the window is looked at only when the model holds
  no batch, for a turn rolls the old one first; the model's program acknowledges, and so do the handlers,
  after each of which the acknowledged events leave the batch; a task ends well, which rolls, or fails.
\<close>

inductive inbox_step :: "inbox \<Rightarrow> inbox \<Rightarrow> bool" where
  accept: "inbox_step ib (inbox_accept e now ib)"
| roll: "inbox_step ib (inbox_roll ib)"
| close: "in_live ib = None \<Longrightarrow> inbox_step ib (inbox_close now ib)"
| ack: "inbox_step ib (inbox_ack ids ib)"
| retain: "inbox_step ib (inbox_retain ib)"
| abandon: "inbox_step ib (inbox_abandon ib)"

inductive inbox_reachable :: "window_config \<Rightarrow> inbox \<Rightarrow> bool" for config where
  start: "inbox_reachable config (inbox_new config)"
| step: "inbox_reachable config ib \<Longrightarrow> inbox_step ib ib' \<Longrightarrow> inbox_reachable config ib'"

inductive_cases inbox_stepE: "inbox_step ib ib'"

section \<open>What one step does\<close>

lemma arm_simps [simp]:
  "wi_events (arm now w) = wi_events w" "wi_next_id (arm now w) = wi_next_id w"
  "wi_rolled_in (arm now w) = wi_rolled_in w" "wi_config (arm now w) = wi_config w"
  "wi_dedup_keys (arm now w) = wi_dedup_keys w" "wi_closed_on (arm now w) = wi_closed_on w"
  "wi_first_at (arm now w) = Some now" "wi_deadline (arm now w) = Some (now + wc_deadline_ms (wi_config w))"
  by (simp_all add: arm_def)

definition superseded :: "event \<Rightarrow> event \<Rightarrow> bool" where
  "superseded e x \<longleftrightarrow> is_report e \<and> is_quiet x \<and> ev_source x = ev_source e"

definition remaining :: "event \<Rightarrow> event list \<Rightarrow> event list" where
  "remaining e es = filter (\<lambda>x. \<not> superseded e x) es"

lemma keep_event_simps [simp]:
  "wi_events (keep_event e now w) = remaining e (wi_events w) @ [e\<lparr>ev_id := wi_next_id w\<rparr>]"
  "wi_next_id (keep_event e now w) = Suc (wi_next_id w)"
  "wi_rolled_in (keep_event e now w) = wi_rolled_in w" "wi_config (keep_event e now w) = wi_config w"
  "wi_dedup_keys (keep_event e now w) = insert (dedup_key e) (wi_dedup_keys w)"
  "wi_first_at (keep_event e now w) = wi_first_at w" "wi_deadline (keep_event e now w) = wi_deadline w"
  by (simp_all add: keep_event_def Let_def record_arrival_def remaining_def superseded_def)

lemma record_arrival_simps [simp]:
  "wi_events (record_arrival t x w) = wi_events w" "wi_next_id (record_arrival t x w) = wi_next_id w"
  "wi_rolled_in (record_arrival t x w) = wi_rolled_in w" "wi_config (record_arrival t x w) = wi_config w"
  "wi_dedup_keys (record_arrival t x w) = wi_dedup_keys w" "wi_first_at (record_arrival t x w) = wi_first_at w"
  "wi_deadline (record_arrival t x w) = wi_deadline w" "wi_closed_on (record_arrival t x w) = wi_closed_on w"
  by (simp_all add: record_arrival_def)

lemma dedup_key_id [simp]: "dedup_key (e\<lparr>ev_id := i\<rparr>) = dedup_key e"
  by (simp add: dedup_key_def split: kind.split)

lemma is_report_id [simp]: "is_report (e\<lparr>ev_id := i\<rparr>) = is_report e" "is_quiet (e\<lparr>ev_id := i\<rparr>) = is_quiet e"
  by (simp_all add: is_report_def is_quiet_def)

lemma report_not_quiet: "is_report e \<Longrightarrow> \<not> is_quiet e"
  by (simp add: is_report_def is_quiet_def split: kind.splits)

text \<open>An arrival is kept, or leaves the events as they are.\<close>

lemma window_accept_cases:
  obtains (dropped) reason where "fst (window_accept e now w) = Dropped reason"
      "wi_events (snd (window_accept e now w)) = wi_events w"
      "wi_next_id (snd (window_accept e now w)) = wi_next_id w"
      "wi_dedup_keys (snd (window_accept e now w)) = wi_dedup_keys w"
  | (kept) "fst (window_accept e now w) = Kept"
      "wi_events (snd (window_accept e now w)) = remaining e (wi_events w) @ [e\<lparr>ev_id := wi_next_id w\<rparr>]"
      "wi_next_id (snd (window_accept e now w)) = Suc (wi_next_id w)"
      "wi_dedup_keys (snd (window_accept e now w)) = insert (dedup_key e) (wi_dedup_keys w)"
      "dedup_key e \<notin> wi_dedup_keys w"
      "\<not> (is_quiet e \<and> list_ex (\<lambda>x. is_report x \<and> ev_source x = ev_source e) (wi_events w))"
proof -
  define w0 where "w0 = (if wi_first_at w = None then arm now w else w)"
  define quiet where "quiet \<longleftrightarrow> is_quiet e \<and> list_ex (\<lambda>x. is_report x \<and> ev_source x = ev_source e) (wi_events w)"
  have same: "wi_events w0 = wi_events w" "wi_next_id w0 = wi_next_id w" "wi_dedup_keys w0 = wi_dedup_keys w"
    by (simp_all add: w0_def)
  have eq: "window_accept e now w =
      (if quiet then (Dropped QuietUnderReport, record_arrival now (ArrivalDropped QuietUnderReport (dedup_key e)) w0)
       else if dedup_key e \<in> wi_dedup_keys w then (Dropped Dedup, record_arrival now (ArrivalDropped Dedup (dedup_key e)) w0)
       else (Kept, keep_event e now w0))"
    unfolding window_accept_def Let_def w0_def [symmetric] same quiet_def by (rule refl)
  consider "quiet" | "\<not> quiet" "dedup_key e \<in> wi_dedup_keys w" | "\<not> quiet" "dedup_key e \<notin> wi_dedup_keys w"
    by blast
  then show ?thesis
  proof cases
    case 1
    then show ?thesis by (intro dropped [of QuietUnderReport]) (simp_all add: eq same)
  next
    case 2
    then show ?thesis by (intro dropped [of Dedup]) (simp_all add: eq same)
  next
    case 3
    then show ?thesis by (intro kept) (simp_all add: eq same quiet_def [symmetric])
  qed
qed

lemma window_accept_keeps [simp]:
  "wi_rolled_in (snd (window_accept e now w)) = wi_rolled_in w"
  "wi_config (snd (window_accept e now w)) = wi_config w"
  "wi_first_at (snd (window_accept e now w)) =
     (if wi_first_at w = None then Some now else wi_first_at w)"
  "wi_deadline (snd (window_accept e now w)) =
     (if wi_first_at w = None then Some (now + wc_deadline_ms (wi_config w)) else wi_deadline w)"
  by (cases "wi_first_at w"; simp add: window_accept_def Let_def)+

lemma close_if_due_cases:
  obtains (waiting) "fst (close_if_due now w) = None" "wi_events (snd (close_if_due now w)) = wi_events w"
      "wi_rolled_in (snd (close_if_due now w)) = wi_rolled_in w"
      "wi_next_id (snd (close_if_due now w)) = wi_next_id w"
      "wi_config (snd (close_if_due now w)) = wi_config w"
      "wi_dedup_keys (snd (close_if_due now w)) = wi_dedup_keys w"
      "snd (close_if_due now w) = (if wi_first_at w = None \<and> wi_rolled_in w \<noteq> [] then arm now w else w)"
  | (taken) b where "fst (close_if_due now w) = Some b"
      "ba_entries b = map (\<lambda>e. (e, 0)) (filter (\<lambda>e. ev_priority e = Interrupt) (wi_events w)) @
         wi_rolled_in w @
         map (\<lambda>e. (e, 0)) (take (wc_cap (wi_config w) - length (wi_rolled_in w))
           (filter (\<lambda>e. ev_priority e = Batched) (wi_events w)))"
      "ba_acked b = {}" "ba_cap b = wc_cap (wi_config w)" "ba_drop_age b = wc_drop_age (wi_config w)"
      "wi_events (snd (close_if_due now w)) = drop (wc_cap (wi_config w) - length (wi_rolled_in w))
           (filter (\<lambda>e. ev_priority e = Batched) (wi_events w))"
      "wi_rolled_in (snd (close_if_due now w)) = []"
      "wi_next_id (snd (close_if_due now w)) = wi_next_id w"
      "wi_config (snd (close_if_due now w)) = wi_config w"
      "wi_dedup_keys (snd (close_if_due now w)) = set (map dedup_key (wi_events (snd (close_if_due now w))))"
      "wi_first_at (snd (close_if_due now w)) =
         (case wi_events (snd (close_if_due now w)) of [] \<Rightarrow> None | e # _ \<Rightarrow> Some (ev_at e))"
      "wi_deadline (snd (close_if_due now w)) =
         map_option (\<lambda>t. t + wc_deadline_ms (wi_config w)) (wi_first_at (snd (close_if_due now w)))"
proof -
  define w1 where "w1 = (if wi_first_at w = None \<and> wi_rolled_in w \<noteq> [] then arm now w else w)"
  define w2 where "w2 = (case wi_deadline w1 of
      Some deadline \<Rightarrow>
        if wi_closed_on w1 = None \<and> now \<ge> deadline
        then w1\<lparr>wi_closed_on := Some (OnDeadline (stamp_since now (the (wi_first_at w1))))\<rparr> else w1
    | None \<Rightarrow> w1)"
  have eq: "close_if_due now w = take_batch w2"
    unfolding close_if_due_def Let_def w1_def w2_def by (rule refl)
  have w1: "wi_events w1 = wi_events w" "wi_rolled_in w1 = wi_rolled_in w" "wi_next_id w1 = wi_next_id w"
    "wi_config w1 = wi_config w" "wi_dedup_keys w1 = wi_dedup_keys w"
    by (simp_all add: w1_def)
  have "\<exists>c. w2 = w1 \<or> w2 = w1\<lparr>wi_closed_on := c\<rparr>"
    unfolding w2_def by (cases "wi_deadline w1") (auto simp del: window.update_convs)
  then obtain c where w2: "w2 = w1 \<or> w2 = w1\<lparr>wi_closed_on := c\<rparr>" ..
  then have same: "wi_events w2 = wi_events w" "wi_rolled_in w2 = wi_rolled_in w" "wi_next_id w2 = wi_next_id w"
    "wi_config w2 = wi_config w" "wi_dedup_keys w2 = wi_dedup_keys w"
    by (elim disjE; simp add: w1)+
  show ?thesis
  proof (cases "wi_closed_on w2")
    case None
    then have "w2 = w1" by (auto simp: w2_def split: option.splits if_splits)
    then show ?thesis
      using None same by (intro waiting) (simp_all add: eq take_batch_def w1_def)
  next
    case (Some c)
    show ?thesis
      by (rule taken [of "the (fst (take_batch w2))"])
        (simp_all add: eq take_batch_def Some same Let_def batch_new_def split: list.split)
  qed
qed

lemma close_if_due_config [simp]: "wi_config (snd (close_if_due now w)) = wi_config w"
  by (rule close_if_due_cases [of now w])

section \<open>Where every event is\<close>

definition live_ids :: "inbox \<Rightarrow> nat list" where
  "live_ids ib = (case in_live ib of None \<Rightarrow> [] | Some b \<Rightarrow> entry_ids (ba_entries b))"

definition placed :: "inbox \<Rightarrow> nat list" where
  "placed ib = map ev_id (wi_events (in_window ib)) @ entry_ids (wi_rolled_in (in_window ib)) @ live_ids ib @
     in_settled ib @ in_dropped ib @ in_withdrawn ib @ in_lost ib"

definition batched_ids :: "event list \<Rightarrow> nat list" where
  "batched_ids es = map ev_id (filter (\<lambda>e. ev_priority e = Batched) es)"

text \<open>The entries that count against the cap: everything but the interrupts delivered for the first time.\<close>

definition capped :: "batch_entry list \<Rightarrow> batch_entry list" where
  "capped entries = filter (\<lambda>(e, age). \<not> (age = 0 \<and> ev_priority e = Interrupt)) entries"

definition window_ok :: "window_config \<Rightarrow> window \<Rightarrow> bool" where
  "window_ok config w \<longleftrightarrow>
     wi_config w = config \<and>
     distinct (map dedup_key (wi_events w)) \<and> dedup_key ` set (wi_events w) \<subseteq> wi_dedup_keys w \<and>
     (\<forall>r\<in>set (wi_events w). \<forall>q\<in>set (wi_events w). is_report r \<longrightarrow> is_quiet q \<longrightarrow> ev_source r \<noteq> ev_source q) \<and>
     wi_deadline w = map_option (\<lambda>t. t + wc_deadline_ms config) (wi_first_at w) \<and>
     (wi_events w \<noteq> [] \<longrightarrow> wi_first_at w \<noteq> None) \<and>
     length (wi_rolled_in w) \<le> wc_cap config div 2 \<and>
     (\<forall>(e, age)\<in>set (wi_rolled_in w). 1 \<le> age \<and> age < wc_drop_age config)"

definition batch_ok :: "window_config \<Rightarrow> batch \<Rightarrow> bool" where
  "batch_ok config b \<longleftrightarrow> ba_cap b = wc_cap config \<and> ba_drop_age b = wc_drop_age config \<and>
     length (capped (ba_entries b)) \<le> wc_cap config \<and>
     (\<forall>(e, age)\<in>set (ba_entries b). age = 0 \<or> age < wc_drop_age config)"

definition inbox_ok :: "window_config \<Rightarrow> inbox \<Rightarrow> bool" where
  "inbox_ok config ib \<longleftrightarrow>
     window_ok config (in_window ib) \<and>
     (\<forall>b. in_live ib = Some b \<longrightarrow> batch_ok config b \<and> wi_rolled_in (in_window ib) = []) \<and>
     1 \<le> wi_next_id (in_window ib) \<and>
     mset (placed ib) = mset [1 ..< wi_next_id (in_window ib)] \<and>
     sorted_wrt (<) (in_fresh ib @ batched_ids (wi_events (in_window ib))) \<and>
     (\<forall>i\<in>set (in_fresh ib). i < wi_next_id (in_window ib))"

lemma entry_ids_Nil [simp]: "entry_ids [] = []"
  by (simp add: entry_ids_def)

lemma entry_ids_append [simp]: "entry_ids (xs @ ys) = entry_ids xs @ entry_ids ys"
  by (simp add: entry_ids_def)

lemma entry_ids_zero [simp]: "entry_ids (map (\<lambda>e. (e, 0)) es) = map ev_id es"
  by (simp add: entry_ids_def comp_def)

lemma mset_split_priority:
  "mset (map ev_id (filter (\<lambda>e. ev_priority e = Interrupt) es)) +
   mset (map ev_id (filter (\<lambda>e. ev_priority e = Batched) es)) = mset (map ev_id es)"
proof (induction es)
  case (Cons e es)
  then show ?case by (cases "ev_priority e") simp_all
qed simp

lemma placed_range: "inbox_ok config ib \<Longrightarrow> set (placed ib) = {1 ..< wi_next_id (in_window ib)}"
proof -
  assume "inbox_ok config ib"
  then have "mset (placed ib) = mset [1 ..< wi_next_id (in_window ib)]" by (simp add: inbox_ok_def)
  then have "set (placed ib) = set [1 ..< wi_next_id (in_window ib)]" by (rule mset_eq_setD)
  then show ?thesis by simp
qed

lemma event_below:
  assumes "inbox_ok config ib" and "x \<in> set (wi_events (in_window ib))"
  shows "ev_id x < wi_next_id (in_window ib)"
proof -
  have "ev_id x \<in> set (placed ib)"
    using assms(2) by (simp add: placed_def)
  then show ?thesis using placed_range [OF assms(1)] by simp
qed

lemma inbox_ok_new: "inbox_ok config (inbox_new config)"
  by (simp add: inbox_ok_def inbox_new_def window_new_def window_ok_def placed_def live_ids_def entry_ids_def
      batched_ids_def)

lemma batched_ids_append [simp]: "batched_ids (xs @ ys) = batched_ids xs @ batched_ids ys"
  by (simp add: batched_ids_def)

lemma sorted_wrt_map_filter: "sorted_wrt R (map f xs) \<Longrightarrow> sorted_wrt R (map f (filter P xs))"
  by (simp add: sorted_wrt_map sorted_wrt_filter)

lemma filter_swap: "filter P (filter Q xs) = filter Q (filter P xs)"
  by (induction xs) simp_all

lemma batched_ids_remaining:
  "batched_ids (remaining e es) =
     map ev_id (filter (\<lambda>x. \<not> superseded e x) (filter (\<lambda>x. ev_priority x = Batched) es))"
  unfolding batched_ids_def remaining_def by (rule arg_cong [where f = "map ev_id"], rule filter_swap)

lemma sorted_batched_remaining:
  assumes "sorted_wrt (<) (xs @ batched_ids es)"
  shows "sorted_wrt (<) (xs @ batched_ids (remaining e es))"
proof -
  have "sorted_wrt (<) (batched_ids es)"
    using assms unfolding sorted_wrt_append by blast
  then have "sorted_wrt (<) (map ev_id (filter (\<lambda>x. ev_priority x = Batched) es))"
    by (simp only: batched_ids_def)
  then have "sorted_wrt (<) (batched_ids (remaining e es))"
    unfolding batched_ids_remaining by (rule sorted_wrt_map_filter)
  moreover have "set (batched_ids (remaining e es)) \<subseteq> set (batched_ids es)"
    by (auto simp: remaining_def batched_ids_def)
  ultimately show ?thesis
    using assms unfolding sorted_wrt_append by blast
qed

lemma mset_remaining:
  "mset (map ev_id (remaining e es)) + mset (map ev_id (filter (superseded e) es)) = mset (map ev_id es)"
  by (induction es) (simp_all add: remaining_def)

lemma withdrawn_by_kept:
  assumes "\<forall>x\<in>set (wi_events w). ev_id x < wi_next_id w"
    and "wi_events (snd (window_accept e now w)) = remaining e (wi_events w) @ [e\<lparr>ev_id := wi_next_id w\<rparr>]"
  shows "withdrawn_by e now w = map ev_id (filter (superseded e) (wi_events w))"
proof -
  have "x \<noteq> e\<lparr>ev_id := wi_next_id w\<rparr>" if "x \<in> set (wi_events w)" for x
  proof
    assume "x = e\<lparr>ev_id := wi_next_id w\<rparr>"
    then have "ev_id x = wi_next_id w" by simp
    then show False using that assms(1) by fastforce
  qed
  then show ?thesis
    unfolding withdrawn_by_def assms(2) remaining_def
    by (intro arg_cong [where f = "map ev_id"] filter_cong) auto
qed

lemma inbox_ok_accept:
  assumes "inbox_ok config ib"
  shows "inbox_ok config (inbox_accept e now ib)"
proof -
  let ?w = "in_window ib" and ?w' = "snd (window_accept e now (in_window ib))"
  have ok: "window_ok config ?w" using assms by (simp add: inbox_ok_def)
  have below: "\<forall>x\<in>set (wi_events ?w). ev_id x < wi_next_id ?w"
    using event_below [OF assms] by blast
  show ?thesis
  proof (cases rule: window_accept_cases [of e now ?w])
    case dropped
    then have "withdrawn_by e now ?w = []" by (simp add: withdrawn_by_def)
    moreover have "window_ok config ?w'" using ok dropped by (auto simp: window_ok_def)
    ultimately show ?thesis
      using assms dropped by (simp add: inbox_ok_def inbox_accept_def placed_def live_ids_def)
  next
    case kept
    have gone: "withdrawn_by e now ?w =
        map ev_id (filter (superseded e) (wi_events ?w))"
      by (rule withdrawn_by_kept [OF below kept(2)])
    have keys: "dedup_key ` set (wi_events ?w) \<subseteq> wi_dedup_keys ?w" "distinct (map dedup_key (wi_events ?w))"
      and pairs: "\<forall>r\<in>set (wi_events ?w). \<forall>q\<in>set (wi_events ?w). is_report r \<longrightarrow> is_quiet q \<longrightarrow>
        ev_source r \<noteq> ev_source q"
      and rest: "wi_config ?w = config" "wi_deadline ?w = map_option (\<lambda>t. t + wc_deadline_ms config) (wi_first_at ?w)"
        "length (wi_rolled_in ?w) \<le> wc_cap config div 2"
        "\<forall>(e, age)\<in>set (wi_rolled_in ?w). 1 \<le> age \<and> age < wc_drop_age config"
      using ok by (simp_all add: window_ok_def)
    have fewer: "set (remaining e (wi_events ?w)) \<subseteq> set (wi_events ?w)"
      by (auto simp: remaining_def)
    have "dedup_key e \<notin> dedup_key ` set (remaining e (wi_events ?w))"
      using keys(1) fewer kept(5) by blast
    moreover have "distinct (map dedup_key (remaining e (wi_events ?w)))"
      unfolding remaining_def by (rule distinct_map_filter [OF keys(2)])
    ultimately have "distinct (map dedup_key (wi_events ?w'))"
      by (simp add: kept)
    moreover have "dedup_key ` set (wi_events ?w') \<subseteq> wi_dedup_keys ?w'"
      using keys(1) fewer by (auto simp: kept)
    moreover have "is_report r \<longrightarrow> is_quiet q \<longrightarrow> ev_source r \<noteq> ev_source q"
      if "r \<in> set (wi_events ?w')" "q \<in> set (wi_events ?w')" for r q
    proof (intro impI)
      assume rq: "is_report r" "is_quiet q"
      have "r \<in> set (wi_events ?w) \<or> r = e\<lparr>ev_id := wi_next_id ?w\<rparr>"
        and q: "q \<in> set (remaining e (wi_events ?w)) \<or> q = e\<lparr>ev_id := wi_next_id ?w\<rparr>"
        using that fewer by (auto simp: kept)
      then show "ev_source r \<noteq> ev_source q"
        using rq pairs fewer kept(6) report_not_quiet [of e]
        by (elim disjE) (auto simp: remaining_def superseded_def list_ex_iff)
    qed
    moreover have "wi_deadline ?w' = map_option (\<lambda>t. t + wc_deadline_ms config) (wi_first_at ?w')"
      using rest(1,2) by simp
    ultimately have "window_ok config ?w'"
      using rest unfolding window_ok_def by (intro conjI) (simp_all add: case_prod_beta)
    moreover have "mset (placed (inbox_accept e now ib)) = mset (placed ib) + {#wi_next_id ?w#}"
      using mset_remaining [of e "wi_events ?w"]
      by (simp add: placed_def inbox_accept_def live_ids_def kept gone del: mset_map)
    moreover have "sorted_wrt (<) (in_fresh ib @ batched_ids (wi_events ?w'))"
      using sorted_batched_remaining [of "in_fresh ib" "wi_events ?w" e] assms below
      by (auto simp: kept inbox_ok_def batched_ids_def sorted_wrt_append remaining_def)
    ultimately show ?thesis
      using assms by (auto simp: inbox_ok_def inbox_accept_def kept)
  qed
qed

lemma capped_append [simp]: "capped (xs @ ys) = capped xs @ capped ys"
  by (simp add: capped_def)

lemma capped_interrupts [simp]:
  "capped (map (\<lambda>e. (e, 0)) (filter (\<lambda>e. ev_priority e = Interrupt) es)) = []"
  by (simp add: capped_def filter_empty_conv)

lemma length_capped: "length (capped es) \<le> length es"
  by (simp add: capped_def)

lemma inbox_ok_close:
  assumes "inbox_ok config ib" and "in_live ib = None"
  shows "inbox_ok config (inbox_close now ib)"
proof (cases rule: close_if_due_cases [of now "in_window ib"])
  case waiting
  have "inbox_close now ib = ib\<lparr>in_window := snd (close_if_due now (in_window ib))\<rparr>"
    using waiting(1) by (simp add: inbox_close_def case_prod_beta)
  moreover have "window_ok config (snd (close_if_due now (in_window ib)))"
    using assms(1) waiting by (simp add: inbox_ok_def window_ok_def)
  ultimately show ?thesis
    using assms waiting by (simp add: inbox_ok_def placed_def live_ids_def)
next
  case (taken b)
  let ?w = "in_window ib"
  let ?w' = "snd (close_if_due now ?w)" and ?bs = "filter (\<lambda>e. ev_priority e = Batched) (wi_events ?w)"
    and ?k = "wc_cap (wi_config ?w) - length (wi_rolled_in ?w)"
  have eq: "inbox_close now ib = ib\<lparr>in_window := ?w', in_live := Some b, in_fresh := in_fresh ib @ fresh_ids b\<rparr>"
    using taken(1) by (simp add: inbox_close_def case_prod_beta)
  have ok: "window_ok config ?w" using assms(1) by (simp add: inbox_ok_def)
  then have config: "wi_config ?w = config" and half: "length (wi_rolled_in ?w) \<le> wc_cap config div 2"
    and ages: "\<forall>(e, age)\<in>set (wi_rolled_in ?w). 1 \<le> age \<and> age < wc_drop_age config"
    by (simp_all add: window_ok_def)
  have fewer: "set (wi_events ?w') \<subseteq> set (wi_events ?w)"
    using set_drop_subset [of ?k ?bs] by (auto simp: taken)
  have pairs: "\<forall>r\<in>set (wi_events ?w). \<forall>q\<in>set (wi_events ?w). is_report r \<longrightarrow> is_quiet q \<longrightarrow>
      ev_source r \<noteq> ev_source q"
    using ok by (simp add: window_ok_def)
  have keys: "distinct (map dedup_key (wi_events ?w'))"
    using ok by (simp add: taken window_ok_def drop_map [symmetric] distinct_drop distinct_map_filter)
  have "window_ok config ?w'"
    unfolding window_ok_def
  proof (intro conjI)
    show "\<forall>r\<in>set (wi_events ?w'). \<forall>q\<in>set (wi_events ?w'). is_report r \<longrightarrow> is_quiet q \<longrightarrow>
        ev_source r \<noteq> ev_source q"
      using pairs fewer by blast
    show "dedup_key ` set (wi_events ?w') \<subseteq> wi_dedup_keys ?w'" unfolding taken(10) by simp
    show "wi_events ?w' \<noteq> [] \<longrightarrow> wi_first_at ?w' \<noteq> None" unfolding taken(11) by (simp split: list.split)
    show "wi_deadline ?w' = map_option (\<lambda>t. t + wc_deadline_ms config) (wi_first_at ?w')"
      using taken(12) config by simp
  qed (use keys config in \<open>simp_all add: taken(7,9)\<close>)
  moreover have "batch_ok config b"
  proof -
    have "length (capped (ba_entries b)) \<le> length (wi_rolled_in ?w) + ?k"
      using length_capped [of "wi_rolled_in ?w"] length_capped [of "map (\<lambda>e. (e, 0)) (take ?k ?bs)"]
      by (simp add: taken)
    also have "\<dots> \<le> wc_cap config" using half by (simp add: config)
    finally show ?thesis using taken ages config by (auto simp: batch_ok_def)
  qed
  moreover have "mset (placed (inbox_close now ib)) = mset (placed ib)"
  proof -
    have "mset (map ev_id (take ?k ?bs)) + mset (map ev_id (drop ?k ?bs)) = mset (map ev_id ?bs)"
      by (metis append_take_drop_id map_append mset_append)
    then show ?thesis
      using mset_split_priority [of "wi_events ?w"] assms(2)
      by (simp add: placed_def eq live_ids_def taken ac_simps del: mset_map)
  qed
  moreover have "in_fresh ib @ fresh_ids b @ batched_ids (wi_events ?w') = in_fresh ib @ batched_ids (wi_events ?w)"
  proof -
    have "fresh_ids b = map ev_id (take ?k ?bs)"
    proof -
      have "filter (\<lambda>(e, age). age = 0 \<and> ev_priority e = Batched) (wi_rolled_in ?w) = []"
        using ages by (fastforce simp: filter_empty_conv)
      moreover have "filter (\<lambda>e. ev_priority e = Batched) (take ?k ?bs) = take ?k ?bs"
        by (auto simp: filter_id_conv dest: in_set_takeD)
      moreover have "filter (\<lambda>e. ev_priority e = Batched) (filter (\<lambda>e. ev_priority e = Interrupt) (wi_events ?w)) = []"
        by (simp add: filter_empty_conv)
      ultimately show ?thesis
        by (simp add: fresh_ids_def taken filter_map comp_def)
    qed
    moreover have "batched_ids (wi_events ?w') = map ev_id (drop ?k ?bs)"
    proof -
      have "filter (\<lambda>e. ev_priority e = Batched) (drop ?k ?bs) = drop ?k ?bs"
        by (auto simp: filter_id_conv dest: in_set_dropD)
      then show ?thesis by (simp add: taken batched_ids_def)
    qed
    ultimately show ?thesis
      by (simp add: batched_ids_def flip: map_append)
  qed
  moreover have "\<forall>i\<in>set (fresh_ids b). i < wi_next_id ?w"
  proof -
    have "set (fresh_ids b) \<subseteq> set (entry_ids (ba_entries b))"
      by (auto simp: fresh_ids_def entry_ids_def)
    also have "\<dots> \<subseteq> set (placed (inbox_close now ib))"
      by (auto simp: placed_def live_ids_def eq)
    also have "\<dots> = set (placed ib)"
      using \<open>mset (placed (inbox_close now ib)) = mset (placed ib)\<close> by (rule mset_eq_setD)
    finally show ?thesis using placed_range [OF assms(1)] by auto
  qed
  ultimately show ?thesis
    using assms(1) taken by (auto simp: inbox_ok_def eq)
qed

lemma age_entries_facts:
  "mset (entry_ids (fst (age_entries acked m es))) + mset (map dr_id (snd (age_entries acked m es))) +
     mset (filter (\<lambda>i. i \<in> acked) (entry_ids es)) = mset (entry_ids es)"
  "\<forall>(e, age)\<in>set (fst (age_entries acked m es)). 1 \<le> age \<and> age < m"
  by (induction acked m es rule: age_entries.induct)
    (auto simp: entry_ids_def drop_record_def split: prod.splits)

lemma inbox_ok_roll:
  assumes "inbox_ok config ib"
  shows "inbox_ok config (inbox_roll ib)"
proof (cases "in_live ib")
  case None
  then show ?thesis using assms by (simp add: inbox_roll_def)
next
  case (Some b)
  have b: "batch_ok config b" "wi_rolled_in (in_window ib) = []"
    using assms Some by (simp_all add: inbox_ok_def)
  obtain survivors dropped where aged: "age_entries (ba_acked b) (ba_drop_age b) (ba_entries b) = (survivors, dropped)"
    by (cases "age_entries (ba_acked b) (ba_drop_age b) (ba_entries b)")
  note facts = age_entries_facts [of "ba_acked b" "ba_drop_age b" "ba_entries b", unfolded aged, simplified]
  have roll: "ro_events (batch_roll b) = take (ba_cap b div 2) survivors"
    "map dr_id (ro_dropped (batch_roll b)) = map dr_id dropped @ entry_ids (drop (ba_cap b div 2) survivors)"
    by (simp_all add: batch_roll_def aged Let_def entry_ids_def drop_record_def comp_def case_prod_beta)
  have "window_ok config (carry_forward (batch_roll b) (in_window ib))"
    using assms b facts(2)
    by (auto simp: inbox_ok_def window_ok_def carry_forward_def roll batch_ok_def dest: in_set_takeD)
  moreover have "mset (entry_ids (ro_events (batch_roll b))) + mset (map dr_id (ro_dropped (batch_roll b))) +
      mset (acked_ids b) = mset (entry_ids (ba_entries b))"
  proof -
    have "entry_ids (take (ba_cap b div 2) survivors) @ entry_ids (drop (ba_cap b div 2) survivors) = entry_ids survivors"
      by (simp flip: entry_ids_append)
    then have "mset (entry_ids (take (ba_cap b div 2) survivors)) + mset (entry_ids (drop (ba_cap b div 2) survivors)) =
        mset (entry_ids survivors)"
      by (metis mset_append)
    then show ?thesis using facts(1) by (simp add: roll acked_ids_def ac_simps)
  qed
  then have "mset (placed (inbox_roll ib)) = mset (placed ib)"
    using b(2) by (simp add: placed_def inbox_roll_def Some live_ids_def carry_forward_def entry_ids_def ac_simps)
  ultimately show ?thesis
    using assms by (simp add: inbox_ok_def inbox_roll_def Some carry_forward_def)
qed

lemma batch_ack_keeps [simp]:
  "ba_entries (snd (batch_ack ids b)) = ba_entries b" "ba_cap (snd (batch_ack ids b)) = ba_cap b"
  "ba_drop_age (snd (batch_ack ids b)) = ba_drop_age b"
  by (induction ids b rule: batch_ack.induct) (simp_all add: case_prod_beta)

lemma inbox_ok_ack: "inbox_ok config ib \<Longrightarrow> inbox_ok config (inbox_ack ids ib)"
  by (auto simp: inbox_ok_def inbox_ack_def batch_ok_def placed_def live_ids_def split: option.splits)

lemma inbox_ok_retain:
  assumes "inbox_ok config ib"
  shows "inbox_ok config (inbox_retain ib)"
proof (cases "in_live ib")
  case None
  then show ?thesis using assms by (simp add: inbox_retain_def)
next
  case (Some b)
  have b: "batch_ok config b" using assms Some by (simp add: inbox_ok_def)
  have "length (capped (filter P es)) \<le> length (capped es)" for P es
    by (induction es) (auto simp: capped_def)
  then have "batch_ok config (retain_unacked b)"
    using b by (fastforce simp: batch_ok_def retain_unacked_def Let_def intro: le_trans)
  moreover have "mset (entry_ids (filter (\<lambda>(e, _). ev_id e \<notin> ba_acked b) es)) +
      mset (filter (\<lambda>i. i \<in> ba_acked b) (entry_ids es)) = mset (entry_ids es)" for es
    by (induction es) (auto simp: entry_ids_def)
  ultimately show ?thesis
    using assms Some
    by (auto simp: inbox_ok_def inbox_retain_def placed_def live_ids_def retain_unacked_def Let_def acked_ids_def ac_simps)
qed

lemma inbox_ok_abandon:
  assumes "inbox_ok config ib"
  shows "inbox_ok config (inbox_abandon ib)"
proof (cases "in_live ib")
  case None
  then show ?thesis using assms by (simp add: inbox_abandon_def)
next
  case (Some b)
  have "mset (map ev_id (map fst (filter (\<lambda>(e, _). ev_id e \<notin> A) es))) +
      mset (filter (\<lambda>i. i \<in> A) (entry_ids es)) = mset (entry_ids es)" for A and es :: "batch_entry list"
    by (induction es) (auto simp: entry_ids_def)
  then have "mset (map ev_id (batch_rest b)) + mset (acked_ids b) = mset (entry_ids (ba_entries b))"
    unfolding batch_rest_def acked_ids_def .
  then have "mset (placed (inbox_abandon ib)) = mset (placed ib)"
    by (simp add: placed_def inbox_abandon_def Some live_ids_def ac_simps del: mset_map)
  then show ?thesis
    using assms by (simp add: inbox_ok_def inbox_abandon_def Some)
qed

lemma inbox_ok_step:
  assumes "inbox_step ib ib'" and "inbox_ok config ib"
  shows "inbox_ok config ib'"
  using assms
  by (cases rule: inbox_step.cases)
    (simp_all add: inbox_ok_accept inbox_ok_roll inbox_ok_close inbox_ok_ack inbox_ok_retain inbox_ok_abandon)

lemma inbox_ok_reachable: "inbox_reachable config ib \<Longrightarrow> inbox_ok config ib"
proof (induction rule: inbox_reachable.induct)
  case (step ib ib')
  then show ?case using inbox_ok_step by blast
qed (rule inbox_ok_new)

section \<open>How long an event waits\<close>

text \<open>A closing that gives the model a batch, and runs counted in such closings.\<close>

definition delivers :: "inbox \<Rightarrow> inbox \<Rightarrow> bool" where
  "delivers ib ib' \<longleftrightarrow> in_live ib = None \<and> in_live ib' \<noteq> None"

inductive inbox_path :: "inbox \<Rightarrow> nat \<Rightarrow> inbox \<Rightarrow> bool" for ib where
  path_start: "inbox_path ib 0 ib"
| path_quiet: "inbox_path ib n ib' \<Longrightarrow> inbox_step ib' ib'' \<Longrightarrow> \<not> delivers ib' ib'' \<Longrightarrow> inbox_path ib n ib''"
| path_batch: "inbox_path ib n ib' \<Longrightarrow> inbox_step ib' ib'' \<Longrightarrow> delivers ib' ib'' \<Longrightarrow> inbox_path ib (Suc n) ib''"

text \<open>How many batched events of the window were accepted before the one of this identifier.\<close>

definition ahead :: "nat \<Rightarrow> inbox \<Rightarrow> nat" where
  "ahead i ib = length (filter (\<lambda>j. j < i) (batched_ids (wi_events (in_window ib))))"

text \<open>An event that was handed to the model: in its batch, or wherever a batch's events go.\<close>

definition was_delivered :: "nat \<Rightarrow> inbox \<Rightarrow> bool" where
  "was_delivered i ib \<longleftrightarrow>
     i \<in> set (live_ids ib) \<union> set (entry_ids (wi_rolled_in (in_window ib))) \<union>
         set (in_settled ib) \<union> set (in_dropped ib) \<union> set (in_lost ib)"

text \<open>Where an event of the window is after one step.\<close>

definition still_waits :: "event \<Rightarrow> nat \<Rightarrow> inbox \<Rightarrow> inbox \<Rightarrow> bool" where
  "still_waits e room ib ib' \<longleftrightarrow>
     e \<in> set (wi_events (in_window ib')) \<and>
     (delivers ib ib' \<longrightarrow> ev_priority e = Batched) \<and>
     ahead (ev_id e) ib' + (if delivers ib ib' then room else 0) \<le> ahead (ev_id e) ib"

definition out_of_window :: "nat \<Rightarrow> inbox \<Rightarrow> bool" where
  "out_of_window i ib \<longleftrightarrow> i < wi_next_id (in_window ib) \<and> i \<notin> ev_id ` set (wi_events (in_window ib))"

lemma same_event:
  assumes "inbox_ok config ib" and "x \<in> set (wi_events (in_window ib))"
    and "y \<in> set (wi_events (in_window ib))" and "ev_id x = ev_id y"
  shows "x = y"
proof -
  have "distinct (placed ib)"
    using assms(1) mset_eq_imp_distinct_iff distinct_upt unfolding inbox_ok_def by blast
  then have "inj_on ev_id (set (wi_events (in_window ib)))"
    by (simp add: placed_def distinct_map)
  then show ?thesis using assms(2-4) by (meson inj_onD)
qed

lemma same_window:
  assumes "wi_events (in_window ib') = wi_events (in_window ib)"
    and "wi_next_id (in_window ib') = wi_next_id (in_window ib)" and "\<not> delivers ib ib'"
  shows "e \<in> set (wi_events (in_window ib)) \<Longrightarrow> still_waits e room ib ib'"
    "out_of_window i ib \<Longrightarrow> out_of_window i ib'"
  using assms by (simp_all add: still_waits_def ahead_def out_of_window_def)

lemma accept_waits:
  assumes "inbox_ok config ib" and "e \<in> set (wi_events (in_window ib))"
    and "\<not> out_of_window (ev_id e) (inbox_accept x now ib)"
  shows "still_waits e room ib (inbox_accept x now ib)"
proof (cases rule: window_accept_cases [of x now "in_window ib"])
  case dropped
  then show ?thesis
    using assms(2) by (intro same_window(1)) (auto simp: inbox_accept_def delivers_def)
next
  case kept
  note below = event_below [OF assms(1,2)]
  have "length (filter (\<lambda>j. j < i) (batched_ids (remaining x es))) \<le> length (filter (\<lambda>j. j < i) (batched_ids es))"
    for i es by (induction es) (auto simp: batched_ids_def remaining_def)
  moreover have "e \<in> set (remaining x (wi_events (in_window ib)))"
  proof -
    have "ev_id e \<in> ev_id ` set (remaining x (wi_events (in_window ib)))"
      using below assms(3) by (auto simp: out_of_window_def inbox_accept_def kept)
    then obtain y where y: "y \<in> set (remaining x (wi_events (in_window ib)))" "ev_id y = ev_id e" by auto
    then have "y \<in> set (wi_events (in_window ib))" by (simp add: remaining_def)
    then have "y = e" using y(2) same_event [OF assms(1)] assms(2) by blast
    then show ?thesis using y(1) by simp
  qed
  ultimately show ?thesis
    using below
    by (auto simp: still_waits_def delivers_def inbox_accept_def ahead_def kept batched_ids_def)
qed

lemma close_waits:
  assumes "inbox_ok config ib" and "in_live ib = None" and "e \<in> set (wi_events (in_window ib))"
    and "\<not> out_of_window (ev_id e) (inbox_close now ib)"
  shows "still_waits e (wc_cap config - wc_cap config div 2) ib (inbox_close now ib)"
proof (cases rule: close_if_due_cases [of now "in_window ib"])
  case waiting
  then have "inbox_close now ib = ib\<lparr>in_window := snd (close_if_due now (in_window ib))\<rparr>"
    by (simp add: inbox_close_def case_prod_beta)
  then show ?thesis
    using waiting assms(2,3) by (intro same_window(1)) (simp_all add: delivers_def)
next
  case (taken b)
  let ?w = "in_window ib"
  let ?bs = "filter (\<lambda>e. ev_priority e = Batched) (wi_events ?w)"
    and ?k = "wc_cap (wi_config ?w) - length (wi_rolled_in ?w)" and ?i = "ev_id e"
  have eq: "in_window (inbox_close now ib) = snd (close_if_due now ?w)"
    "in_live (inbox_close now ib) = Some b"
    using taken(1) by (simp_all add: inbox_close_def case_prod_beta)
  have room: "wc_cap config - wc_cap config div 2 \<le> ?k"
    using assms(1) by (auto simp: inbox_ok_def window_ok_def)
  have sorted: "sorted_wrt (<) (map ev_id ?bs)"
    using assms(1) by (simp add: inbox_ok_def batched_ids_def sorted_wrt_append)
  have "ev_id e \<in> ev_id ` set (drop ?k ?bs)"
    using assms(4) event_below [OF assms(1,3)] by (simp add: out_of_window_def eq taken)
  then obtain y where y: "y \<in> set (drop ?k ?bs)" "ev_id y = ?i" by auto
  have "y \<in> set (wi_events ?w)" using y(1) by (auto dest: in_set_dropD)
  then have "y = e" using y(2) same_event [OF assms(1)] assms(3) by blast
  then have e: "e \<in> set (drop ?k ?bs)" "ev_priority e = Batched"
    using y(1) by (auto dest: in_set_dropD)
  have front: "map ev_id ?bs = map ev_id (take ?k ?bs) @ map ev_id (drop ?k ?bs)"
    by (metis append_take_drop_id map_append)
  have "\<forall>j\<in>set (map ev_id (take ?k ?bs)). j < ?i"
    using sorted e(1) unfolding front sorted_wrt_append by auto
  then have "length (filter (\<lambda>j. j < ?i) (map ev_id (take ?k ?bs))) = ?k"
    using e(1) by (subst filter_True) (auto simp: min_def)
  moreover have "ahead ?i ib = length (filter (\<lambda>j. j < ?i) (map ev_id (take ?k ?bs))) +
      length (filter (\<lambda>j. j < ?i) (map ev_id (drop ?k ?bs)))"
    unfolding ahead_def batched_ids_def front by (simp only: filter_append length_append)
  moreover have "ahead ?i (inbox_close now ib) = length (filter (\<lambda>j. j < ?i) (map ev_id (drop ?k ?bs)))"
  proof -
    have "filter (\<lambda>e. ev_priority e = Batched) (drop ?k ?bs) = drop ?k ?bs"
      by (auto simp: filter_id_conv dest: in_set_dropD)
    then show ?thesis by (simp only: ahead_def batched_ids_def eq taken)
  qed
  ultimately have "ahead ?i (inbox_close now ib) + ?k = ahead ?i ib" by simp
  then show ?thesis
    using e room assms(2) by (simp add: still_waits_def delivers_def eq taken)
qed

lemma step_waits:
  assumes "inbox_step ib ib'" and "inbox_ok config ib" and "e \<in> set (wi_events (in_window ib))"
  shows "out_of_window (ev_id e) ib' \<or> still_waits e (wc_cap config - wc_cap config div 2) ib ib'"
  using assms(1)
proof (cases rule: inbox_step.cases)
  case (accept x now)
  then show ?thesis using accept_waits [OF assms(2,3)] by blast
next
  case (close now)
  then show ?thesis using close_waits [OF assms(2) _ assms(3)] by blast
next
  case roll
  then show ?thesis
    using assms(3) by (intro disjI2 same_window(1))
      (auto simp: inbox_roll_def carry_forward_def delivers_def split: option.splits)
next
  case (ack ids)
  then show ?thesis
    using assms(3) by (intro disjI2 same_window(1)) (auto simp: inbox_ack_def delivers_def)
next
  case retain
  then show ?thesis
    using assms(3) by (intro disjI2 same_window(1))
      (auto simp: inbox_retain_def delivers_def split: option.splits)
next
  case abandon
  then show ?thesis
    using assms(3) by (intro disjI2 same_window(1))
      (auto simp: inbox_abandon_def delivers_def split: option.splits)
qed

lemma step_stays_out:
  assumes "inbox_step ib ib'" and "out_of_window i ib"
  shows "out_of_window i ib'"
  using assms(1)
proof (cases rule: inbox_step.cases)
  case (accept x now)
  then show ?thesis
    using assms(2)
    by (cases rule: window_accept_cases [of x now "in_window ib"])
      (auto simp: out_of_window_def inbox_accept_def remaining_def)
next
  case (close now)
  then show ?thesis
    using assms(2)
    by (cases rule: close_if_due_cases [of now "in_window ib"])
      (auto simp: out_of_window_def inbox_close_def case_prod_beta split: option.splits
        dest!: in_set_dropD)
qed (use assms(2) in \<open>auto simp: out_of_window_def inbox_roll_def carry_forward_def inbox_ack_def
      inbox_retain_def inbox_abandon_def split: option.splits\<close>)

lemma path_waits:
  assumes "inbox_path ib n ib'" and "inbox_ok config ib" and "e \<in> set (wi_events (in_window ib))"
  shows "inbox_ok config ib' \<and>
     (out_of_window (ev_id e) ib' \<or>
      e \<in> set (wi_events (in_window ib')) \<and> (n = 0 \<or> ev_priority e = Batched) \<and>
      ahead (ev_id e) ib' + n * (wc_cap config - wc_cap config div 2) \<le> ahead (ev_id e) ib)"
  using assms(1)
proof (induction rule: inbox_path.induct)
  case path_start
  then show ?case using assms(2,3) by simp
next
  case (path_quiet n ib' ib'')
  then show ?case
    using inbox_ok_step [OF path_quiet(2)] step_stays_out [OF path_quiet(2)]
      step_waits [OF path_quiet(2), of config e]
    by (auto simp: still_waits_def)
next
  case (path_batch n ib' ib'')
  then show ?case
    using inbox_ok_step [OF path_batch(2)] step_stays_out [OF path_batch(2)]
      step_waits [OF path_batch(2), of config e]
    by (auto simp: still_waits_def)
qed

lemma out_of_window_delivered:
  assumes "inbox_ok config ib" and "out_of_window i ib" and "1 \<le> i"
  shows "was_delivered i ib \<or> i \<in> set (in_withdrawn ib)"
proof -
  have "i \<in> set (placed ib)"
    using placed_range [OF assms(1)] assms(2,3) by (simp add: out_of_window_def)
  then show ?thesis
    using assms(2) by (auto simp: placed_def was_delivered_def out_of_window_def)
qed

section \<open>Waiting\<close>

lemma accept_all_simps [simp]:
  "accept_all [] w = w" "accept_all (x # es) w = accept_all es (snd (window_accept (fst x) (snd x) w))"
  by (simp_all add: accept_all_def case_prod_beta)

lemma accept_all_armed:
  assumes "wi_first_at w = Some t" and "wi_deadline w = Some d"
  shows "wi_first_at (accept_all es w) = Some t \<and> wi_deadline (accept_all es w) = Some d"
  using assms by (induction es arbitrary: w) simp_all

lemma accept_nonempty: "\<not> window_is_empty w \<Longrightarrow> \<not> window_is_empty (snd (window_accept e now w))"
  by (cases rule: window_accept_cases [of e now w]) (simp_all add: window_is_empty_def)

lemma accept_all_nonempty: "\<not> window_is_empty w \<Longrightarrow> \<not> window_is_empty (accept_all es w)"
  by (induction es arbitrary: w) (simp_all add: accept_nonempty)

lemma close_due:
  assumes "wi_first_at w = Some t" and "wi_deadline w = Some d" and "d \<le> now"
  shows "fst (close_if_due now w) \<noteq> None"
  using assms by (cases "wi_closed_on w") (simp_all add: close_if_due_def take_batch_def Let_def)

lemma close_closed:
  assumes "wi_closed_on w = Some c"
  shows "fst (close_if_due now w) \<noteq> None"
proof -
  define w1 where "w1 = (if wi_first_at w = None \<and> wi_rolled_in w \<noteq> [] then arm now w else w)"
  have closed: "wi_closed_on w1 = Some c" using assms by (simp add: w1_def)
  have "close_if_due now w = take_batch w1"
    unfolding close_if_due_def Let_def w1_def [symmetric] using closed by (cases "wi_deadline w1") simp_all
  then show ?thesis using closed by (simp add: take_batch_def Let_def)
qed

lemma close_armed:
  assumes "wi_first_at w = Some t" and "fst (close_if_due now w) = None"
  shows "snd (close_if_due now w) = w"
  using assms by (cases rule: close_if_due_cases [of now w]) simp_all

lemma next_batch_due:
  assumes "wi_first_at w = Some t" and "wi_deadline w = Some d" and "\<not> window_is_empty w"
    and "\<forall>l\<in>set looks. \<not> lo_over_budget l" and "looks \<noteq> []" and "d \<le> lo_now (last looks)"
  shows "\<exists>b w'. next_batch looks w = (Some (Some b), w')"
  using assms
proof (induction looks arbitrary: w)
  case (Cons l ls)
  let ?w = "accept_all (lo_events l) w"
  have armed: "wi_first_at ?w = Some t" "wi_deadline ?w = Some d" and full: "\<not> window_is_empty ?w"
    using accept_all_armed [OF Cons.prems(1,2)] accept_all_nonempty [OF Cons.prems(3)] by simp_all
  show ?case
  proof (cases "fst (close_if_due (lo_now l) ?w)")
    case (Some b)
    then show ?thesis by (cases "close_if_due (lo_now l) ?w") simp
  next
    case None
    then have "ls \<noteq> []" using close_due [OF armed, of "lo_now l"] Cons.prems(6) by (cases ls) auto
    have "close_if_due (lo_now l) ?w = (None, ?w)"
      using None close_armed [OF armed(1) None] by (cases "close_if_due (lo_now l) ?w") simp
    then show ?thesis
      using Cons.IH [OF armed full] Cons.prems(4,6) full \<open>ls \<noteq> []\<close> by simp
  qed
qed simp

section \<open>Properties\<close>

text \<open>
  C29. No event vanishes unseen and none is duplicated: at every moment each identifier the window gave
  out is in exactly one place, which is the window, what was rolled into it, the batch the model holds,
  or one of the four ways out: acknowledged, dropped by a roll, withdrawn for a report of the same
  source, or lost, not acknowledged, with the batch of a task that failed.
\<close>

theorem every_event_is_somewhere:
  assumes "inbox_reachable config ib"
  shows "mset (map ev_id (wi_events (in_window ib)) @ entry_ids (wi_rolled_in (in_window ib)) @
      (case in_live ib of None \<Rightarrow> [] | Some b \<Rightarrow> entry_ids (ba_entries b)) @
      in_settled ib @ in_dropped ib @ in_withdrawn ib @ in_lost ib) = mset [1 ..< wi_next_id (in_window ib)]"
  using inbox_ok_reachable [OF assms] unfolding inbox_ok_def placed_def live_ids_def by blast

definition prompt_event :: event where
  "prompt_event = event_pending Prompt (u ''session/a'') 5 (u ''p'') Interrupt (u ''asks'')"

definition job_event :: event where
  "job_event = event_pending (BgDone (u ''1'')) (u ''bg/1'') 4 (u ''q'') Batched (u ''done'')"

definition example_inbox :: inbox where
  "example_inbox = inbox_close 9 (inbox_accept prompt_event 8 (inbox_accept job_event 7 (inbox_new default_config)))"

lemma example_inbox_reachable: "inbox_reachable default_config example_inbox"
proof -
  have "in_live (inbox_accept prompt_event 8 (inbox_accept job_event 7 (inbox_new default_config))) = None"
    by (simp add: inbox_accept_def inbox_new_def)
  then show ?thesis
    unfolding example_inbox_def
    by (intro inbox_reachable.step [OF _ inbox_step.close] inbox_reachable.step [OF _ inbox_step.accept]
        inbox_reachable.start)
qed

text \<open>
  A task that fails takes its batch with it: the window outlives it, and the events of the batch that
  nobody acknowledged are neither in the window nor in any batch to come.
\<close>

theorem failed_task_loses_its_batch:
  "inbox_step example_inbox (inbox_abandon example_inbox) \<and> in_lost (inbox_abandon example_inbox) = [2, 1] \<and>
   in_live (inbox_abandon example_inbox) = None \<and> window_is_empty (in_window (inbox_abandon example_inbox))"
proof (intro conjI inbox_step.abandon)
  show "in_lost (inbox_abandon example_inbox) = [2, 1]" by code_simp
  show "in_live (inbox_abandon example_inbox) = None" by code_simp
  show "window_is_empty (in_window (inbox_abandon example_inbox))" by code_simp
qed

theorem every_event_is_somewhere_witness:
  "mset (map ev_id (wi_events (in_window example_inbox)) @ entry_ids (wi_rolled_in (in_window example_inbox)) @
      (case in_live example_inbox of None \<Rightarrow> [] | Some b \<Rightarrow> entry_ids (ba_entries b)) @
      in_settled example_inbox @ in_dropped example_inbox @ in_withdrawn example_inbox @
      in_lost example_inbox) =
    mset [1 ..< wi_next_id (in_window example_inbox)]"
  by (rule every_event_is_somewhere [OF example_inbox_reachable])

text \<open>
  C30. Order survives a storm: the batched events are delivered for the first time in the order they were
  accepted in, however many windows they spill through, and what the window still holds comes after all
  that was delivered.
\<close>

theorem first_deliveries_are_in_order:
  assumes "inbox_reachable config ib"
  shows "sorted_wrt (<) (in_fresh ib @
    map ev_id (filter (\<lambda>e. ev_priority e = Batched) (wi_events (in_window ib))))"
  using inbox_ok_reachable [OF assms] unfolding inbox_ok_def batched_ids_def by blast

theorem first_deliveries_are_in_order_witness:
  "sorted_wrt (<) (in_fresh example_inbox @
    map ev_id (filter (\<lambda>e. ev_priority e = Batched) (wi_events (in_window example_inbox))))"
  by (rule first_deliveries_are_in_order [OF example_inbox_reachable])

text \<open>
  The bounds of a batch: apart from the interrupts delivered for the first time it never holds more than
  the cap, what was rolled into the window is at most half of it, and nothing is older than the age at
  which it is dropped.
\<close>

theorem batches_are_bounded:
  assumes "inbox_reachable config ib"
  shows "length (wi_rolled_in (in_window ib)) \<le> wc_cap config div 2 \<and>
    (\<forall>(e, age)\<in>set (wi_rolled_in (in_window ib)). age < wc_drop_age config) \<and>
    (\<forall>b. in_live ib = Some b \<longrightarrow>
       length (filter (\<lambda>(e, age). \<not> (age = 0 \<and> ev_priority e = Interrupt)) (ba_entries b)) \<le> wc_cap config \<and>
       (\<forall>(e, age)\<in>set (ba_entries b). age = 0 \<or> age < wc_drop_age config))"
  using inbox_ok_reachable [OF assms]
  by (auto simp: inbox_ok_def window_ok_def batch_ok_def capped_def)

theorem batches_are_bounded_witness:
  "length (wi_rolled_in (in_window example_inbox)) \<le> 100"
  using batches_are_bounded [OF example_inbox_reachable] by (simp add: default_config_def)

text \<open>
  C32. A backlog starves nothing: along any run of arrivals, closings, rolls, acknowledgements and failing
  tasks, an interrupt the window holds has been handed to the model by the next closing that yields a
  batch, and a batched event by the first such closing after as many as its place in the window asks
  for - each makes room for at least the half of the cap that rolled events never take. The one other
  way out of the window is to be withdrawn for a report of the same source.
\<close>

theorem backlog_starves_nothing:
  assumes "inbox_reachable config ib" and "e \<in> set (wi_events (in_window ib))"
    and "inbox_path ib closings ib'"
    and "ev_priority e = Interrupt \<and> 0 < closings \<or>
         ahead (ev_id e) ib < closings * (wc_cap config - wc_cap config div 2)"
  shows "was_delivered (ev_id e) ib' \<or> ev_id e \<in> set (in_withdrawn ib')"
proof -
  have ok: "inbox_ok config ib" by (rule inbox_ok_reachable [OF assms(1)])
  have "1 \<le> ev_id e"
    using placed_range [OF ok] assms(2) by (fastforce simp: placed_def)
  then show ?thesis
    using path_waits [OF assms(3) ok assms(2)] assms(4) out_of_window_delivered [of config ib' "ev_id e"]
    by auto
qed

theorem backlog_starves_nothing_witness:
  "was_delivered 1 example_inbox \<or> 1 \<in> set (in_withdrawn example_inbox)"
proof -
  let ?ib = "inbox_accept prompt_event 8 (inbox_accept job_event 7 (inbox_new default_config))"
  have reach: "inbox_reachable default_config ?ib"
    by (intro inbox_reachable.step [OF _ inbox_step.accept] inbox_reachable.start)
  have live: "in_live ?ib = None" by (simp add: inbox_accept_def inbox_new_def)
  have "in_live example_inbox \<noteq> None" by code_simp
  then have "inbox_path ?ib (Suc 0) example_inbox"
    using live unfolding example_inbox_def
    by (intro path_batch [OF path_start inbox_step.close]) (simp_all add: delivers_def)
  moreover have "job_event\<lparr>ev_id := 1\<rparr> \<in> set (wi_events (in_window ?ib))" by code_simp
  moreover have "ahead 1 ?ib < Suc 0 * (wc_cap default_config - wc_cap default_config div 2)" by code_simp
  ultimately show ?thesis
    using backlog_starves_nothing [OF reach, of "job_event\<lparr>ev_id := 1\<rparr>"] by simp
qed

text \<open>
  What the window holds at once: no two events of one key, and no quiet worker beside a report of the
  same worker, whichever of the two came first.
\<close>

theorem window_holds_no_duplicate:
  assumes "inbox_reachable config ib"
  shows "distinct (map dedup_key (wi_events (in_window ib))) \<and>
    (\<forall>r\<in>set (wi_events (in_window ib)). \<forall>q\<in>set (wi_events (in_window ib)).
       is_report r \<and> is_quiet q \<longrightarrow> ev_source r \<noteq> ev_source q)"
  using inbox_ok_reachable [OF assms] by (auto simp: inbox_ok_def window_ok_def)

theorem window_holds_no_duplicate_witness:
  "distinct (map dedup_key (wi_events (in_window example_inbox)))"
  using window_holds_no_duplicate [OF example_inbox_reachable] by simp

lemma rolled_events_wait_their_deadline:
  assumes ok: "window_ok config w" and full: "\<not> window_is_empty w" and None: "wi_first_at w = None"
    and Nil: "lo_events first = []" and budget: "\<forall>l\<in>set (first # looks). \<not> lo_over_budget l"
    and late: "lo_now first + wc_deadline_ms config \<le> lo_now (last (first # looks))"
  shows "\<exists>b w'. next_batch (first # looks) w = (Some (Some b), w')"
proof (cases "fst (close_if_due (lo_now first) w)")
  case (Some b)
  then show ?thesis using Nil by (cases "close_if_due (lo_now first) w") simp
next
  case waiting: None
  let ?w1 = "snd (close_if_due (lo_now first) w)"
  have config: "wi_config w = config" using ok by (simp add: window_ok_def)
  have rolled: "wi_rolled_in w \<noteq> []"
    using full ok None by (auto simp: window_ok_def window_is_empty_def)
  then have w1: "?w1 = arm (lo_now first) w"
    using waiting None by (cases rule: close_if_due_cases [of "lo_now first" w]) simp_all
  have full1: "\<not> window_is_empty ?w1"
    using rolled by (simp add: w1 window_is_empty_def)
  have step: "next_batch (first # looks) w = next_batch looks ?w1"
    using waiting full1 Nil budget by (cases "close_if_due (lo_now first) w") simp
  have "looks \<noteq> []"
  proof
    assume "looks = []"
    then have "wc_deadline_ms config \<le> 0" using late by simp
    then have "fst (close_if_due (lo_now first) (arm (lo_now first) w)) \<noteq> None"
      using close_due [of "arm (lo_now first) w" "lo_now first" "lo_now first + wc_deadline_ms config"] config
      by simp
    moreover have "close_if_due (lo_now first) (arm (lo_now first) w) = close_if_due (lo_now first) w"
      using None rolled by (simp add: close_if_due_def)
    ultimately show False using waiting by simp
  qed
  then show ?thesis
    using next_batch_due [of ?w1 "lo_now first" "lo_now first + wc_deadline_ms config" looks] late budget full1 step
    by (simp add: w1 config)
qed

text \<open>
  C31. A turn gets its events: a window that holds anything, of its own or rolled in, is answered with a batch
  by the first look at or after its deadline, which counts from its first event, or from the first look
  when all it holds was rolled in; unless the budget of the wait runs out before.
\<close>

theorem turn_gets_its_events:
  assumes "inbox_reachable config ib" and "\<not> window_is_empty (in_window ib)"
    and "\<forall>l\<in>set (first # looks). \<not> lo_over_budget l"
    and "t = (case wi_first_at (in_window ib) of
           Some t \<Rightarrow> t
         | None \<Rightarrow> (case lo_events first of [] \<Rightarrow> lo_now first | (e, accepted_at) # _ \<Rightarrow> accepted_at))"
    and "t + wc_deadline_ms config \<le> lo_now (last (first # looks))"
  shows "\<exists>b w'. next_batch (first # looks) (in_window ib) = (Some (Some b), w')"
proof -
  let ?w = "in_window ib"
  have ok: "window_ok config ?w"
    using inbox_ok_reachable [OF assms(1)] by (simp add: inbox_ok_def)
  then have config: "wi_config ?w = config" by (simp add: window_ok_def)
  show ?thesis
  proof (cases "wi_first_at ?w")
    case (Some t0)
    then show ?thesis
      using next_batch_due [of ?w t0 "t0 + wc_deadline_ms config" "first # looks"] ok assms
      by (simp add: window_ok_def)
  next
    case None
    show ?thesis
    proof (cases "lo_events first")
      case (Cons x es)
      let ?w1 = "snd (window_accept (fst x) (snd x) ?w)" and ?first = "first\<lparr>lo_events := es\<rparr>"
      have "wi_first_at ?w1 = Some t" "wi_deadline ?w1 = Some (t + wc_deadline_ms config)"
        using None Cons config assms(4) by (simp_all add: case_prod_beta)
      moreover have "next_batch (first # looks) ?w = next_batch (?first # looks) ?w1"
        by (simp add: Cons split: prod.split option.split)
      moreover have "lo_now (last (?first # looks)) = lo_now (last (first # looks))"
        by (cases looks) simp_all
      ultimately show ?thesis
        using next_batch_due [of ?w1 t "t + wc_deadline_ms config" "?first # looks"] assms(3,5)
          accept_nonempty [OF assms(2)] by simp
    next
      case Nil
      then show ?thesis
        using rolled_events_wait_their_deadline [OF ok assms(2) None] assms(3-5) None by simp
    qed
  qed
qed

theorem turn_gets_its_events_witness:
  "\<exists>b w'. next_batch [\<lparr>lo_events = [], lo_now = 1000, lo_over_budget = False\<rparr>,
      \<lparr>lo_events = [], lo_now = 2100, lo_over_budget = False\<rparr>]
      (in_window (inbox_accept job_event 7 (inbox_new default_config))) = (Some (Some b), w')"
proof (rule turn_gets_its_events [where t = 7])
  show "inbox_reachable default_config (inbox_accept job_event 7 (inbox_new default_config))"
    by (intro inbox_reachable.step [OF _ inbox_step.accept] inbox_reachable.start)
  show "\<not> window_is_empty (in_window (inbox_accept job_event 7 (inbox_new default_config)))"
    by (simp add: inbox_accept_def inbox_new_def window_new_def window_accept_def keep_event_def Let_def
        arm_def record_arrival_def job_event_def event_pending_def is_quiet_def is_report_def window_is_empty_def)
qed (simp_all add: inbox_accept_def inbox_new_def window_new_def default_config_def)

text \<open>
  Two events can share a key and be taken for one: the parts of a key are joined by a bar that the parts
  may hold themselves, so a hook named \<open>a|b\<close> on the call \<open>c\<close> is dropped as a duplicate of the hook \<open>a\<close>
  on the call \<open>b|c\<close>.
\<close>

theorem keys_can_collide:
  "dedup_key (event_pending_hook (u ''a|b'') (u ''worker/w'') 1 [] Batched [] (u ''c'')) =
     dedup_key (event_pending_hook (u ''a'') (u ''worker/w'') 1 [] Batched [] (u ''b|c''))"
  by (simp add: dedup_key_def event_pending_hook_def event_pending_def)

end
