(* ===== verification/Calendar.thy ===== *)
theory Calendar
  imports Stamps
begin

text \<open>
  The date an instant prints as is the date of the calendar: the closed form of \<open>civil_from_days\<close>
  against the Gregorian calendar as it is defined, month by month and year by year.
\<close>

section \<open>The calendar\<close>

text \<open>
  The proleptic Gregorian calendar as it is defined: the days of each month, and what day follows a day.
\<close>

definition leap_year :: "int \<Rightarrow> bool" where
  "leap_year y \<longleftrightarrow> y mod 4 = 0 \<and> (y mod 100 \<noteq> 0 \<or> y mod 400 = 0)"

definition month_days :: "int \<Rightarrow> int \<Rightarrow> int" where
  "month_days y m = (if m = 2 then (if leap_year y then 29 else 28)
     else if m = 4 \<or> m = 6 \<or> m = 9 \<or> m = 11 then 30 else 31)"

definition valid_date :: "int \<times> int \<times> int \<Rightarrow> bool" where
  "valid_date date = (case date of (y, m, d) \<Rightarrow> 1 \<le> m \<and> m \<le> 12 \<and> 1 \<le> d \<and> d \<le> month_days y m)"

definition next_day :: "int \<times> int \<times> int \<Rightarrow> int \<times> int \<times> int" where
  "next_day date = (case date of (y, m, d) \<Rightarrow>
     if d < month_days y m then (y, m, d + 1)
     else if m < 12 then (y, m + 1, 1) else (y + 1, 1, 1))"

section \<open>Years\<close>

text \<open>The days before the year k of a cycle of 400 that begins in March, and the closed form for k.\<close>

definition before_year :: "int \<Rightarrow> int" where
  "before_year k = 365 * k + k div 4 - k div 100 + k div 400"

definition year_of :: "int \<Rightarrow> int" where
  "year_of doe = (doe - doe div 1460 + doe div 36524 - doe div 146096) div 365"

lemma year_of_mono:
  assumes "0 \<le> a" and "a \<le> b" and "b < 146097"
  shows "year_of a \<le> year_of b"
proof -
  have step: "year_of x \<le> year_of (x + 1)" if "0 \<le> x" "x + 1 < 146097" for x
  proof -
    have less: "(x + 1) div 1460 \<le> x div 1460 + 1" and mono: "x div 36524 \<le> (x + 1) div 36524"
      by (simp_all add: zdiv_mono1)
    have last: "(x + 1) div 146096 \<le> x div 146096 + (if x + 1 = 146096 then 1 else 0)"
      using that by auto
    have century: "x + 1 = 146096 \<longrightarrow> (x + 1) div 1460 = x div 1460" by auto
    have "x - x div 1460 + x div 36524 - x div 146096 \<le>
        (x + 1) - (x + 1) div 1460 + (x + 1) div 36524 - (x + 1) div 146096"
      using less mono last century by (cases "x + 1 = 146096") simp_all
    then show ?thesis unfolding year_of_def by (rule zdiv_mono1) simp
  qed
  have "year_of a \<le> year_of (a + int n)" if "a + int n < 146097" for n
    using that
  proof (induction n)
    case (Suc n)
    then show ?case using step [of "a + int n"] assms(1) by (simp add: algebra_simps)
  qed simp
  from this [of "nat (b - a)"] show ?thesis using assms by simp
qed

lemma year_boundaries:
  "list_all (\<lambda>k. k \<le> year_of (before_year k)) [0..399]"
  "list_all (\<lambda>k. year_of (before_year k - 1) \<le> k - 1) [1..400]"
  "list_all (\<lambda>k. 0 \<le> before_year k \<and> before_year k \<le> 146097) [0..400]"
  by code_simp+

lemma year_of_bounds:
  assumes "0 \<le> doe" and "doe < 146097"
  shows "0 \<le> year_of doe" and "year_of doe \<le> 399"
    and "before_year (year_of doe) \<le> doe" and "doe < before_year (year_of doe + 1)"
proof -
  have year0: "year_of 0 = 0" by (simp add: year_of_def)
  have year1: "year_of 146096 = 399" by (simp add: year_of_def)
  show lo: "0 \<le> year_of doe" using year_of_mono [of 0 doe] assms year0 by simp
  show hi: "year_of doe \<le> 399" using year_of_mono [of doe 146096] assms year1 by simp
  have at_start: "k \<le> year_of (before_year k)" if "0 \<le> k" "k < 400" for k
    using year_boundaries(1) that by (simp add: list_all_iff)
  have at_end: "year_of (before_year k - 1) \<le> k - 1" if "1 \<le> k" "k < 401" for k
    using year_boundaries(2) that by (simp add: list_all_iff)
  have range: "0 \<le> before_year k" "before_year k \<le> 146097" if "0 \<le> k" "k < 401" for k
    using year_boundaries(3) that by (simp_all add: list_all_iff)
  have first: "before_year 0 = 0" and last: "before_year 400 = 146097"
    by (simp_all add: before_year_def)
  show "before_year (year_of doe) \<le> doe"
  proof (rule ccontr)
    assume "\<not> before_year (year_of doe) \<le> doe"
    then have less: "doe < before_year (year_of doe)" by simp
    then have "1 \<le> year_of doe" using lo assms first by (cases "year_of doe = 0") simp_all
    then show False
      using year_of_mono [of doe "before_year (year_of doe) - 1"] at_end [of "year_of doe"]
        range(2) [of "year_of doe"] assms(1) less hi by simp
  qed
  show "doe < before_year (year_of doe + 1)"
  proof (rule ccontr)
    assume "\<not> doe < before_year (year_of doe + 1)"
    then have le: "before_year (year_of doe + 1) \<le> doe" by simp
    then have "year_of doe < 399" using hi assms last by (cases "year_of doe = 399") simp_all
    then show False
      using year_of_mono [of "before_year (year_of doe + 1)" doe] at_start [of "year_of doe + 1"]
        range(1) [of "year_of doe + 1"] le lo assms(2) by simp
  qed
qed

text \<open>The days of a year that begins in March, and the day and month they are.\<close>

definition month_of :: "int \<Rightarrow> int" where
  "month_of doy = (let mp = (5 * doy + 2) div 153 in if mp < 10 then mp + 3 else mp - 9)"

definition day_of :: "int \<Rightarrow> int" where
  "day_of doy = doy - (153 * ((5 * doy + 2) div 153) + 2) div 5 + 1"

lemma months:
  "list_all (\<lambda>doy. 1 \<le> month_of doy \<and> month_of doy \<le> 12 \<and> 1 \<le> day_of doy \<and>
     day_of doy \<le> (if month_of doy = 2 then 29 else month_days 1 (month_of doy)) \<and>
     (month_of doy = 2 \<and> day_of doy = 29 \<longleftrightarrow> doy = 365) \<and>
     (month_of doy \<le> 2 \<longleftrightarrow> 306 \<le> doy)) [0..365]"
  by code_simp

lemma next_months:
  "list_all (\<lambda>doy. if day_of doy < month_days 1 (month_of doy)
       then month_of (doy + 1) = month_of doy \<and> day_of (doy + 1) = day_of doy + 1
       else day_of (doy + 1) = 1 \<and>
         month_of (doy + 1) = (if month_of doy < 12 then month_of doy + 1 else 1)) [0..363]"
  "list_all (\<lambda>doy. \<not> (month_of doy = 2 \<and> 28 \<le> day_of doy)) [0..363]"
  by code_simp+

lemma civil_split:
  assumes "doe = (days + 719468) mod 146097" and "k = year_of doe" and "doy = doe - before_year k"
  shows "civil_from_days days =
     ((if month_of doy \<le> 2 then k + (days + 719468) div 146097 * 400 + 1
       else k + (days + 719468) div 146097 * 400), month_of doy, day_of doy)"
proof -
  have doe: "days + 719468 - (days + 719468) div 146097 * 146097 = doe"
    by (simp add: assms(1) minus_div_mult_eq_mod)
  have "0 \<le> k" "k \<le> 399"
    using year_of_bounds [of doe] assms(1,2) by simp_all
  then have "before_year k = 365 * k + k div 4 - k div 100"
    by (simp add: before_year_def)
  then have doy: "doe - (365 * k + k div 4 - k div 100) = doy"
    by (simp add: assms(3))
  show ?thesis
    unfolding civil_from_days_def month_of_def day_of_def Let_def doe
      assms(2) [unfolded year_of_def, symmetric] doy by (rule refl)
qed

lemma div_succ:
  fixes n k :: int
  assumes "0 < n"
  shows "(k + 1) div n = k div n + (if (k + 1) mod n = 0 then 1 else 0)"
proof -
  have k: "k = n * (k div n) + k mod n" and r: "0 \<le> k mod n" "k mod n < n"
    using assms by simp_all
  show ?thesis
  proof (cases "k mod n = n - 1")
    case True
    then have "k + 1 = n * (k div n) + n" using k by linarith
    then have "k + 1 = n * (k div n + 1)" by (simp add: distrib_left)
    then show ?thesis using assms by simp
  next
    case False
    have "(k + 1) div n = k div n"
      by (rule int_div_pos_eq [of _ _ _ "k mod n + 1"]) (use k r False in auto)
    moreover have "(k + 1) mod n = k mod n + 1"
      by (rule int_mod_pos_eq [of _ _ "k div n"]) (use k r False in auto)
    ultimately show ?thesis using r by simp
  qed
qed

lemma year_length:
  fixes k q4 q100 q400 r4 r100 r400 :: int
  assumes "r4 = q4 + (if P4 then 1 else 0)" and "r100 = q100 + (if P100 then 1 else 0)"
    and "r400 = q400 + (if P400 then 1 else 0)" and "P400 \<longrightarrow> P100" and "P100 \<longrightarrow> P4"
  shows "365 * (k + 1) + r4 - r100 + r400 =
    365 * k + q4 - q100 + q400 + 365 + (if P4 \<and> (\<not> P100 \<or> P400) then 1 else 0)"
  using assms by (cases P4; cases P100; cases P400) simp_all

lemma before_year_step:
  "before_year (k + 1) = before_year k + 365 + (if leap_year (k + 1) then 1 else 0)"
proof -
  have "(k + 1) mod 400 = 0 \<longrightarrow> (k + 1) mod 100 = 0" "(k + 1) mod 100 = 0 \<longrightarrow> (k + 1) mod 4 = 0"
    by (auto simp: mod_0_imp_dvd dvd_imp_mod_0 intro: dvd_trans [of 100 400] dvd_trans [of 4 100]
        dest!: mod_0_imp_dvd)
  then show ?thesis
    unfolding before_year_def leap_year_def
    by (intro year_length div_succ) simp_all
qed

lemma day_of_year:
  assumes "0 \<le> days" and "days < 146097"
  defines "k \<equiv> year_of days"
  shows "0 \<le> days - before_year k" and "days - before_year k \<le> 365"
    and "days - before_year k = 365 \<longrightarrow> leap_year (k + 1)"
proof -
  note bounds = year_of_bounds [OF assms(1,2), folded k_def]
  show "0 \<le> days - before_year k" using bounds by simp
  note length = before_year_step [of k]
  show "days - before_year k \<le> 365" using bounds length by (cases "leap_year (k + 1)") simp_all
  show "days - before_year k = 365 \<longrightarrow> leap_year (k + 1)" using bounds length by (cases "leap_year (k + 1)") simp_all
qed

lemma year_of_unique:
  assumes "0 \<le> k" and "k < 400" and "before_year k \<le> doe" and "doe < before_year (k + 1)"
  shows "year_of doe = k"
proof (rule antisym)
  have range: "0 \<le> before_year k" "before_year (k + 1) \<le> 146097"
    using year_boundaries(3) assms(1,2) by (simp_all add: list_all_iff)
  have ge: "k \<le> year_of (before_year k)"
    using year_boundaries(1) assms(1,2) by (simp add: list_all_iff)
  have "\<forall>k\<in>{1..400}. year_of (before_year k - 1) \<le> k - 1"
    using year_boundaries(2) by (simp add: list_all_iff)
  from bspec [OF this, of "k + 1"] have le: "year_of (before_year (k + 1) - 1) \<le> k"
    using assms(1,2) by simp
  show "year_of doe \<le> k"
    using year_of_mono [of doe "before_year (k + 1) - 1"] range assms(3,4) le by simp
  show "k \<le> year_of doe"
    using year_of_mono [of "before_year k" doe] range assms(3,4) ge by simp
qed

lemma leap_year_cycle: "leap_year (y + e * 400) = leap_year y"
proof -
  have "(y + e * 400) mod 4 = y mod 4" "(y + e * 400) mod 100 = y mod 100" "(y + e * 400) mod 400 = y mod 400"
    using mod_mult_self1 [of y "e * 100" 4] mod_mult_self1 [of y "e * 4" 100] by (simp_all add: algebra_simps)
  then show ?thesis by (simp add: leap_year_def)
qed

text \<open>A day of the year that begins in March, as a date of the calendar.\<close>

definition march_date :: "int \<Rightarrow> int \<Rightarrow> int \<times> int \<times> int" where
  "march_date y doy = ((if month_of doy \<le> 2 then y + 1 else y), month_of doy, day_of doy)"

lemma month_facts:
  assumes "0 \<le> doy" and "doy \<le> 365"
  shows "1 \<le> month_of doy" "month_of doy \<le> 12" "1 \<le> day_of doy"
    "day_of doy \<le> (if month_of doy = 2 then 29 else month_days 1 (month_of doy))"
    "month_of doy = 2 \<and> day_of doy = 29 \<longleftrightarrow> doy = 365" "month_of doy \<le> 2 \<longleftrightarrow> 306 \<le> doy"
  using months assms by (simp_all add: list_all_iff)

lemma month_days_year: "m \<noteq> 2 \<Longrightarrow> month_days y m = month_days 1 m"
  by (simp add: month_days_def)

lemma march_date_valid:
  assumes "0 \<le> doy" and "doy \<le> 365" and "doy = 365 \<longrightarrow> leap_year (y + 1)"
  shows "valid_date (march_date y doy)"
proof (cases "month_of doy = 2")
  case True
  then show ?thesis
    using month_facts [OF assms(1,2)] assms(3) by (auto simp: valid_date_def march_date_def month_days_def)
next
  case False
  then show ?thesis
    using month_facts [OF assms(1,2)] month_days_year [OF False, of y] month_days_year [OF False, of "y + 1"]
    by (simp add: valid_date_def march_date_def)
qed

lemma march_date_next:
  assumes "0 \<le> doy" and "doy \<le> 363"
  shows "march_date y (doy + 1) = next_day (march_date y doy)"
proof -
  have step: "if day_of doy < month_days 1 (month_of doy)
       then month_of (doy + 1) = month_of doy \<and> day_of (doy + 1) = day_of doy + 1
       else day_of (doy + 1) = 1 \<and>
         month_of (doy + 1) = (if month_of doy < 12 then month_of doy + 1 else 1)"
    using next_months(1) assms by (simp add: list_all_iff)
  have later: "month_of (doy + 1) \<le> 2 \<longleftrightarrow> 306 \<le> doy + 1" "month_of doy \<le> 2 \<longleftrightarrow> 306 \<le> doy"
    using month_facts(6) [of doy] month_facts(6) [of "doy + 1"] assms by simp_all
  have "\<not> (month_of doy = 2 \<and> 28 \<le> day_of doy)"
    using next_months(2) assms by (simp add: list_all_iff)
  then have long: "day_of doy < month_days y' (month_of doy) \<longleftrightarrow> day_of doy < month_days 1 (month_of doy)" for y'
    using month_days_year [of "month_of doy" y'] by (cases "month_of doy = 2") (simp_all add: month_days_def)
  have december: "month_of doy = 12 \<and> \<not> day_of doy < month_days 1 (month_of doy) \<longleftrightarrow> doy = 305"
  proof
    assume "doy = 305" then show "month_of doy = 12 \<and> \<not> day_of doy < month_days 1 (month_of doy)"
      by (simp add: month_of_def day_of_def month_days_def)
  next
    assume dec: "month_of doy = 12 \<and> \<not> day_of doy < month_days 1 (month_of doy)"
    then have a: "month_of doy = 12" and b: "\<not> day_of doy < month_days 1 12" by auto
    then have "month_of (doy + 1) = 1" using step by simp
    then show "doy = 305" using later dec by simp
  qed
  show ?thesis
  proof (cases "doy = 305")
    case True
    then show ?thesis
      by (simp add: march_date_def next_day_def month_of_def day_of_def month_days_def)
  next
    case False
    then have same: "month_of (doy + 1) \<le> 2 \<longleftrightarrow> month_of doy \<le> 2" using later by auto
    show ?thesis
    proof (cases "day_of doy < month_days 1 (month_of doy)")
      case True
      then show ?thesis using step same by (simp add: march_date_def next_day_def long [of y] long [of "y + 1"])
    next
      case full: False
      then have "month_of doy < 12" using december False month_facts(2) [of doy] assms by auto
      then show ?thesis using step same full by (simp add: march_date_def next_day_def long [of y] long [of "y + 1"])
    qed
  qed
qed

lemma march_year_end:
  assumes "doy = (if leap_year (y + 1) then 365 else 364)"
  shows "next_day (march_date y doy) = (y + 1, 3, 1)"
  using assms by (auto simp: march_date_def next_day_def month_of_def day_of_def month_days_def)

lemma march_leap_day: "leap_year (y + 1) \<Longrightarrow> march_date y 365 = next_day (march_date y 364)"
  by (simp add: march_date_def next_day_def month_of_def day_of_def month_days_def)

lemma civil_march:
  assumes "0 \<le> k" and "k < 400" and "0 \<le> doy" and "before_year k + doy < before_year (k + 1)"
    and "days + 719468 = e * 146097 + before_year k + doy"
  shows "civil_from_days days = march_date (k + e * 400) doy"
proof -
  have "before_year k + doy = (days + 719468) mod 146097 \<and> e = (days + 719468) div 146097"
  proof -
    have "0 \<le> before_year k" "before_year (k + 1) \<le> 146097"
      using year_boundaries(3) assms(1,2) by (simp_all add: list_all_iff)
    then have range: "0 \<le> before_year k + doy" "before_year k + doy < 146097"
      using assms(3,4) by simp_all
    have sum: "days + 719468 = 146097 * e + (before_year k + doy)" using assms(5) by simp
    show ?thesis
      using int_mod_pos_eq [OF sum range] int_div_pos_eq [OF sum range] by simp
  qed
  then show ?thesis
    using civil_split [of "before_year k + doy" days k doy] year_of_unique [of k "before_year k + doy"] assms
    by (simp add: march_date_def)
qed

lemma civil_parts:
  obtains k e doy where "0 \<le> k" and "k < 400" and "0 \<le> doy" and "doy \<le> 365"
    and "doy = 365 \<longrightarrow> leap_year (k + e * 400 + 1)" and "before_year k + doy < before_year (k + 1)"
    and "days + 719468 = e * 146097 + before_year k + doy"
proof -
  define doe where "doe = (days + 719468) mod 146097"
  have range: "0 \<le> doe" "doe < 146097" by (simp_all add: doe_def)
  have "days + 719468 = (days + 719468) div 146097 * 146097 + doe"
    by (simp add: doe_def)
  moreover have "leap_year (year_of doe + (days + 719468) div 146097 * 400 + 1) = leap_year (year_of doe + 1)"
    using leap_year_cycle [of "year_of doe + 1" "(days + 719468) div 146097"] by (simp add: ac_simps)
  ultimately show ?thesis
    using that [of "year_of doe" "doe - before_year (year_of doe)" "(days + 719468) div 146097"]
      year_of_bounds [OF range] day_of_year [OF range] by simp
qed


section \<open>Properties\<close>

lemma march_year_follows:
  assumes k: "0 \<le> k" "k < 400" and doy: "0 \<le> doy" "doy \<le> 365"
    and inside: "before_year k + doy < before_year (k + 1)"
    and days: "days + 719468 = e * 146097 + before_year k + doy"
  shows "civil_from_days (days + 1) = next_day (march_date (k + e * 400) doy)"
proof (cases "before_year k + (doy + 1) < before_year (k + 1)")
  case True
  have "civil_from_days (days + 1) = march_date (k + e * 400) (doy + 1)"
    by (rule civil_march [OF k _ True]) (use doy days in simp_all)
  moreover have "doy = 364 \<longrightarrow> leap_year (k + e * 400 + 1)" "doy \<le> 364"
    using True before_year_step [of k] leap_year_cycle [of "k + 1" e]
    by (auto simp: ac_simps split: if_splits)
  ultimately show ?thesis
    using march_date_next [of doy] march_leap_day [of "k + e * 400"] doy by (cases "doy = 364") simp_all
next
  case False
  then have last: "before_year k + doy + 1 = before_year (k + 1)" using inside by simp
  then have "doy = (if leap_year (k + e * 400 + 1) then 365 else 364)"
    using before_year_step [of k] leap_year_cycle [of "k + 1" e] by (auto simp: ac_simps split: if_splits)
  then have "next_day (march_date (k + e * 400) doy) = (k + e * 400 + 1, 3, 1)"
    by (rule march_year_end)
  moreover have "civil_from_days (days + 1) = (k + e * 400 + 1, 3, 1)"
  proof (cases "k = 399")
    case True
    then have "before_year 0 = 0" "before_year (k + 1) = 146097" by (simp_all add: before_year_def)
    then have "civil_from_days (days + 1) = march_date (0 + (e + 1) * 400) 0"
      by (intro civil_march) (use days last True in \<open>simp_all add: before_year_def\<close>)
    then show ?thesis using True by (simp add: march_date_def month_of_def day_of_def)
  next
    case other: False
    then have "civil_from_days (days + 1) = march_date (k + 1 + e * 400) 0"
      by (intro civil_march) (use days last k before_year_step [of "k + 1"] in simp_all)
    then show ?thesis by (simp add: march_date_def month_of_def day_of_def)
  qed
  ultimately show ?thesis by simp
qed

text \<open>
  C33. The closed form is the calendar: day 0 is the first of January 1970, every day is a date there is, and
  the day after it is the next date.
\<close>

theorem civil_is_the_calendar:
  "civil_from_days 0 = (1970, 1, 1) \<and> valid_date (civil_from_days days) \<and>
   civil_from_days (days + 1) = next_day (civil_from_days days)"
proof -
  obtain k e doy where k: "0 \<le> k" "k < 400" and doy: "0 \<le> doy" "doy \<le> 365"
    and leap: "doy = 365 \<longrightarrow> leap_year (k + e * 400 + 1)"
    and inside: "before_year k + doy < before_year (k + 1)"
    and days: "days + 719468 = e * 146097 + before_year k + doy"
    by (rule civil_parts)
  have now: "civil_from_days days = march_date (k + e * 400) doy"
    by (rule civil_march [OF k doy(1) inside days])
  note follows = march_year_follows [OF k doy inside days]
  have "civil_from_days 0 = (1970, 1, 1)"
    by code_simp
  then show ?thesis
    using now follows march_date_valid [OF doy leap] by simp
qed

end
