(* ===== verification/Sse.thy ===== *)
theory Sse
  imports Utf8
begin

text \<open>
  Server-sent events, \<open>crates/inference-gateway/src/gateway/translate/stream.rs\<close>: framing one event and
  reading events off a byte stream. The reader is the bytes still to come and whether the stream ends
  in an I/O error; reading a line is \<open>read_until\<close> on a limited reader.
\<close>

section \<open>Lossy decoding\<close>

text \<open>
  \<open>String::from_utf8_lossy\<close>: every maximal part of an ill-formed sequence becomes one U+FFFD. How many
  bytes the part at the front has:
\<close>

definition second_fits :: "nat \<Rightarrow> nat \<Rightarrow> bool" where
  "second_fits b b1 \<longleftrightarrow>
     (if b = 224 then 160 \<le> b1 \<and> b1 < 192
      else if b = 237 then 128 \<le> b1 \<and> b1 < 160
      else if b = 240 then 144 \<le> b1 \<and> b1 < 192
      else if b = 244 then 128 \<le> b1 \<and> b1 < 144
      else continuation b1)"

definition bad_length :: "bytes \<Rightarrow> nat" where
  "bad_length bs =
     (case bs of
        b # b1 # r \<Rightarrow>
          if 224 \<le> b \<and> b \<le> 244 \<and> second_fits b b1
          then (if 240 \<le> b then (case r of b2 # _ \<Rightarrow> if continuation b2 then 3 else 2 | [] \<Rightarrow> 2) else 2)
          else 1
      | _ \<Rightarrow> 1)"

function lossy :: "bytes \<Rightarrow> rstr" where
  "lossy bs =
     (if bs = [] then []
      else (case decode_char bs of
              Some (c, r) \<Rightarrow> c # lossy r
            | None \<Rightarrow> 65533 # lossy (drop (bad_length bs) bs)))"
  by pat_completeness auto
termination
  by (relation "measure length")
    (auto dest: decode_char_shorter simp: bad_length_def split: list.split)

declare lossy.simps [simp del]

section \<open>Framing\<close>

definition MAX_EVENT_BYTES :: nat where "MAX_EVENT_BYTES = 1048576"

record sse_event =
  se_event :: "rstr option"
  se_data :: rstr

definition encode :: "rstr option \<Rightarrow> rstr \<Rightarrow> bytes" where
  "encode event data =
     (case event of Some e \<Rightarrow> u ''event: '' @ utf8_encode e @ [10] | None \<Rightarrow> []) @
     u ''data: '' @ utf8_encode data @ [10, 10]"

section \<open>Reading\<close>

record sse_reader =
  rd_rest :: bytes
  rd_breaks :: bool

datatype sse_error = ReadFailed | EventTooLarge

text \<open>\<open>take(limit)\<close> and \<open>read_until\<close> the line feed: nothing is the end, and an error comes only
  when the stream breaks before the line or the limit does.\<close>

definition read_until :: "nat \<Rightarrow> bytes \<Rightarrow> bytes" where
  "read_until limit bs =
     (case position (\<lambda>b. b = 10) (take limit bs) of
        Some i \<Rightarrow> take (Suc i) bs
      | None \<Rightarrow> take limit bs)"

definition read_fails :: "nat \<Rightarrow> sse_reader \<Rightarrow> bool" where
  "read_fails limit r \<longleftrightarrow>
     rd_breaks r \<and> length (rd_rest r) < limit \<and> position (\<lambda>b. b = 10) (rd_rest r) = None"

lemma read_until_take: "\<exists>k. read_until limit bs = take k bs"
  unfolding read_until_def by (auto split: option.split)

lemma read_until_nonempty: "read_until limit bs \<noteq> [] \<Longrightarrow> 0 < length bs"
  using read_until_take [of limit bs] by (cases bs) auto

definition strip_end :: "nat \<Rightarrow> bytes \<Rightarrow> bytes" where
  "strip_end b line = (if line \<noteq> [] \<and> last line = b then butlast line else line)"

definition split_field :: "rstr \<Rightarrow> rstr \<times> rstr" where
  "split_field t =
     (case split_once (u '':'') t of
        Some (field, value) \<Rightarrow> (field, case strip_pre (u '' '') value of Some v \<Rightarrow> v | None \<Rightarrow> value)
      | None \<Rightarrow> (t, []))"

definition apply_field :: "rstr \<Rightarrow> rstr \<Rightarrow> rstr option \<times> rstr option \<Rightarrow> rstr option \<times> rstr option" where
  "apply_field field value pending =
     (case pending of (event, data) \<Rightarrow>
        if field = u ''data''
        then (event, Some (case data of Some d \<Rightarrow> d @ [10] @ value | None \<Rightarrow> value))
        else if field = u ''event'' then (Some value, data)
        else (event, data))"

function next_event_from ::
    "nat \<Rightarrow> rstr option \<times> rstr option \<Rightarrow> sse_reader \<Rightarrow> (sse_error + sse_event option) \<times> sse_reader" where
  "next_event_from held pending r =
     (if read_fails (MAX_EVENT_BYTES - held + 1) r then (Inl ReadFailed, r\<lparr>rd_rest := []\<rparr>)
      else
        (let line = read_until (MAX_EVENT_BYTES - held + 1) (rd_rest r);
             r' = r\<lparr>rd_rest := drop (length line) (rd_rest r)\<rparr>;
             held' = held + length line
         in if line = []
            then (Inr (map_option (\<lambda>data. \<lparr>se_event = fst pending, se_data = data\<rparr>) (snd pending)), r)
            else if held' > MAX_EVENT_BYTES then (Inl EventTooLarge, r')
            else
              (let line' = strip_end 13 (strip_end 10 line)
               in if line' = []
                  then (case snd pending of
                          Some data \<Rightarrow> (Inr (Some \<lparr>se_event = fst pending, se_data = data\<rparr>), r')
                        | None \<Rightarrow> next_event_from held' pending r')
                  else if hd line' = 58 then next_event_from held' pending r'
                  else (case split_field (lossy line') of
                          (field, value) \<Rightarrow> next_event_from held' (apply_field field value pending) r'))))"
  by pat_completeness auto
termination
  by (relation "measure (\<lambda>(held, pending, r). length (rd_rest r))")
    (auto intro: diff_less dest: read_until_nonempty)

declare next_event_from.simps [simp del]

definition next_event :: "sse_reader \<Rightarrow> (sse_error + sse_event option) \<times> sse_reader" where
  "next_event r = next_event_from 0 (None, None) r"

text \<open>Reading to the end of the stream.\<close>

lemma next_event_from_shorter:
  assumes "next_event_from held pending r = (Inr (Some e), r')"
  shows "length (rd_rest r') \<le> length (rd_rest r)"
    and "snd pending = None \<Longrightarrow> length (rd_rest r') < length (rd_rest r)"
proof -
  have "length (rd_rest r') < length (rd_rest r) \<or> snd pending \<noteq> None \<and> r' = r"
    using assms
  proof (induction held pending r arbitrary: r' rule: next_event_from.induct)
    case (1 held pending r)
    let ?line = "read_until (MAX_EVENT_BYTES - held + 1) (rd_rest r)"
    show ?case
    proof (cases "?line = []")
      case True
      then show ?thesis
        using "1.prems" by (auto simp: next_event_from.simps [of held pending r] split: if_splits)
    next
      case line: False
      have ok: "\<not> read_fails (MAX_EVENT_BYTES - held + 1) r" and small: "\<not> held + length ?line > MAX_EVENT_BYTES"
        using "1.prems" line by (auto simp: next_event_from.simps [of held pending r] Let_def split: if_splits)
      have less: "length (drop (length ?line) (rd_rest r)) < length (rd_rest r)"
        using read_until_nonempty [OF line] line by (simp add: diff_less)
      note IH = "1.IH" [OF ok refl refl refl line small refl]
      note unfold = next_event_from.simps [of held pending r]
      let ?text = "strip_end 13 (strip_end 10 ?line)"
      consider (finished) d where "?text = []" "snd pending = Some d" | (blank) "?text = []" "snd pending = None"
        | (comment) "?text \<noteq> []" "hd ?text = 58" | (field) "?text \<noteq> []" "hd ?text \<noteq> 58"
        by (cases "?text = []"; cases "snd pending"; cases "hd ?text = 58") auto
      then show ?thesis
      proof cases
        case finished
        then show ?thesis using "1.prems" ok line small less by (auto simp: unfold Let_def)
      next
        case blank
        then show ?thesis using IH(1) [OF blank, of r'] "1.prems" ok line small less by (auto simp: unfold Let_def)
      next
        case comment
        then show ?thesis using IH(2) [OF comment, of r'] "1.prems" ok line small less by (auto simp: unfold Let_def)
      next
        case field
        obtain name v where split: "split_field (lossy ?text) = (name, v)"
          by (cases "split_field (lossy ?text)")
        then show ?thesis
          using IH(3) [OF field split [symmetric], of r'] "1.prems" ok line small less field
          by (auto simp: unfold Let_def)
      qed
    qed
  qed
  then show "length (rd_rest r') \<le> length (rd_rest r)"
    and "snd pending = None \<Longrightarrow> length (rd_rest r') < length (rd_rest r)"
    by auto
qed

function read_events :: "sse_reader \<Rightarrow> (sse_error + sse_event list)" where
  "read_events r =
     (case next_event r of
        (Inl e, _) \<Rightarrow> Inl e
      | (Inr None, _) \<Rightarrow> Inr []
      | (Inr (Some e), r') \<Rightarrow> (case read_events r' of Inl x \<Rightarrow> Inl x | Inr es \<Rightarrow> Inr (e # es)))"
  by pat_completeness auto
termination
  by (relation "measure (\<lambda>r. length (rd_rest r))") (auto simp: next_event_def dest!: next_event_from_shorter(2) [OF sym])

declare read_events.simps [simp del]

section \<open>Lines\<close>

lemma lossy_decode: "utf8_decode bs = Some t \<Longrightarrow> lossy bs = t"
proof (induction bs arbitrary: t rule: utf8_decode.induct)
  case (1 bs)
  then show ?case
    by (subst lossy.simps) (auto simp: utf8_decode.simps [of bs] split: if_splits option.splits)
qed

lemma lossy_encode [simp]: "list_all scalar t \<Longrightarrow> lossy (utf8_encode t) = t"
  by (rule lossy_decode [OF utf8_decode_encode])

lemma length_lossy: "length (lossy bs) \<le> length bs"
proof (induction bs rule: lossy.induct)
  case (1 bs)
  show ?case
  proof (cases "bs = []")
    case False
    then have bad: "0 < bad_length bs" "length (drop (bad_length bs) bs) < length bs"
      by (auto simp: bad_length_def split: list.split)
    show ?thesis
    proof (cases "decode_char bs")
      case None
      then show ?thesis
        using 1(1) [OF False None] False bad by (cases "length bs") (simp_all add: lossy.simps [of bs])
    next
      case (Some x)
      obtain c r where x: "x = (c, r)" by (cases x)
      show ?thesis
        using 1(2) [OF False Some x [symmetric]] False Some x decode_char_shorter [of bs c r]
        by (simp add: lossy.simps [of bs])
    qed
  qed (simp add: lossy.simps)
qed

lemma ascii_of_encode: "b \<in> set (utf8_encode t) \<Longrightarrow> b < 128 \<Longrightarrow> b \<in> set t"
  by (induction t) (auto simp: encode_char_def split: if_splits)

lemma last_encode: "t \<noteq> [] \<Longrightarrow> last (utf8_encode t) < 128 \<Longrightarrow> last (utf8_encode t) = last t"
proof (induction t)
  case (Cons c t)
  have "t \<noteq> [] \<Longrightarrow> utf8_encode t \<noteq> []" by (cases t) simp_all
  then show ?case
    using Cons by (cases "t = []") (auto simp: encode_char_def last_append split: if_splits)
qed simp

lemma position_append_first: "\<forall>x\<in>set xs. \<not> P x \<Longrightarrow> P y \<Longrightarrow> position P (xs @ y # ys) = Some (length xs)"
  by (induction xs) simp_all

lemma read_line:
  assumes "10 \<notin> set l" and "length l < limit"
  shows "read_until limit (l @ 10 # rest) = l @ [10]"
proof -
  have "take limit (l @ 10 # rest) = l @ 10 # take (limit - Suc (length l)) rest"
    using assms(2) by (simp add: take_Cons' )
  then have "position (\<lambda>b. b = 10) (take limit (l @ 10 # rest)) = Some (length l)"
    using position_append_first [of l "\<lambda>b. b = 10" 10] assms(1) by auto
  then show ?thesis by (simp add: read_until_def)
qed

lemma line_read:
  assumes "10 \<notin> set l" and "held + length l + 1 \<le> MAX_EVENT_BYTES"
    and "rd_rest r = l @ 10 # rest"
  shows "next_event_from held pending r =
    (let line = strip_end 13 l; r' = r\<lparr>rd_rest := rest\<rparr>; held' = held + length l + 1
     in if line = []
        then (case snd pending of
                Some data \<Rightarrow> (Inr (Some \<lparr>se_event = fst pending, se_data = data\<rparr>), r')
              | None \<Rightarrow> next_event_from held' pending r')
        else if hd line = 58 then next_event_from held' pending r'
        else (case split_field (lossy line) of
                (field, value) \<Rightarrow> next_event_from held' (apply_field field value pending) r'))"
proof -
  have line: "read_until (Suc (MAX_EVENT_BYTES - held)) (l @ 10 # rest) = l @ [10]"
    by (rule read_line) (use assms(1,2) in auto)
  have "position (\<lambda>b. b = 10) (rd_rest r) \<noteq> None"
    unfolding assms(3) by simp
  then have ok: "\<not> read_fails (Suc (MAX_EVENT_BYTES - held)) r"
    by (simp add: read_fails_def del: position_None)
  have strip: "strip_end 10 (l @ [10]) = l" by (simp add: strip_end_def)
  show ?thesis
    using ok assms(2,3) by (subst next_event_from.simps) (simp add: line strip Let_def split: option.split)
qed

section \<open>Frames\<close>

text \<open>Text that can stand in a frame: no line feed, and no carriage return at its end.\<close>

definition frame_safe :: "rstr \<Rightarrow> bool" where
  "frame_safe t \<longleftrightarrow> list_all scalar t \<and> 10 \<notin> set t \<and> (t \<noteq> [] \<longrightarrow> last t \<noteq> 13)"

definition frame_bytes :: "rstr option \<Rightarrow> rstr \<Rightarrow> nat" where
  "frame_bytes event data = (case event of Some e \<Rightarrow> byte_len e + 8 | None \<Rightarrow> 0) + byte_len data + 8"

lemma encode_frame_safe:
  assumes "frame_safe t"
  shows "10 \<notin> set (utf8_encode t)" and "strip_end 13 (p @ 32 # utf8_encode t) = p @ 32 # utf8_encode t"
    and "list_all scalar t"
proof -
  show "10 \<notin> set (utf8_encode t)"
    using assms ascii_of_encode [of 10 t] by (auto simp: frame_safe_def)
  show "strip_end 13 (p @ 32 # utf8_encode t) = p @ 32 # utf8_encode t"
  proof (cases "t = []")
    case False
    then have "utf8_encode t \<noteq> []" by (cases t) simp_all
    moreover have "last (utf8_encode t) \<noteq> 13"
      using last_encode [OF False] assms False by (auto simp: frame_safe_def)
    ultimately show ?thesis by (simp add: strip_end_def)
  qed (simp add: strip_end_def)
qed (use assms in \<open>simp add: frame_safe_def\<close>)

lemma field_line:
  assumes "frame_safe t" and "held + length name + byte_len t + 3 \<le> MAX_EVENT_BYTES"
    and "rd_rest r = name @ u '': '' @ utf8_encode t @ 10 # rest"
    and "name = u ''data'' \<or> name = u ''event''"
  shows "next_event_from held pending r =
    next_event_from (held + length name + byte_len t + 3) (apply_field name t pending) (r\<lparr>rd_rest := rest\<rparr>)"
proof -
  let ?l = "name @ u '': '' @ utf8_encode t"
  have name: "utf8_encode name = name" "list_all scalar name" "10 \<notin> set name" "58 \<notin> set name" "name \<noteq> []"
    "hd name \<noteq> 58"
    using assms(4) by (auto simp: encode_char_def scalar_def)
  have ascii: "?l = utf8_encode (name @ u '': '' @ t)"
    by (simp add: name(1) encode_char_def)
  have "list_all scalar (name @ u '': '' @ t)"
    using encode_frame_safe(3) [OF assms(1)] name(2) by (simp add: scalar_def)
  then have lossy: "lossy ?l = name @ u '': '' @ t"
    unfolding ascii by (rule lossy_encode)
  have split: "split_field (name @ u '': '' @ t) = (name, t)"
    using assms(4) by (auto simp: split_field_def)
  have strip: "strip_end 13 ?l = ?l"
    using encode_frame_safe(2) [OF assms(1), of "name @ [58]"] by simp
  have lf: "10 \<notin> set ?l" using encode_frame_safe(1) [OF assms(1)] name(3) by simp
  have three: "held + length name + byte_len t + 3 = Suc (Suc (Suc (held + (length name + byte_len t))))"
    by simp
  show ?thesis
    unfolding three
    using line_read [OF lf, of held r rest pending] assms(2,3) name(5,6) strip lossy split
    by (simp add: Let_def add.assoc)
qed

text \<open>One frame at the front of a stream is read back, and what follows it is left.\<close>

lemma read_frame:
  assumes "frame_safe data" and "\<forall>e. event = Some e \<longrightarrow> frame_safe e"
    and "frame_bytes event data \<le> MAX_EVENT_BYTES"
    and "rd_rest r = encode event data @ rest"
  shows "next_event r = (Inr (Some \<lparr>se_event = event, se_data = data\<rparr>), r\<lparr>rd_rest := rest\<rparr>)"
proof -
  have data_part: "next_event_from held (event', None) r' =
      (Inr (Some \<lparr>se_event = event', se_data = data\<rparr>), r'\<lparr>rd_rest := rest\<rparr>)"
    if "rd_rest r' = u ''data: '' @ utf8_encode data @ [10, 10] @ rest" "held + byte_len data + 8 \<le> MAX_EVENT_BYTES"
    for held event' r'
  proof -
    have "next_event_from held (event', None) r' =
        next_event_from (held + length (u ''data'') + byte_len data + 3) (apply_field (u ''data'') data (event', None))
          (r'\<lparr>rd_rest := 10 # rest\<rparr>)"
      by (rule field_line [OF assms(1)]) (use that in simp_all)
    also have "\<dots> = (Inr (Some \<lparr>se_event = event', se_data = data\<rparr>), r'\<lparr>rd_rest := rest\<rparr>)"
      using that(2) by (subst line_read [of "[]" _ _ rest]) (simp_all add: apply_field_def strip_end_def)
    finally show ?thesis .
  qed
  show ?thesis
  proof (cases event)
    case None
    then show ?thesis
      using data_part [of r 0 None] assms(3,4) by (simp add: next_event_def encode_def frame_bytes_def)
  next
    case (Some e)
    have "next_event_from 0 (None, None) r =
        next_event_from (0 + length (u ''event'') + byte_len e + 3) (apply_field (u ''event'') e (None, None))
          (r\<lparr>rd_rest := u ''data: '' @ utf8_encode data @ [10, 10] @ rest\<rparr>)"
      by (rule field_line) (use assms Some in \<open>simp_all add: encode_def frame_bytes_def\<close>)
    also have "\<dots> = (Inr (Some \<lparr>se_event = event, se_data = data\<rparr>), r\<lparr>rd_rest := rest\<rparr>)"
      using data_part [of "r\<lparr>rd_rest := u ''data: '' @ utf8_encode data @ [10, 10] @ rest\<rparr>"
          "0 + length (u ''event'') + byte_len e + 3" event] assms(3) Some
      by (simp add: apply_field_def frame_bytes_def)
    finally show ?thesis by (simp add: next_event_def)
  qed
qed

section \<open>Bounds\<close>

lemma split_once_length: "split_once p t = Some (a, b) \<Longrightarrow> length p + length b \<le> length t"
  by (induction p t arbitrary: a b rule: split_once.induct)
    (auto simp: strip_pre_iff split: option.splits if_splits dest!: arg_cong [where f = length])

lemma length_split_field:
  assumes "split_field t = (field, value)" and "t \<noteq> []"
  shows "length value + 1 \<le> length t"
proof (cases "split_once (u '':'') t")
  case (Some x)
  obtain a b where "x = (a, b)" by (cases x)
  then have "Suc (length b) \<le> length t" using split_once_length [of "u '':''" t a b] Some by simp
  moreover have "length value \<le> length b"
    using assms(1) Some \<open>x = (a, b)\<close> by (auto simp: split_field_def split: option.splits list.splits if_splits)
  ultimately show ?thesis by simp
qed (use assms in \<open>auto simp: split_field_def Suc_le_eq\<close>)

lemma lossy_nonempty: "bs \<noteq> [] \<Longrightarrow> lossy bs \<noteq> []"
  by (subst lossy.simps) (auto split: option.split)

lemma length_strip_end: "length (strip_end b l) \<le> length l"
  by (simp add: strip_end_def)

lemma length_read_until: "length (read_until limit bs) \<le> limit"
  by (auto simp: read_until_def dest!: position_SomeD split: option.split)

definition pending_fits :: "nat \<Rightarrow> rstr option \<times> rstr option \<Rightarrow> bool" where
  "pending_fits held pending \<longleftrightarrow>
     (case fst pending of Some e \<Rightarrow> length e \<le> held | None \<Rightarrow> True) \<and>
     (case snd pending of Some d \<Rightarrow> length d + 1 \<le> held | None \<Rightarrow> True)"

lemma pending_fits_field:
  assumes "pending_fits held pending" and "length value + 1 \<le> n"
  shows "pending_fits (held + n) (apply_field field value pending)"
  using assms by (auto simp: pending_fits_def apply_field_def split: prod.splits option.splits)

lemma pending_fits_later: "pending_fits held pending \<Longrightarrow> pending_fits (held + n) pending"
  by (auto simp: pending_fits_def split: option.splits)

text \<open>One event takes at most the cap and one byte off the stream, and is no longer than what it took.\<close>

lemma next_event_from_bounds:
  assumes "next_event_from held pending r = (res, r')" and "pending_fits held pending" and "held \<le> MAX_EVENT_BYTES"
  shows "\<exists>n. rd_rest r' = drop n (rd_rest r) \<and> n \<le> length (rd_rest r) \<and> held + n \<le> MAX_EVENT_BYTES + 1 \<and>
    rd_breaks r' = rd_breaks r \<and> (res = Inl EventTooLarge \<longleftrightarrow> held + n = MAX_EVENT_BYTES + 1) \<and>
    (\<forall>e. res = Inr (Some e) \<longrightarrow>
      length (se_data e) < held + n \<and> (\<forall>name. se_event e = Some name \<longrightarrow> length name \<le> held + n))"
    (is "\<exists>n. ?Q held r res r' n")
  using assms
proof (induction held pending r arbitrary: res r' rule: next_event_from.induct)
  case (1 held pending r)
  let ?limit = "MAX_EVENT_BYTES - held + 1"
  let ?line = "read_until ?limit (rd_rest r)"
  let ?r = "r\<lparr>rd_rest := drop (length ?line) (rd_rest r)\<rparr>"
  let ?text = "strip_end 13 (strip_end 10 ?line)"
  note unfold = next_event_from.simps [of held pending r]
  have len: "length ?line \<le> length (rd_rest r)" "length ?line \<le> ?limit"
    using read_until_take [of ?limit "rd_rest r"] length_read_until by auto
  have fits: "length d + 1 \<le> held" if "snd pending = Some d" for d
    using 1(5) that by (simp add: pending_fits_def)
  have named: "length e \<le> held" if "fst pending = Some e" for e
    using 1(5) that by (simp add: pending_fits_def)
  have step: "\<exists>n. ?Q held r res r' n" if later: "\<exists>n. ?Q (held + length ?line) ?r res r' n"
  proof -
    obtain n where n: "?Q (held + length ?line) ?r res r' n" using later by blast
    show ?thesis by (rule exI [of _ "length ?line + n"]) (use n len in \<open>auto simp: add.commute add.assoc\<close>)
  qed
  show ?case
  proof (cases "read_fails ?limit r")
    case True
    then show ?thesis
      using 1(4) 1(6) by (intro exI [of _ "length (rd_rest r)"]) (auto simp: unfold read_fails_def)
  next
    case ok: False
    show ?thesis
    proof (cases "?line = []")
      case True
      then show ?thesis
        using 1(4) 1(6) ok fits named by (intro exI [of _ 0]) (auto simp: unfold dest: Suc_le_lessD)
    next
      case line: False
      show ?thesis
      proof (cases "held + length ?line > MAX_EVENT_BYTES")
        case True
        then show ?thesis
          using 1(4) 1(6) ok line len by (intro exI [of _ "length ?line"]) (auto simp: unfold Let_def)
      next
        case small: False
        note IH = "1.IH" [OF ok refl refl refl line small refl]
        have later: "pending_fits (held + length ?line) pending" by (rule pending_fits_later [OF 1(5)])
        have le: "held + length ?line \<le> MAX_EVENT_BYTES" using small by simp
        consider (finished) d where "?text = []" "snd pending = Some d" | (blank) "?text = []" "snd pending = None"
          | (comment) "?text \<noteq> []" "hd ?text = 58" | (field) "?text \<noteq> []" "hd ?text \<noteq> 58"
          by (cases "?text = []"; cases "snd pending"; cases "hd ?text = 58") auto
        then show ?thesis
        proof cases
          case finished
          then show ?thesis
            using 1(4) ok line small len fits named
            by (intro exI [of _ "length ?line"]) (force simp: unfold Let_def)
        next
          case blank
          have "next_event_from (held + length ?line) pending ?r = (res, r')"
            using 1(4) ok line small blank by (simp add: unfold Let_def)
          then show ?thesis by (intro step IH(1) [OF blank _ later le])
        next
          case comment
          have "next_event_from (held + length ?line) pending ?r = (res, r')"
            using 1(4) ok line small comment by (simp add: unfold Let_def)
          then show ?thesis by (intro step IH(2) [OF comment _ later le])
        next
          case field
          obtain name v where split: "split_field (lossy ?text) = (name, v)"
            by (cases "split_field (lossy ?text)")
          have "length v + 1 \<le> length ?text"
            using length_split_field [OF split lossy_nonempty [OF field(1)]] length_lossy [of ?text] by simp
          then have v: "length v + 1 \<le> length ?line"
            using length_strip_end [of 13 "strip_end 10 ?line"] length_strip_end [of 10 ?line] by simp
          have next_one: "next_event_from (held + length ?line) (apply_field name v pending) ?r = (res, r')"
            using 1(4) ok line small field split by (simp add: unfold Let_def)
          have "pending_fits (held + length ?line) (apply_field name v pending)"
            by (rule pending_fits_field [OF 1(5) v])
          then show ?thesis by (intro step IH(3) [OF field split [symmetric] next_one _ le])
        qed
      qed
    qed
  qed
qed

section \<open>Properties\<close>

definition encode_all :: "sse_event list \<Rightarrow> bytes" where
  "encode_all es = concat (map (\<lambda>e. encode (se_event e) (se_data e)) es)"

definition framable :: "sse_event \<Rightarrow> bool" where
  "framable e \<longleftrightarrow> frame_safe (se_data e) \<and> (case se_event e of Some name \<Rightarrow> frame_safe name | None \<Rightarrow> True) \<and>
     frame_bytes (se_event e) (se_data e) \<le> MAX_EVENT_BYTES"

text \<open>
  C34. A stream of encoded events reads back as the same events in the same order, when the names and the
  data hold no line feed and end in no carriage return and each frame is under the cap.
\<close>

theorem frames_read_back:
  assumes "list_all framable es"
  shows "read_events \<lparr>rd_rest = encode_all es, rd_breaks = False\<rparr> = Inr es"
  using assms
proof (induction es)
  case Nil
  then show ?case
    by (subst read_events.simps)
      (simp add: encode_all_def next_event_def read_fails_def next_event_from.simps read_until_def)
next
  case (Cons e es)
  have "next_event \<lparr>rd_rest = encode_all (e # es), rd_breaks = False\<rparr> =
      (Inr (Some \<lparr>se_event = se_event e, se_data = se_data e\<rparr>), \<lparr>rd_rest = encode_all es, rd_breaks = False\<rparr>)"
    by (subst read_frame [of "se_data e" "se_event e" _ "encode_all es"])
      (use Cons.prems in \<open>auto simp: encode_all_def framable_def split: option.splits\<close>)
  then show ?case
    using Cons by (subst read_events.simps) simp
qed

theorem frames_read_back_witness:
  "read_events \<lparr>rd_rest = encode_all [\<lparr>se_event = Some (u ''ping''), se_data = u ''{}''\<rparr>,
      \<lparr>se_event = None, se_data = [8364]\<rparr>], rd_breaks = False\<rparr> =
    Inr [\<lparr>se_event = Some (u ''ping''), se_data = u ''{}''\<rparr>, \<lparr>se_event = None, se_data = [8364]\<rparr>]"
  by (rule frames_read_back)
    (simp add: framable_def frame_safe_def frame_bytes_def MAX_EVENT_BYTES_def scalar_def encode_char_def byte_len_def utf8_len_def)

text \<open>
  One call takes a part of the stream off its front, at most one byte more than the cap, and it takes
  that byte exactly when it refuses the event as too large; an event it returns has fewer characters of
  data than the cap and a name no longer than the cap.
\<close>

theorem one_event_is_bounded:
  assumes "next_event r = (res, r')"
  shows "\<exists>n \<le> MAX_EVENT_BYTES + 1. rd_rest r' = drop n (rd_rest r) \<and> n \<le> length (rd_rest r) \<and>
    (res = Inl EventTooLarge \<longleftrightarrow> n = MAX_EVENT_BYTES + 1) \<and>
    (\<forall>e. res = Inr (Some e) \<longrightarrow>
      length (se_data e) < MAX_EVENT_BYTES \<and> (\<forall>name. se_event e = Some name \<longrightarrow> length name \<le> MAX_EVENT_BYTES))"
proof -
  have "pending_fits 0 (None, None)" by (simp add: pending_fits_def)
  from next_event_from_bounds [OF assms [unfolded next_event_def] this]
  obtain n where n: "rd_rest r' = drop n (rd_rest r)" "n \<le> length (rd_rest r)" "n \<le> MAX_EVENT_BYTES + 1"
    "res = Inl EventTooLarge \<longleftrightarrow> n = MAX_EVENT_BYTES + 1"
    "\<And>e. res = Inr (Some e) \<Longrightarrow>
      length (se_data e) < n \<and> (\<forall>name. se_event e = Some name \<longrightarrow> length name \<le> n)"
    by auto
  have "n \<le> MAX_EVENT_BYTES" if "res = Inr (Some e)" for e
    using n(3,4) that by (cases "n = MAX_EVENT_BYTES + 1") auto
  then show ?thesis
    using n by (intro exI [of _ n]) (fastforce dest: order_less_le_trans order_trans)
qed

theorem one_event_is_bounded_witness:
  "\<exists>r'. next_event \<lparr>rd_rest = u ''data'' @ [10, 10], rd_breaks = False\<rparr> =
      (Inr (Some \<lparr>se_event = None, se_data = []\<rparr>), r') \<and>
    (\<exists>n \<le> MAX_EVENT_BYTES + 1. rd_rest r' = drop n (u ''data'' @ [10, 10]) \<and> n \<noteq> MAX_EVENT_BYTES + 1)"
proof -
  let ?r = "\<lparr>rd_rest = u ''data'' @ [10, 10], rd_breaks = False\<rparr>"
  have data: "lossy (u ''data'') = u ''data''"
    by (rule lossy_decode) code_simp
  have result: "next_event ?r = (Inr (Some \<lparr>se_event = None, se_data = []\<rparr>), ?r\<lparr>rd_rest := []\<rparr>)"
    unfolding next_event_def
    by (subst line_read [of "u ''data''" 0 _ "[10]"], simp, simp add: MAX_EVENT_BYTES_def, simp)
      (use data in \<open>simp add: strip_end_def split_field_def apply_field_def line_read [of "[]" _ _ "[]"]
        MAX_EVENT_BYTES_def\<close>)
  show ?thesis
    using one_event_is_bounded [OF result] result by (intro exI [of _ "?r\<lparr>rd_rest := []\<rparr>"]) auto
qed

text \<open>
  A blank line does not clear a pending event name: an event that is a name alone gives its name to
  the next event, which the format's specification forgets at the blank line.
\<close>

theorem blank_line_keeps_the_name:
  "next_event \<lparr>rd_rest = u ''event: ping'' @ [10, 10] @ u ''data: x'' @ [10, 10], rd_breaks = False\<rparr> =
    (Inr (Some \<lparr>se_event = Some (u ''ping''), se_data = u ''x''\<rparr>), \<lparr>rd_rest = [], rd_breaks = False\<rparr>)"
proof -
  let ?r = "\<lambda>rest. \<lparr>rd_rest = rest, rd_breaks = False\<rparr>"
  have "next_event_from 0 (None, None) (?r (u ''event: ping'' @ [10, 10] @ u ''data: x'' @ [10, 10])) =
      next_event_from 12 (Some (u ''ping''), None) (?r ([10] @ u ''data: x'' @ [10, 10]))"
    by (subst field_line [of "u ''ping''" 0 "u ''event''" _ "[10] @ u ''data: x'' @ [10, 10]"])
      (simp_all add: frame_safe_def MAX_EVENT_BYTES_def scalar_def encode_char_def apply_field_def byte_len_def utf8_len_def)
  also have "\<dots> = next_event_from 13 (Some (u ''ping''), None) (?r (u ''data: x'' @ [10, 10]))"
    by (subst line_read [of "[]" _ _ "u ''data: x'' @ [10, 10]"]) (simp_all add: strip_end_def MAX_EVENT_BYTES_def)
  also have "\<dots> = next_event_from 21 (Some (u ''ping''), Some (u ''x'')) (?r [10])"
    by (subst field_line [of "u ''x''" 13 "u ''data''" _ "[10]"])
      (simp_all add: frame_safe_def MAX_EVENT_BYTES_def scalar_def encode_char_def apply_field_def byte_len_def utf8_len_def)
  also have "\<dots> = (Inr (Some \<lparr>se_event = Some (u ''ping''), se_data = u ''x''\<rparr>), ?r [])"
    by (subst line_read [of "[]" _ _ "[]"]) (simp_all add: strip_end_def MAX_EVENT_BYTES_def)
  finally show ?thesis by (simp add: next_event_def)
qed

end
