(* ===== verification/Usage.thy ===== *)
theory Usage
  imports Utf8
begin

text \<open>
  Reading a provider's usage out of the bytes the relay forwards,
  \<open>crates/inference-gateway/src/gateway/usage.rs\<close>: a sliding window over the response, the counts and
  markers it sees, whatever pieces the response arrives in.
\<close>

section \<open>Formats\<close>

definition CARRY :: nat where "CARRY = 512"
definition VALUE_CAP :: nat where "VALUE_CAP = 256"

record usage_format =
  uf_input :: bytes
  uf_output :: bytes
  uf_cached :: "bytes option"
  uf_text_arm :: "bytes option"
  uf_text_value :: bytes
  uf_tool_call :: bytes

definition ANTHROPIC_MESSAGES :: usage_format where
  "ANTHROPIC_MESSAGES =
     \<lparr>uf_input = u ''\"input_tokens\":'', uf_output = u ''\"output_tokens\":'',
      uf_cached = Some (u ''\"cache_read_input_tokens\":''), uf_text_arm = Some (u ''\"text_delta\"''),
      uf_text_value = u ''\"text\":\"'', uf_tool_call = u ''\"type\":\"tool_use\"''\<rparr>"

definition OPENAI_CHAT :: usage_format where
  "OPENAI_CHAT =
     \<lparr>uf_input = u ''\"prompt_tokens\":'', uf_output = u ''\"completion_tokens\":'',
      uf_cached = Some (u ''\"cached_tokens\":''), uf_text_arm = None,
      uf_text_value = u ''\"content\":\"'', uf_tool_call = u ''\"tool_calls\":''\<rparr>"

definition OPENAI_RESPONSES :: usage_format where
  "OPENAI_RESPONSES =
     \<lparr>uf_input = u ''\"input_tokens\":'', uf_output = u ''\"output_tokens\":'',
      uf_cached = Some (u ''\"cached_tokens\":''), uf_text_arm = Some (u ''\"response.output_text.delta\"''),
      uf_text_value = u ''\"delta\":\"'', uf_tool_call = u ''\"type\":\"function_call\"''\<rparr>"

definition TYPESAFE_SYSTEMONE :: usage_format where
  "TYPESAFE_SYSTEMONE =
     \<lparr>uf_input = u ''\"input_tokens\":'', uf_output = u ''\"output_tokens\":'', uf_cached = None,
      uf_text_arm = None, uf_text_value = u ''\"text\":\"'', uf_tool_call = u ''\"type\":\"tool_use\"''\<rparr>"

definition format_for :: "rstr \<Rightarrow> usage_format option" where
  "format_for protocol =
     (if protocol = u ''anthropic-messages'' then Some ANTHROPIC_MESSAGES
      else if protocol = u ''openai-chat'' then Some OPENAI_CHAT
      else if protocol = u ''openai-responses'' then Some OPENAI_RESPONSES
      else if protocol = u ''typesafe-systemone'' then Some TYPESAFE_SYSTEMONE
      else None)"

section \<open>What stands after a key\<close>

text \<open>The functions read what the buffer holds from a position on.\<close>

datatype digits = DigitsIncomplete | DigitsRefused | DigitsValue nat

datatype text_value = Padding | Real | TextIncomplete

definition blank :: "nat \<Rightarrow> bool" where
  "blank b \<longleftrightarrow> b = 32 \<or> b = 9"

text \<open>The loop over the digits, with the checked product and sum in 64 bits: once over, the value is
  kept as it was and the number refused.\<close>

fun run_digits :: "nat \<Rightarrow> bool \<Rightarrow> bytes \<Rightarrow> nat \<times> bool \<times> bytes" where
  "run_digits v over [] = (v, over, [])"
| "run_digits v over (b # bs) =
     (if is_ascii_digit b
      then (if v * 10 + (b - 48) < 2 ^ 64 then run_digits (v * 10 + (b - 48)) over bs
            else run_digits v True bs)
      else (v, over, b # bs))"

definition digits_at :: "bytes \<Rightarrow> digits" where
  "digits_at bs =
     (let start = dropWhile blank bs
      in case run_digits 0 False start of
           (v, over, rest) \<Rightarrow>
             if length rest = length start
             then (if rest = [] then DigitsIncomplete else DigitsRefused)
             else if rest = [] then DigitsIncomplete
             else if over then DigitsRefused
             else DigitsValue v)"

definition text_space :: "nat \<Rightarrow> bool" where
  "text_space b \<longleftrightarrow> b = 32 \<or> b = 9 \<or> b = 13 \<or> b = 10"

definition text_at :: "bytes \<Rightarrow> text_value" where
  "text_at bs =
     (case dropWhile text_space (take VALUE_CAP bs) of
        [] \<Rightarrow> if VALUE_CAP \<le> length bs then Padding else TextIncomplete
      | b # _ \<Rightarrow> if b = 34 then Padding else Real)"

section \<open>The extractor\<close>

record usage =
  us_input :: nat
  us_output :: nat
  us_cached :: "nat option"

record seen =
  first_text :: bool
  first_tool_call :: bool

datatype delivery = Streamed | Document

record extractor =
  ex_format :: usage_format
  ex_delivery :: delivery
  ex_window :: bytes
  ex_input :: "nat option"
  ex_output :: "nat option"
  ex_cached :: "nat option"
  ex_text_armed :: bool
  ex_first_text :: bool
  ex_first_tool_call :: bool

definition extractor_new :: "usage_format \<Rightarrow> delivery \<Rightarrow> extractor" where
  "extractor_new fmt delivery =
     \<lparr>ex_format = fmt, ex_delivery = delivery, ex_window = [], ex_input = None, ex_output = None,
      ex_cached = None, ex_text_armed = (uf_text_arm fmt = None), ex_first_text = False,
      ex_first_tool_call = False\<rparr>"

definition nothing_seen :: seen where
  "nothing_seen = \<lparr>first_text = False, first_tool_call = False\<rparr>"

text \<open>A count at the front of \<open>rest\<close>, or what was stated before.\<close>

definition note_count :: "bytes \<Rightarrow> bytes \<Rightarrow> nat option \<Rightarrow> nat option" where
  "note_count needle rest slot =
     (if starts_with rest needle
      then (case digits_at (drop (length needle) rest) of DigitsValue v \<Rightarrow> Some v | _ \<Rightarrow> slot)
      else slot)"

definition note_text :: "bytes \<Rightarrow> extractor \<times> seen \<Rightarrow> extractor \<times> seen" where
  "note_text rest st =
     (case st of (ex, seen) \<Rightarrow>
        if ex_delivery ex = Streamed \<and> \<not> ex_first_text ex
        then (let fmt = ex_format ex;
                  armed = (ex_text_armed ex \<or>
                    (case uf_text_arm fmt of Some arm \<Rightarrow> starts_with rest arm | None \<Rightarrow> False));
                  real = (armed \<and> starts_with rest (uf_text_value fmt) \<and>
                    text_at (drop (length (uf_text_value fmt)) rest) = Real)
              in (ex\<lparr>ex_text_armed := armed, ex_first_text := real\<rparr>,
                  if real then seen\<lparr>first_text := True\<rparr> else seen))
        else (ex, seen))"

definition note_tool_call :: "bytes \<Rightarrow> extractor \<times> seen \<Rightarrow> extractor \<times> seen" where
  "note_tool_call rest st =
     (case st of (ex, seen) \<Rightarrow>
        if ex_delivery ex = Streamed \<and> \<not> ex_first_tool_call ex \<and> starts_with rest (uf_tool_call (ex_format ex))
        then (ex\<lparr>ex_first_tool_call := True\<rparr>, seen\<lparr>first_tool_call := True\<rparr>)
        else (ex, seen))"

definition note_counts :: "bytes \<Rightarrow> extractor \<Rightarrow> extractor" where
  "note_counts rest ex =
     ex\<lparr>ex_input := note_count (uf_input (ex_format ex)) rest (ex_input ex),
        ex_output := note_count (uf_output (ex_format ex)) rest (ex_output ex),
        ex_cached := (case uf_cached (ex_format ex) of
                        Some needle \<Rightarrow> note_count needle rest (ex_cached ex)
                      | None \<Rightarrow> ex_cached ex)\<rparr>"

text \<open>One pass over what the window holds: only a quotation mark can begin a key.\<close>

fun scan :: "bytes \<Rightarrow> extractor \<times> seen \<Rightarrow> extractor \<times> seen" where
  "scan [] st = st"
| "scan (b # bs) st =
     scan bs
       (if b = 34
        then note_tool_call (b # bs) (note_text (b # bs) (note_counts (b # bs) (fst st), snd st))
        else st)"

definition feed :: "bytes \<Rightarrow> extractor \<Rightarrow> seen \<times> extractor" where
  "feed chunk ex =
     (if chunk = [] then (nothing_seen, ex)
      else
        (let window = ex_window ex @ chunk
         in case scan window (ex, nothing_seen) of
              (ex', seen) \<Rightarrow>
                (seen, ex'\<lparr>ex_window :=
                   (if length window > CARRY then drop (length window - CARRY) window else window)\<rparr>)))"

definition stated_usage :: "extractor \<Rightarrow> usage option" where
  "stated_usage ex =
     (case (ex_input ex, ex_output ex) of
        (Some i, Some out) \<Rightarrow> Some \<lparr>us_input = i, us_output = out, us_cached = ex_cached ex\<rparr>
      | _ \<Rightarrow> None)"

definition feed_all :: "bytes list \<Rightarrow> extractor \<Rightarrow> extractor" where
  "feed_all chunks ex = foldl (\<lambda>ex chunk. snd (feed chunk ex)) ex chunks"

section \<open>Keys of the known formats\<close>

text \<open>A key begins with a quotation mark and is far shorter than what is carried over.\<close>

definition key_ok :: "bytes \<Rightarrow> bool" where
  "key_ok key \<longleftrightarrow> (\<exists>rest. key = 34 # rest) \<and> length key \<le> 64"

definition format_ok :: "usage_format \<Rightarrow> bool" where
  "format_ok fmt \<longleftrightarrow> key_ok (uf_input fmt) \<and> key_ok (uf_output fmt) \<and> key_ok (uf_tool_call fmt) \<and>
     (case uf_cached fmt of Some key \<Rightarrow> key_ok key | None \<Rightarrow> True)"

lemma format_for_ok: "format_for protocol = Some fmt \<Longrightarrow> format_ok fmt"
  by (auto simp: format_for_def format_ok_def key_ok_def ANTHROPIC_MESSAGES_def OPENAI_CHAT_def
      OPENAI_RESPONSES_def TYPESAFE_SYSTEMONE_def split: if_splits)

section \<open>Reading a number in pieces\<close>

lemma run_digits_append:
  assumes "run_digits v over bs = (v', over', rest)" and "rest \<noteq> []"
  shows "run_digits v over (bs @ cs) = (v', over', rest @ cs)"
  using assms by (induction v over bs rule: run_digits.induct) (auto split: if_splits)

lemma run_digits_rest: "snd (snd (run_digits v over bs)) = dropWhile is_ascii_digit bs"
  by (induction v over bs rule: run_digits.induct) auto

lemma digits_at_unfold:
  assumes "dropWhile blank bs = start" and "run_digits 0 False start = (v, over, rest)"
  shows "digits_at bs =
    (if length rest = length start then (if rest = [] then DigitsIncomplete else DigitsRefused)
     else if rest = [] then DigitsIncomplete else if over then DigitsRefused else DigitsValue v)"
  using assms by (simp add: digits_at_def Let_def)

text \<open>The bytes up to the one that ends the number: blanks, then digits.\<close>

definition number_end :: "bytes \<Rightarrow> bytes" where
  "number_end bs = dropWhile is_ascii_digit (dropWhile blank bs)"

lemma dropWhile_append_nonempty: "dropWhile P xs \<noteq> [] \<Longrightarrow> dropWhile P (xs @ ys) = dropWhile P xs @ ys"
  by (induction xs) auto

lemma digits_at_append:
  assumes "number_end bs \<noteq> []"
  shows "digits_at (bs @ cs) = digits_at bs"
proof -
  obtain v over rest where run: "run_digits 0 False (dropWhile blank bs) = (v, over, rest)"
    by (cases "run_digits 0 False (dropWhile blank bs)") auto
  have rest: "rest \<noteq> []"
    using assms run_digits_rest [of 0 False "dropWhile blank bs"] run by (simp add: number_end_def)
  have "dropWhile blank bs \<noteq> []" using assms unfolding number_end_def by (metis dropWhile.simps(1))
  then have start: "dropWhile blank (bs @ cs) = dropWhile blank bs @ cs" by (rule dropWhile_append_nonempty)
  show ?thesis
    using run_digits_append [OF run rest, of cs] rest
    by (simp add: digits_at_unfold [OF refl run] digits_at_unfold [OF start])
qed

lemma digits_value_ended: "digits_at bs = DigitsValue v \<Longrightarrow> number_end bs \<noteq> []"
proof -
  obtain v' over rest where run: "run_digits 0 False (dropWhile blank bs) = (v', over, rest)"
    by (cases "run_digits 0 False (dropWhile blank bs)") auto
  then have "number_end bs = rest"
    using run_digits_rest [of 0 False "dropWhile blank bs"] by (simp add: number_end_def)
  then show "digits_at bs = DigitsValue v \<Longrightarrow> ?thesis"
    by (auto simp: digits_at_unfold [OF refl run] split: if_splits)
qed

section \<open>One count over the whole response\<close>

text \<open>The count a key states at the front of \<open>rest\<close>.\<close>

definition count_at :: "bytes \<Rightarrow> bytes \<Rightarrow> nat option" where
  "count_at key rest =
     (if starts_with rest key
      then (case digits_at (drop (length key) rest) of DigitsValue v \<Rightarrow> Some v | _ \<Rightarrow> None)
      else None)"

text \<open>The last count a response states: what \<open>usage.rs\<close> means the provider to mean.\<close>

definition last_count :: "bytes \<Rightarrow> bytes \<Rightarrow> nat option" where
  "last_count key bs =
     (let counts = List.map_filter (\<lambda>i. count_at key (drop i bs)) [0 ..< length bs]
      in if counts = [] then None else Some (last counts))"

lemma note_count_at: "note_count key rest slot = (case count_at key rest of Some v \<Rightarrow> Some v | None \<Rightarrow> slot)"
  by (simp add: note_count_def count_at_def split: digits.split)

definition note_from :: "bytes \<Rightarrow> bytes \<Rightarrow> nat list \<Rightarrow> nat option \<Rightarrow> nat option" where
  "note_from key bs positions slot = foldl (\<lambda>slot i. note_count key (drop i bs) slot) slot positions"

lemma note_from_append: "note_from key bs (xs @ ys) slot = note_from key bs ys (note_from key bs xs slot)"
  by (simp add: note_from_def)

lemma map_filter_snoc:
  "List.map_filter f (xs @ [x]) = List.map_filter f xs @ (case f x of Some y \<Rightarrow> [y] | None \<Rightarrow> [])"
  by (simp add: map_filter_def split: option.split)

lemma note_from_last:
  "note_from key bs positions slot =
     (let counts = List.map_filter (\<lambda>i. count_at key (drop i bs)) positions
      in if counts = [] then slot else Some (last counts))"
proof (induction positions rule: rev_induct)
  case (snoc i positions)
  have "note_from key bs (positions @ [i]) slot = note_count key (drop i bs) (note_from key bs positions slot)"
    by (simp add: note_from_append) (simp add: note_from_def)
  then show ?case
    using snoc by (cases "count_at key (drop i bs)") (simp_all add: map_filter_snoc note_count_at)
qed (simp add: note_from_def map_filter_def)

lemma last_count_note_from: "last_count key bs = note_from key bs [0 ..< length bs] None"
  by (simp add: last_count_def note_from_last Let_def)

text \<open>The counts of a response are short when each is ended by the bytes carried over with its key.\<close>

definition short_counts :: "bytes \<Rightarrow> bytes \<Rightarrow> bool" where
  "short_counts key bs \<longleftrightarrow>
     list_all (\<lambda>i. starts_with (drop i bs) key \<longrightarrow>
       number_end (take (CARRY - length key) (drop (i + length key) bs)) \<noteq> [] \<or>
       length bs \<le> i + CARRY)
     [0 ..< length bs]"

lemma count_at_append:
  assumes "count_at key bs = Some v"
  shows "count_at key (bs @ cs) = Some v"
proof -
  obtain rest where rest: "bs = key @ rest" "digits_at rest = DigitsValue v"
    using assms by (auto simp: count_at_def split: if_splits digits.splits)
  then show ?thesis
    using digits_at_append [OF digits_value_ended [OF rest(2)], of cs] by (simp add: count_at_def)
qed

text \<open>A position that leaves the window has been read for good.\<close>

lemma number_end_append: "number_end bs \<noteq> [] \<Longrightarrow> number_end (bs @ cs) \<noteq> []"
  by (metis Nil_is_append_conv digits_value_ended dropWhile.simps(1) dropWhile_append_nonempty number_end_def)

lemma count_at_settled:
  assumes "length key \<le> CARRY" and "CARRY < length bs"
    and "starts_with (bs @ cs) key \<Longrightarrow> number_end (take (CARRY - length key) (drop (length key) (bs @ cs))) \<noteq> []"
  shows "count_at key (bs @ cs) = count_at key bs"
proof (cases "starts_with (bs @ cs) key")
  case False
  moreover have "\<not> starts_with bs key" using False by auto
  ultimately show ?thesis by (simp only: count_at_def if_False)
next
  case True
  then have "prefix key (bs @ cs)" by (simp add: prefix_def)
  then have "prefix key bs" using assms(1,2) by (auto simp: prefix_append)
  then obtain rest where rest: "bs = key @ rest" by (auto simp: prefix_def)
  have same: "take (CARRY - length key) (rest @ cs) = take (CARRY - length key) rest"
    using assms(2) by (simp add: rest)
  have "drop (length key) (bs @ cs) = rest @ cs" by (simp add: rest)
  then have "number_end (take (CARRY - length key) rest) \<noteq> []"
    using assms(3) [OF True] unfolding same [symmetric] by simp
  then have "number_end rest \<noteq> []"
    using number_end_append [of "take (CARRY - length key) rest" "drop (CARRY - length key) rest"] by simp
  then show ?thesis by (simp add: count_at_def rest digits_at_append)
qed

lemma note_from_settled:
  assumes "\<And>i. i \<in> set positions \<Longrightarrow> count_at key (drop i bs) = count_at key (drop i cs)"
  shows "note_from key bs positions slot = note_from key cs positions slot"
  using assms by (induction positions arbitrary: slot) (simp_all add: note_from_def note_count_at)

text \<open>Reading positions again in a longer response forgets nothing and repeats nothing.\<close>

lemma note_from_again:
  assumes "\<And>i v. i \<in> set positions \<Longrightarrow> count_at key (drop i bs) = Some v \<Longrightarrow> count_at key (drop i cs) = Some v"
  shows "note_from key cs positions (note_from key bs positions slot) = note_from key cs positions slot"
proof (cases "\<exists>i\<in>set positions. count_at key (drop i cs) \<noteq> None")
  case True
  then have "List.map_filter (\<lambda>i. count_at key (drop i cs)) positions \<noteq> []"
    by (auto simp: map_filter_def filter_empty_conv)
  then show ?thesis by (simp add: note_from_last)
next
  case False
  then have "count_at key (drop i bs) = None" if "i \<in> set positions" for i
    using assms [OF that] that by (cases "count_at key (drop i bs)") auto
  then have "note_from key bs positions slot = slot"
    by (auto simp: note_from_last map_filter_def Let_def filter_empty_conv)
  then show ?thesis by simp
qed

lemma note_from_drop: "note_from key (drop d bs) [0 ..< length bs - d] slot = note_from key bs [d ..< length bs] slot"
proof (cases "d \<le> length bs")
  case True
  then have "[d ..< length bs] = map (\<lambda>i. i + d) [0 ..< length bs - d]"
    using map_add_upt [of d "length bs - d"] by simp
  then show ?thesis
    by (simp add: note_from_def foldl_map add.commute)
qed (simp add: note_from_def)

lemma upt_split: "i \<le> j \<Longrightarrow> j \<le> k \<Longrightarrow> [i ..< k] = [i ..< j] @ [j ..< k]"
  using upt_add_eq_append [of i j "k - j"] by simp

lemma count_step:
  assumes key: "key_ok key" and short: "short_counts key (s @ c @ rest)"
    and slot: "slot = note_from key s [0 ..< length s] None"
  shows "note_from key (drop (length s - CARRY) s @ c) [0 ..< length (drop (length s - CARRY) s @ c)] slot =
    note_from key (s @ c) [0 ..< length (s @ c)] None"
proof -
  let ?d = "length s - CARRY" and ?t = "s @ c"
  have key_short: "length key \<le> CARRY" using key by (simp add: key_ok_def CARRY_def)
  have settled: "count_at key (drop i s) = count_at key (drop i ?t)" if "i < ?d" for i
  proof -
    have i: "i < length s" "CARRY < length (drop i s)" using that by auto
    have "number_end (take (CARRY - length key) (drop (i + length key) (s @ c @ rest))) \<noteq> []"
      if "starts_with (drop i (s @ c @ rest)) key"
      using short that i by (auto simp: short_counts_def list_all_iff simp del: starts_with_iff drop_append)
    then have "count_at key (drop i s @ c @ rest) = count_at key (drop i s)"
      by (intro count_at_settled key_short i)
        (use i in \<open>simp add: drop_drop [symmetric] add.commute [of i] del: starts_with_iff drop_drop\<close>)
    moreover have "count_at key ((drop i s @ c) @ rest) = count_at key (drop i s @ c)"
      by (intro count_at_settled key_short)
        (use i \<open>_ \<Longrightarrow> number_end _ \<noteq> []\<close> in \<open>simp_all add: drop_drop [symmetric] add.commute [of i]
          del: starts_with_iff drop_drop\<close>)
    ultimately show ?thesis using i by simp
  qed
  have window: "drop ?d s @ c = drop ?d ?t" by simp
  have "note_from key (drop ?d ?t) [0 ..< length (drop ?d ?t)] slot = note_from key ?t [?d ..< length ?t] slot"
    using note_from_drop [of key ?d ?t slot] by simp
  also have "[?d ..< length ?t] = [?d ..< length s] @ [length s ..< length ?t]"
    by (rule upt_split) simp_all
  finally have window_read: "note_from key (drop ?d s @ c) [0 ..< length (drop ?d s @ c)] slot =
      note_from key ?t [length s ..< length ?t] (note_from key ?t [?d ..< length s] slot)"
    unfolding window by (simp add: note_from_append)
  have "[0 ..< length s] = [0 ..< ?d] @ [?d ..< length s]" by (rule upt_split) simp_all
  then have "slot = note_from key s [?d ..< length s] (note_from key s [0 ..< ?d] None)"
    unfolding slot by (simp add: note_from_append)
  also have "note_from key s [0 ..< ?d] None = note_from key ?t [0 ..< ?d] None"
    by (rule note_from_settled) (simp add: settled)
  finally have "note_from key ?t [?d ..< length s] slot =
      note_from key ?t [?d ..< length s] (note_from key ?t [0 ..< ?d] None)"
    by (simp only:) (rule note_from_again, auto simp: count_at_append)
  then show ?thesis
    unfolding window_read
    by (simp add: note_from_append [symmetric] upt_split [symmetric] del: upt_conv_Cons)
qed

section \<open>One pass\<close>

lemma note_counts_simps [simp]:
  "ex_format (note_counts rest ex) = ex_format ex" "ex_delivery (note_counts rest ex) = ex_delivery ex"
  "ex_window (note_counts rest ex) = ex_window ex"
  "ex_first_tool_call (note_counts rest ex) = ex_first_tool_call ex"
  by (simp_all add: note_counts_def)

lemma note_text_simps [simp]:
  "ex_format (fst (note_text rest st)) = ex_format (fst st)"
  "ex_delivery (fst (note_text rest st)) = ex_delivery (fst st)"
  "ex_window (fst (note_text rest st)) = ex_window (fst st)"
  "ex_input (fst (note_text rest st)) = ex_input (fst st)"
  "ex_output (fst (note_text rest st)) = ex_output (fst st)"
  "ex_cached (fst (note_text rest st)) = ex_cached (fst st)"
  "ex_first_tool_call (fst (note_text rest st)) = ex_first_tool_call (fst st)"
  "first_tool_call (snd (note_text rest st)) = first_tool_call (snd st)"
  by (simp_all add: note_text_def Let_def split: prod.split)

lemma note_tool_call_simps [simp]:
  "ex_format (fst (note_tool_call rest st)) = ex_format (fst st)"
  "ex_delivery (fst (note_tool_call rest st)) = ex_delivery (fst st)"
  "ex_window (fst (note_tool_call rest st)) = ex_window (fst st)"
  "ex_input (fst (note_tool_call rest st)) = ex_input (fst st)"
  "ex_output (fst (note_tool_call rest st)) = ex_output (fst st)"
  "ex_cached (fst (note_tool_call rest st)) = ex_cached (fst st)"
  by (simp_all add: note_tool_call_def split: prod.split)

lemma note_from_Cons:
  "note_from key (b # bs) [0 ..< Suc (length bs)] slot = note_from key bs [0 ..< length bs] (note_count key (b # bs) slot)"
proof -
  have "[0 ..< Suc (length bs)] = 0 # map Suc [0 ..< length bs]"
    by (simp add: map_Suc_upt upt_conv_Cons del: upt_Suc)
  then show ?thesis by (simp add: note_from_def foldl_map del: upt_Suc)
qed

lemma note_count_key: "key_ok key \<Longrightarrow> b \<noteq> 34 \<Longrightarrow> note_count key (b # bs) slot = slot"
  by (auto simp: note_count_def key_ok_def)

lemma scan_fixed:
  "ex_format (fst (scan bs st)) = ex_format (fst st) \<and> ex_delivery (fst (scan bs st)) = ex_delivery (fst st) \<and>
    ex_window (fst (scan bs st)) = ex_window (fst st)"
  by (induction bs st rule: scan.induct) auto

lemma scan_counts:
  assumes "format_ok (ex_format (fst st))"
  shows "ex_input (fst (scan bs st)) = note_from (uf_input (ex_format (fst st))) bs [0 ..< length bs] (ex_input (fst st))"
    and "ex_output (fst (scan bs st)) = note_from (uf_output (ex_format (fst st))) bs [0 ..< length bs] (ex_output (fst st))"
    and "ex_cached (fst (scan bs st)) =
      (case uf_cached (ex_format (fst st)) of
         Some key \<Rightarrow> note_from key bs [0 ..< length bs] (ex_cached (fst st))
       | None \<Rightarrow> ex_cached (fst st))"
  using assms
proof (induction bs st rule: scan.induct)
  case (2 b bs st)
  {
    case 1
    then show ?case
      using "2.IH"(1) by (simp add: note_from_Cons note_count_key format_ok_def note_counts_def del: upt_Suc)
  next
    case 2
    then show ?case
      using "2.IH"(2) by (simp add: note_from_Cons note_count_key format_ok_def note_counts_def del: upt_Suc)
  next
    case 3
    then show ?case
      using "2.IH"(3)
      by (simp add: note_from_Cons note_count_key format_ok_def note_counts_def del: upt_Suc split: option.splits)
  }
qed (simp_all add: note_from_def split: option.split)

lemma feed_simps:
  "ex_format (snd (feed chunk ex)) = ex_format ex" "ex_delivery (snd (feed chunk ex)) = ex_delivery ex"
  "chunk \<noteq> [] \<Longrightarrow> ex_window (snd (feed chunk ex)) =
    drop (length (ex_window ex @ chunk) - CARRY) (ex_window ex @ chunk)"
  using scan_fixed [of "ex_window ex @ chunk" "(ex, nothing_seen)"]
  by (simp_all add: feed_def Let_def case_prod_beta)

lemma feed_counts:
  assumes "format_ok (ex_format ex)" and "chunk \<noteq> []"
  shows "ex_input (snd (feed chunk ex)) =
      note_from (uf_input (ex_format ex)) (ex_window ex @ chunk) [0 ..< length (ex_window ex @ chunk)] (ex_input ex)"
    and "ex_output (snd (feed chunk ex)) =
      note_from (uf_output (ex_format ex)) (ex_window ex @ chunk) [0 ..< length (ex_window ex @ chunk)] (ex_output ex)"
    and "ex_cached (snd (feed chunk ex)) =
      (case uf_cached (ex_format ex) of
         Some key \<Rightarrow> note_from key (ex_window ex @ chunk) [0 ..< length (ex_window ex @ chunk)] (ex_cached ex)
       | None \<Rightarrow> ex_cached ex)"
  using scan_counts [of "(ex, nothing_seen)" "ex_window ex @ chunk"] assms
  by (simp_all add: feed_def Let_def case_prod_beta del: upt_Suc cong: option.case_cong)

section \<open>The whole response\<close>

text \<open>What an extractor holds after the bytes \<open>s\<close>, in whatever pieces they came.\<close>

definition has_read :: "usage_format \<Rightarrow> bytes \<Rightarrow> extractor \<Rightarrow> bool" where
  "has_read fmt s ex \<longleftrightarrow>
     ex_format ex = fmt \<and> ex_window ex = drop (length s - CARRY) s \<and>
     ex_input ex = last_count (uf_input fmt) s \<and> ex_output ex = last_count (uf_output fmt) s \<and>
     ex_cached ex = (case uf_cached fmt of Some key \<Rightarrow> last_count key s | None \<Rightarrow> None)"

definition short_usage :: "usage_format \<Rightarrow> bytes \<Rightarrow> bool" where
  "short_usage fmt s \<longleftrightarrow> short_counts (uf_input fmt) s \<and> short_counts (uf_output fmt) s \<and>
     (case uf_cached fmt of Some key \<Rightarrow> short_counts key s | None \<Rightarrow> True)"

lemma window_step: "drop (length (drop (length s - n) s @ c) - n) (drop (length s - n) s @ c) = drop (length (s @ c) - n) (s @ c)"
proof (cases "length s \<le> n")
  case False
  then have "n \<le> length (drop (length s - n) s @ c)" by simp
  then show ?thesis using False by (simp add: add.commute)
qed simp

lemma has_read_feed:
  assumes "format_ok fmt" and "short_usage fmt (s @ c @ rest)" and "has_read fmt s ex"
  shows "has_read fmt (s @ c) (snd (feed c ex))"
proof (cases "c = []")
  case True
  then show ?thesis using assms(3) by (simp add: feed_def)
next
  case False
  have ok: "format_ok (ex_format ex)" using assms(1,3) by (simp add: has_read_def)
  have step: "note_from key (ex_window ex @ c) [0 ..< length (ex_window ex @ c)] (last_count key s) = last_count key (s @ c)"
    if "key_ok key" "short_counts key (s @ c @ rest)" for key
    using count_step [OF that last_count_note_from] assms(3)
    by (simp add: has_read_def last_count_note_from del: upt_Suc)
  show ?thesis
    using feed_counts [OF ok False] feed_simps(1) [of c ex] feed_simps(3) [OF False, of ex] window_step [of s CARRY c]
      assms step
    by (simp add: has_read_def format_ok_def short_usage_def del: upt_Suc split: option.splits)
qed

lemma has_read_all:
  assumes "format_ok fmt" and "short_usage fmt (s @ concat chunks)" and "has_read fmt s ex"
  shows "has_read fmt (s @ concat chunks) (feed_all chunks ex)"
  using assms(2,3)
proof (induction chunks arbitrary: s ex)
  case (Cons c chunks)
  have "has_read fmt (s @ c) (snd (feed c ex))"
    using has_read_feed [OF assms(1), of s c "concat chunks"] Cons.prems by simp
  then show ?case
    using Cons.IH [of "s @ c" "snd (feed c ex)"] Cons.prems by (simp add: feed_all_def)
qed (simp add: feed_all_def)

lemma has_read_new: "has_read fmt [] (extractor_new fmt delivery)"
  by (simp add: has_read_def extractor_new_def last_count_def map_filter_def split: option.split)

section \<open>The first tool call\<close>

lemma note_tool_call_latch:
  "ex_first_tool_call (fst (note_tool_call rest st)) \<longleftrightarrow> ex_first_tool_call (fst st) \<or>
    ex_delivery (fst st) = Streamed \<and> prefix (uf_tool_call (ex_format (fst st))) rest"
  "first_tool_call (snd (note_tool_call rest st)) \<longleftrightarrow> first_tool_call (snd st) \<or>
    ex_delivery (fst st) = Streamed \<and> \<not> ex_first_tool_call (fst st) \<and>
    prefix (uf_tool_call (ex_format (fst st))) rest"
  by (auto simp: note_tool_call_def starts_with_prefix case_prod_beta simp del: starts_with_iff)

lemma scan_tool_call:
  assumes "ex_delivery (fst st) = Streamed" and "uf_tool_call (ex_format (fst st)) = 34 # key"
  shows "ex_first_tool_call (fst (scan bs st)) \<longleftrightarrow> ex_first_tool_call (fst st) \<or> sublist (34 # key) bs"
    and "first_tool_call (snd (scan bs st)) \<longleftrightarrow>
      first_tool_call (snd st) \<or> \<not> ex_first_tool_call (fst st) \<and> sublist (34 # key) bs"
  using assms
proof (induction bs st rule: scan.induct)
  case (2 b bs st)
  {
    case 1
    then show ?case
      using "2.IH"(1) by (auto simp: note_tool_call_latch sublist_Cons_right)
  next
    case 2
    then show ?case
      using "2.IH"(2) by (auto simp: note_tool_call_latch sublist_Cons_right)
  }
qed auto

text \<open>An occurrence that is new with a chunk lies in the window it is scanned with.\<close>

lemma sublist_window:
  assumes "length key \<le> n"
  shows "sublist key (s @ c) \<longleftrightarrow> sublist key s \<or> sublist key (drop (length s - n) s @ c)"
proof
  assume "sublist key (s @ c)"
  then consider "sublist key s" | "sublist key c" | xs ys where "key = xs @ ys" "suffix xs s" "prefix ys c"
    by (auto simp: sublist_append)
  then show "sublist key s \<or> sublist key (drop (length s - n) s @ c)"
  proof cases
    case 3
    then have "suffix xs (drop (length s - n) s)"
      using assms by (auto simp: suffix_def)
    then show ?thesis using 3 by (auto simp: sublist_append)
  qed (auto simp: sublist_append)
next
  assume "sublist key s \<or> sublist key (drop (length s - n) s @ c)"
  moreover have "sublist (drop (length s - n) s @ c) (s @ c)"
    by (metis append_assoc append_take_drop_id sublist_appendI sublist_append_leftI)
  ultimately show "sublist key (s @ c)"
    by (metis sublist_append_rightI sublist_order.order_trans)
qed

definition has_watched :: "usage_format \<Rightarrow> bytes \<Rightarrow> extractor \<Rightarrow> bool" where
  "has_watched fmt s ex \<longleftrightarrow>
     ex_format ex = fmt \<and> ex_delivery ex = Streamed \<and> ex_window ex = drop (length s - CARRY) s \<and>
     (ex_first_tool_call ex \<longleftrightarrow> sublist (uf_tool_call fmt) s)"

lemma has_watched_feed:
  assumes "format_ok fmt" and "has_watched fmt s ex"
  shows "has_watched fmt (s @ c) (snd (feed c ex))"
    and "first_tool_call (fst (feed c ex)) \<longleftrightarrow>
      sublist (uf_tool_call fmt) (s @ c) \<and> \<not> sublist (uf_tool_call fmt) s"
proof -
  obtain key where key: "uf_tool_call fmt = 34 # key" "length (34 # key) \<le> CARRY"
    using assms(1) by (auto simp: format_ok_def key_ok_def CARRY_def)
  note ex = assms(2) [unfolded has_watched_def]
  have st: "ex_delivery (fst (ex, nothing_seen)) = Streamed"
    "uf_tool_call (ex_format (fst (ex, nothing_seen))) = 34 # key"
    using ex key(1) by simp_all
  note scanned = scan_tool_call [OF st, of "ex_window ex @ c"]
  note window = sublist_window [OF key(2), of s c]
  have "has_watched fmt (s @ c) (snd (feed c ex)) \<and>
    (first_tool_call (fst (feed c ex)) \<longleftrightarrow> sublist (34 # key) (s @ c) \<and> \<not> sublist (34 # key) s)"
  proof (cases "c = []")
    case True
    then show ?thesis using ex by (simp add: feed_def has_watched_def nothing_seen_def)
  next
    case False
    have "ex_first_tool_call (snd (feed c ex)) \<longleftrightarrow> ex_first_tool_call (fst (scan (ex_window ex @ c) (ex, nothing_seen)))"
      "first_tool_call (fst (feed c ex)) \<longleftrightarrow> first_tool_call (snd (scan (ex_window ex @ c) (ex, nothing_seen)))"
      using False by (simp_all add: feed_def Let_def case_prod_beta)
    then show ?thesis
      using ex key(1) window scanned feed_simps(1,2) [of c ex] feed_simps(3) [OF False, of ex] window_step [of s CARRY c]
      by (auto simp: has_watched_def nothing_seen_def)
  qed
  then show "has_watched fmt (s @ c) (snd (feed c ex))"
    and "first_tool_call (fst (feed c ex)) \<longleftrightarrow>
      sublist (uf_tool_call fmt) (s @ c) \<and> \<not> sublist (uf_tool_call fmt) s"
    by (simp_all add: key(1))
qed

lemma has_watched_all:
  assumes "format_ok fmt" and "has_watched fmt s ex"
  shows "has_watched fmt (s @ concat chunks) (feed_all chunks ex)"
  using assms(2)
proof (induction chunks arbitrary: s ex)
  case (Cons c chunks)
  then show ?case
    using Cons.IH [OF has_watched_feed(1) [OF assms(1) Cons.prems, of c]] by (simp add: feed_all_def)
qed (simp add: feed_all_def)

lemma has_watched_new: "format_ok fmt \<Longrightarrow> has_watched fmt [] (extractor_new fmt Streamed)"
  by (auto simp: has_watched_def extractor_new_def format_ok_def key_ok_def)

section \<open>Properties\<close>

text \<open>
  C40. Whatever pieces a response arrives in, the usage read out of it is the one read from the whole: for
  each key the last number it states, and nothing unless both the input and the output are stated. Each
  number has to end within the bytes that are carried over from one piece to the next.
\<close>

theorem usage_ignores_the_pieces:
  assumes "format_for protocol = Some fmt" and "short_usage fmt (concat chunks)"
  shows "stated_usage (feed_all chunks (extractor_new fmt delivery)) =
    (case (last_count (uf_input fmt) (concat chunks), last_count (uf_output fmt) (concat chunks)) of
       (Some i, Some out) \<Rightarrow> Some \<lparr>us_input = i, us_output = out,
         us_cached = (case uf_cached fmt of Some key \<Rightarrow> last_count key (concat chunks) | None \<Rightarrow> None)\<rparr>
     | _ \<Rightarrow> None)"
  using has_read_all [OF format_for_ok [OF assms(1)], of "[]" chunks "extractor_new fmt delivery"]
    assms(2) has_read_new
  by (simp add: has_read_def stated_usage_def cong: option.case_cong)

text \<open>
  On a streamed response the first tool call is reported once, with the piece that completes the marker's
  first occurrence, wherever the pieces divide it.
\<close>

theorem tool_call_is_reported_once:
  assumes "format_for protocol = Some fmt"
  shows "first_tool_call (fst (feed chunk (feed_all chunks (extractor_new fmt Streamed)))) \<longleftrightarrow>
    sublist (uf_tool_call fmt) (concat chunks @ chunk) \<and> \<not> sublist (uf_tool_call fmt) (concat chunks)"
  using has_watched_feed(2) has_watched_all [of fmt "[]" "extractor_new fmt Streamed" chunks]
    has_watched_new format_for_ok [OF assms] by simp

definition stated_response :: bytes where
  "stated_response = u ''\"input_tokens\": 12,\"output_tokens\":345}''"

theorem usage_ignores_the_pieces_witness:
  "stated_usage (feed_all [take 20 stated_response, drop 20 stated_response] (extractor_new TYPESAFE_SYSTEMONE Document)) =
    Some \<lparr>us_input = 12, us_output = 345, us_cached = None\<rparr>"
proof -
  have short: "short_usage TYPESAFE_SYSTEMONE (concat [take 20 stated_response, drop 20 stated_response])"
    unfolding short_usage_def short_counts_def
    by (simp add: TYPESAFE_SYSTEMONE_def stated_response_def CARRY_def number_end_def blank_def is_ascii_digit_def upt_rec)
  have counts: "last_count (uf_input TYPESAFE_SYSTEMONE) (concat [take 20 stated_response, drop 20 stated_response]) = Some 12"
    "last_count (uf_output TYPESAFE_SYSTEMONE) (concat [take 20 stated_response, drop 20 stated_response]) = Some 345"
    "uf_cached TYPESAFE_SYSTEMONE = None"
    by (simp_all add: TYPESAFE_SYSTEMONE_def stated_response_def last_count_def count_at_def digits_at_def blank_def
        is_ascii_digit_def map_filter_simps upt_rec)
  have "format_for (u ''typesafe-systemone'') = Some TYPESAFE_SYSTEMONE" by (simp add: format_for_def)
  from usage_ignores_the_pieces [OF this short] show ?thesis by (simp only: counts) simp
qed

theorem tool_call_is_reported_once_witness:
  "first_tool_call (fst (feed (u ''calls\":['') (feed_all [u ''{\"tool_''] (extractor_new OPENAI_CHAT Streamed))))"
proof -
  have "format_for (u ''openai-chat'') = Some OPENAI_CHAT" by (simp add: format_for_def)
  from tool_call_is_reported_once [OF this, of "u ''calls\":[''" "[u ''{\"tool_'']"]
  show ?thesis
    by (simp add: OPENAI_CHAT_def sublist_Cons_right)
qed

text \<open>The extractor never holds more than the bytes it carries over.\<close>

theorem window_stays_small: "length (ex_window (feed_all chunks (extractor_new fmt delivery))) \<le> CARRY"
proof -
  have "length (ex_window (feed_all chunks ex)) \<le> CARRY" if "length (ex_window ex) \<le> CARRY" for ex
    using that
  proof (induction chunks arbitrary: ex)
    case (Cons c chunks)
    have "length (ex_window (snd (feed c ex))) \<le> CARRY"
    proof (cases "c = []")
      case True
      then show ?thesis using Cons.prems by (simp add: feed_def)
    qed (simp add: feed_simps)
    then show ?case using Cons.IH by (simp add: feed_all_def)
  qed (simp add: feed_all_def)
  then show ?thesis by (simp add: extractor_new_def)
qed

text \<open>
  The first text, unlike the first tool call, depends on the pieces: a text that stood before the first
  delta, and did not count, counts when it is scanned again with the next piece, even one without text.
\<close>

definition first_piece :: bytes where
  "first_piece = u ''\"text\":\"Hi\" \"text_delta\",\"text\":\" \"''"

theorem text_before_the_delta_counts_later:
  "first_text (fst (feed first_piece (extractor_new ANTHROPIC_MESSAGES Streamed))) = False \<and>
    first_text (fst (feed (u ''ping'') (feed_all [first_piece] (extractor_new ANTHROPIC_MESSAGES Streamed)))) = True \<and>
    first_text (fst (feed (first_piece @ u ''ping'') (extractor_new ANTHROPIC_MESSAGES Streamed))) = False"
  by code_simp

end
