(* ===== verification/Vocabulary.thy ===== *)
theory Vocabulary
  imports Text_Format
begin

text \<open>
  The fixed vocabularies of \<open>crates/glasshouse/src/guardrails/mod.rs\<close>. The macro \<open>vocabulary!\<close> gives
  every enumeration one spelling per variant and a reader that is its inverse: the locale states what the
  macro promises, and every enumeration is an interpretation of it.
\<close>

section \<open>The macro\<close>

definition stored_value :: "('a \<Rightarrow> rstr) \<Rightarrow> 'a list \<Rightarrow> rstr \<Rightarrow> 'a option" where
  "stored_value as_str variants value = List.find (\<lambda>v. as_str v = value) variants"

definition spellings :: "('a \<Rightarrow> rstr) \<Rightarrow> 'a list \<Rightarrow> rstr" where
  "spellings as_str variants = join_with (u '', '') (map (\<lambda>v. [96] @ as_str v @ [96]) variants)"

text \<open>A spelling and a reader of it that accepts exactly the spellings.\<close>

locale word_codec =
  fixes spell :: "'a \<Rightarrow> rstr" and unspell :: "rstr \<Rightarrow> 'a option"
  assumes reads_back: "unspell (spell v) = Some v"
    and only_spellings: "unspell w = Some v \<Longrightarrow> w = spell v"
begin

lemma unspell_iff: "unspell w = Some v \<longleftrightarrow> w = spell v"
  using reads_back only_spellings by auto

lemma spell_inject: "spell v = spell w \<longleftrightarrow> v = w"
  by (metis option.inject reads_back)

end

locale vocabulary =
  fixes variants :: "'a list" and as_str :: "'a \<Rightarrow> rstr" and from_stored :: "rstr \<Rightarrow> 'a option"
  assumes complete: "v \<in> set variants"
    and spelled_apart: "distinct (map as_str variants)"
    and reader: "from_stored value = stored_value as_str variants value"
begin

lemma as_str_inject: "as_str v = as_str w \<longleftrightarrow> v = w"
  using spelled_apart complete [of v] complete [of w] by (auto simp: distinct_map inj_on_def)

lemma round_trip: "from_stored (as_str v) = Some v"
proof -
  have "from_stored (as_str v) \<noteq> None"
    using complete [of v] by (auto simp: reader stored_value_def find_None_iff)
  then obtain w where "from_stored (as_str v) = Some w" by auto
  moreover from this have "as_str w = as_str v"
    by (auto simp: reader stored_value_def find_Some_iff)
  ultimately show ?thesis by (simp add: as_str_inject)
qed

lemma from_stored_iff: "from_stored value = Some v \<longleftrightarrow> value = as_str v"
  using round_trip [of v] by (auto simp: reader stored_value_def find_Some_iff)

lemma unknown_word: "from_stored value = None \<longleftrightarrow> (\<forall>v. value \<noteq> as_str v)"
  by (metis from_stored_iff not_None_eq)

end

text \<open>What the macro promises makes its words such a spelling.\<close>

sublocale vocabulary \<subseteq> word_codec as_str from_stored
  by unfold_locales (auto simp: from_stored_iff)

section \<open>The words\<close>

datatype assumption_state = Proposed | Probing | Supported | Refuted | Unresolved | WaivedByUser

definition ASSUMPTION_STATES :: "assumption_state list" where
  "ASSUMPTION_STATES = [Proposed, Probing, Supported, Refuted, Unresolved, WaivedByUser]"

definition state_str :: "assumption_state \<Rightarrow> rstr" where
  "state_str v =
     (case v of Proposed \<Rightarrow> u ''proposed''
        | Probing \<Rightarrow> u ''probing''
        | Supported \<Rightarrow> u ''supported''
        | Refuted \<Rightarrow> u ''refuted''
        | Unresolved \<Rightarrow> u ''unresolved''
        | WaivedByUser \<Rightarrow> u ''waived_by_user'')"

definition state_from_stored :: "rstr \<Rightarrow> assumption_state option" where
  "state_from_stored = stored_value state_str ASSUMPTION_STATES"

datatype evidence_source = Observed | UserRequirement | Repository | External | Experiment | Inference

definition EVIDENCE_SOURCES :: "evidence_source list" where
  "EVIDENCE_SOURCES = [Observed, UserRequirement, Repository, External, Experiment, Inference]"

definition evidence_str :: "evidence_source \<Rightarrow> rstr" where
  "evidence_str v =
     (case v of Observed \<Rightarrow> u ''observed''
        | UserRequirement \<Rightarrow> u ''user_requirement''
        | Repository \<Rightarrow> u ''repository''
        | External \<Rightarrow> u ''external''
        | Experiment \<Rightarrow> u ''experiment''
        | Inference \<Rightarrow> u ''inference'')"

definition evidence_from_stored :: "rstr \<Rightarrow> evidence_source option" where
  "evidence_from_stored = stored_value evidence_str EVIDENCE_SOURCES"

datatype uncertainty = LowUncertainty | MediumUncertainty | HighUncertainty

definition UNCERTAINTIES :: "uncertainty list" where
  "UNCERTAINTIES = [LowUncertainty, MediumUncertainty, HighUncertainty]"

definition uncertainty_str :: "uncertainty \<Rightarrow> rstr" where
  "uncertainty_str v =
     (case v of LowUncertainty \<Rightarrow> u ''low''
        | MediumUncertainty \<Rightarrow> u ''medium''
        | HighUncertainty \<Rightarrow> u ''high'')"

definition uncertainty_from_stored :: "rstr \<Rightarrow> uncertainty option" where
  "uncertainty_from_stored = stored_value uncertainty_str UNCERTAINTIES"

datatype transition_kind = TransitionRow | GateRow | OverrideRow | BudgetRow

definition TRANSITION_KINDS :: "transition_kind list" where
  "TRANSITION_KINDS = [TransitionRow, GateRow, OverrideRow, BudgetRow]"

definition kind_str :: "transition_kind \<Rightarrow> rstr" where
  "kind_str v =
     (case v of TransitionRow \<Rightarrow> u ''transition''
        | GateRow \<Rightarrow> u ''gate''
        | OverrideRow \<Rightarrow> u ''override''
        | BudgetRow \<Rightarrow> u ''budget_exceeded'')"

definition kind_from_stored :: "rstr \<Rightarrow> transition_kind option" where
  "kind_from_stored = stored_value kind_str TRANSITION_KINDS"

datatype origin = ByAgent | ByUser | ByGlasshouse

definition ORIGINS :: "origin list" where
  "ORIGINS = [ByAgent, ByUser, ByGlasshouse]"

definition origin_str :: "origin \<Rightarrow> rstr" where
  "origin_str v =
     (case v of ByAgent \<Rightarrow> u ''agent''
        | ByUser \<Rightarrow> u ''user''
        | ByGlasshouse \<Rightarrow> u ''glasshouse'')"

definition origin_from_stored :: "rstr \<Rightarrow> origin option" where
  "origin_from_stored = stored_value origin_str ORIGINS"

datatype guardrail_response = Inspect | Continue | Verify | Checkpoint | Handoff | RePlan | Stop

definition GUARDRAIL_RESPONSES :: "guardrail_response list" where
  "GUARDRAIL_RESPONSES = [Inspect, Continue, Verify, Checkpoint, Handoff, RePlan, Stop]"

definition response_str :: "guardrail_response \<Rightarrow> rstr" where
  "response_str v =
     (case v of Inspect \<Rightarrow> u ''inspect''
        | Continue \<Rightarrow> u ''continue''
        | Verify \<Rightarrow> u ''verify''
        | Checkpoint \<Rightarrow> u ''checkpoint''
        | Handoff \<Rightarrow> u ''handoff''
        | RePlan \<Rightarrow> u ''re-plan''
        | Stop \<Rightarrow> u ''stop'')"

definition response_from_stored :: "rstr \<Rightarrow> guardrail_response option" where
  "response_from_stored = stored_value response_str GUARDRAIL_RESPONSES"

datatype guardrail_mode = ModeOff | ModeAdvisory | ModeRiskGated

definition GUARDRAIL_MODES :: "guardrail_mode list" where
  "GUARDRAIL_MODES = [ModeOff, ModeAdvisory, ModeRiskGated]"

definition mode_str :: "guardrail_mode \<Rightarrow> rstr" where
  "mode_str v =
     (case v of ModeOff \<Rightarrow> u ''off''
        | ModeAdvisory \<Rightarrow> u ''advisory''
        | ModeRiskGated \<Rightarrow> u ''risk_gated'')"

definition mode_from_stored :: "rstr \<Rightarrow> guardrail_mode option" where
  "mode_from_stored = stored_value mode_str GUARDRAIL_MODES"

datatype blocking_category = BlockSecurity | BlockDestructive | BlockMigration | BlockDataIntegrity

definition BLOCKING_CATEGORIES :: "blocking_category list" where
  "BLOCKING_CATEGORIES = [BlockSecurity, BlockDestructive, BlockMigration, BlockDataIntegrity]"

definition category_str :: "blocking_category \<Rightarrow> rstr" where
  "category_str v =
     (case v of BlockSecurity \<Rightarrow> u ''security''
        | BlockDestructive \<Rightarrow> u ''destructive''
        | BlockMigration \<Rightarrow> u ''migration''
        | BlockDataIntegrity \<Rightarrow> u ''data_integrity'')"

definition category_from_stored :: "rstr \<Rightarrow> blocking_category option" where
  "category_from_stored = stored_value category_str BLOCKING_CATEGORIES"

datatype guardrail_override = Force | Skip | Lower

definition GUARDRAIL_OVERRIDES :: "guardrail_override list" where
  "GUARDRAIL_OVERRIDES = [Force, Skip, Lower]"

definition override_str :: "guardrail_override \<Rightarrow> rstr" where
  "override_str v =
     (case v of Force \<Rightarrow> u ''force''
        | Skip \<Rightarrow> u ''skip''
        | Lower \<Rightarrow> u ''lower'')"

definition override_from_stored :: "rstr \<Rightarrow> guardrail_override option" where
  "override_from_stored = stored_value override_str GUARDRAIL_OVERRIDES"

datatype risk_class = Trivial | Ordinary | Substantial

definition RISK_CLASSES :: "risk_class list" where
  "RISK_CLASSES = [Trivial, Ordinary, Substantial]"

definition class_str :: "risk_class \<Rightarrow> rstr" where
  "class_str v =
     (case v of Trivial \<Rightarrow> u ''trivial''
        | Ordinary \<Rightarrow> u ''ordinary''
        | Substantial \<Rightarrow> u ''substantial'')"

definition class_from_stored :: "rstr \<Rightarrow> risk_class option" where
  "class_from_stored = stored_value class_str RISK_CLASSES"

datatype risk_factor = Migration | Destructive | Security | DataIntegrity | UnfamiliarIntegration | Architecture | BroadRefactor | WideRadius | Irreversible | WeakPremise | Footprint

definition RISK_FACTORS :: "risk_factor list" where
  "RISK_FACTORS = [Migration, Destructive, Security, DataIntegrity, UnfamiliarIntegration, Architecture, BroadRefactor, WideRadius, Irreversible, WeakPremise, Footprint]"

definition factor_str :: "risk_factor \<Rightarrow> rstr" where
  "factor_str v =
     (case v of Migration \<Rightarrow> u ''migration''
        | Destructive \<Rightarrow> u ''destructive''
        | Security \<Rightarrow> u ''security''
        | DataIntegrity \<Rightarrow> u ''data_integrity''
        | UnfamiliarIntegration \<Rightarrow> u ''unfamiliar_integration''
        | Architecture \<Rightarrow> u ''architecture''
        | BroadRefactor \<Rightarrow> u ''broad_refactor''
        | WideRadius \<Rightarrow> u ''blast_radius''
        | Irreversible \<Rightarrow> u ''irreversible''
        | WeakPremise \<Rightarrow> u ''weak_premise''
        | Footprint \<Rightarrow> u ''footprint'')"

definition factor_from_stored :: "rstr \<Rightarrow> risk_factor option" where
  "factor_from_stored = stored_value factor_str RISK_FACTORS"

datatype verdict = Proceed | Advisory | Gated

definition VERDICTS :: "verdict list" where
  "VERDICTS = [Proceed, Advisory, Gated]"

definition verdict_str :: "verdict \<Rightarrow> rstr" where
  "verdict_str v =
     (case v of Proceed \<Rightarrow> u ''proceed''
        | Advisory \<Rightarrow> u ''advisory''
        | Gated \<Rightarrow> u ''gated'')"

definition verdict_from_stored :: "rstr \<Rightarrow> verdict option" where
  "verdict_from_stored = stored_value verdict_str VERDICTS"

datatype blast_radius = OnePlace | OneModule | CrossSubsystem | WholeSystem

definition BLAST_RADII :: "blast_radius list" where
  "BLAST_RADII = [OnePlace, OneModule, CrossSubsystem, WholeSystem]"

definition radius_str :: "blast_radius \<Rightarrow> rstr" where
  "radius_str v =
     (case v of OnePlace \<Rightarrow> u ''local''
        | OneModule \<Rightarrow> u ''module''
        | CrossSubsystem \<Rightarrow> u ''cross_subsystem''
        | WholeSystem \<Rightarrow> u ''system'')"

definition radius_from_stored :: "rstr \<Rightarrow> blast_radius option" where
  "radius_from_stored = stored_value radius_str BLAST_RADII"

datatype promotion_kind = ToDecision | ToConstraint | ToFinding

definition PROMOTION_KINDS :: "promotion_kind list" where
  "PROMOTION_KINDS = [ToDecision, ToConstraint, ToFinding]"

definition promotion_str :: "promotion_kind \<Rightarrow> rstr" where
  "promotion_str v =
     (case v of ToDecision \<Rightarrow> u ''decision''
        | ToConstraint \<Rightarrow> u ''constraint''
        | ToFinding \<Rightarrow> u ''finding'')"

definition promotion_from_stored :: "rstr \<Rightarrow> promotion_kind option" where
  "promotion_from_stored = stored_value promotion_str PROMOTION_KINDS"

datatype budget_axis = AxisFootprint | AxisToolRounds | AxisElapsedMinutes

definition BUDGET_AXES :: "budget_axis list" where
  "BUDGET_AXES = [AxisFootprint, AxisToolRounds, AxisElapsedMinutes]"

definition axis_str :: "budget_axis \<Rightarrow> rstr" where
  "axis_str v =
     (case v of AxisFootprint \<Rightarrow> u ''footprint''
        | AxisToolRounds \<Rightarrow> u ''tool_rounds''
        | AxisElapsedMinutes \<Rightarrow> u ''elapsed_minutes'')"

definition axis_from_stored :: "rstr \<Rightarrow> budget_axis option" where
  "axis_from_stored = stored_value axis_str BUDGET_AXES"

text \<open>The derived orders the code compares by: the constructors in their order.\<close>

definition risk_class_rank :: "risk_class \<Rightarrow> nat" where
  "risk_class_rank c = (case c of Trivial \<Rightarrow> 0 | Ordinary \<Rightarrow> 1 | Substantial \<Rightarrow> 2)"

instantiation risk_class :: linorder
begin

definition less_eq_risk_class :: "risk_class \<Rightarrow> risk_class \<Rightarrow> bool" where
  "less_eq_risk_class a b \<longleftrightarrow> risk_class_rank a \<le> risk_class_rank b"

definition less_risk_class :: "risk_class \<Rightarrow> risk_class \<Rightarrow> bool" where
  "less_risk_class a b \<longleftrightarrow> risk_class_rank a < risk_class_rank b"

instance
  by standard (auto simp: less_eq_risk_class_def less_risk_class_def risk_class_rank_def split: risk_class.splits)

end

definition verdict_rank :: "verdict \<Rightarrow> nat" where
  "verdict_rank v = (case v of Proceed \<Rightarrow> 0 | Advisory \<Rightarrow> 1 | Gated \<Rightarrow> 2)"

instantiation verdict :: linorder
begin

definition less_eq_verdict :: "verdict \<Rightarrow> verdict \<Rightarrow> bool" where
  "less_eq_verdict a b \<longleftrightarrow> verdict_rank a \<le> verdict_rank b"

definition less_verdict :: "verdict \<Rightarrow> verdict \<Rightarrow> bool" where
  "less_verdict a b \<longleftrightarrow> verdict_rank a < verdict_rank b"

instance
  by standard (auto simp: less_eq_verdict_def less_verdict_def verdict_rank_def split: verdict.splits)

end

definition blast_radius_rank :: "blast_radius \<Rightarrow> nat" where
  "blast_radius_rank r = (case r of OnePlace \<Rightarrow> 0 | OneModule \<Rightarrow> 1 | CrossSubsystem \<Rightarrow> 2 | WholeSystem \<Rightarrow> 3)"

instantiation blast_radius :: linorder
begin

definition less_eq_blast_radius :: "blast_radius \<Rightarrow> blast_radius \<Rightarrow> bool" where
  "less_eq_blast_radius a b \<longleftrightarrow> blast_radius_rank a \<le> blast_radius_rank b"

definition less_blast_radius :: "blast_radius \<Rightarrow> blast_radius \<Rightarrow> bool" where
  "less_blast_radius a b \<longleftrightarrow> blast_radius_rank a < blast_radius_rank b"

instance
  by standard (auto simp: less_eq_blast_radius_def less_blast_radius_def blast_radius_rank_def split: blast_radius.splits)

end

section \<open>The macro's promise, for every enumeration\<close>

lemma state_complete: "v \<in> set ASSUMPTION_STATES"
  by (cases v) (simp_all add: ASSUMPTION_STATES_def)

interpretation state_words: vocabulary ASSUMPTION_STATES state_str state_from_stored
  by (unfold_locales, rule state_complete) (simp_all add: ASSUMPTION_STATES_def state_str_def state_from_stored_def)

lemma evidence_complete: "v \<in> set EVIDENCE_SOURCES"
  by (cases v) (simp_all add: EVIDENCE_SOURCES_def)

interpretation evidence_words: vocabulary EVIDENCE_SOURCES evidence_str evidence_from_stored
  by (unfold_locales, rule evidence_complete) (simp_all add: EVIDENCE_SOURCES_def evidence_str_def evidence_from_stored_def)

lemma uncertainty_complete: "v \<in> set UNCERTAINTIES"
  by (cases v) (simp_all add: UNCERTAINTIES_def)

interpretation uncertainty_words: vocabulary UNCERTAINTIES uncertainty_str uncertainty_from_stored
  by (unfold_locales, rule uncertainty_complete) (simp_all add: UNCERTAINTIES_def uncertainty_str_def uncertainty_from_stored_def)

lemma kind_complete: "v \<in> set TRANSITION_KINDS"
  by (cases v) (simp_all add: TRANSITION_KINDS_def)

interpretation kind_words: vocabulary TRANSITION_KINDS kind_str kind_from_stored
  by (unfold_locales, rule kind_complete) (simp_all add: TRANSITION_KINDS_def kind_str_def kind_from_stored_def)

lemma origin_complete: "v \<in> set ORIGINS"
  by (cases v) (simp_all add: ORIGINS_def)

interpretation origin_words: vocabulary ORIGINS origin_str origin_from_stored
  by (unfold_locales, rule origin_complete) (simp_all add: ORIGINS_def origin_str_def origin_from_stored_def)

lemma response_complete: "v \<in> set GUARDRAIL_RESPONSES"
  by (cases v) (simp_all add: GUARDRAIL_RESPONSES_def)

interpretation response_words: vocabulary GUARDRAIL_RESPONSES response_str response_from_stored
  by (unfold_locales, rule response_complete) (simp_all add: GUARDRAIL_RESPONSES_def response_str_def response_from_stored_def)

lemma mode_complete: "v \<in> set GUARDRAIL_MODES"
  by (cases v) (simp_all add: GUARDRAIL_MODES_def)

interpretation mode_words: vocabulary GUARDRAIL_MODES mode_str mode_from_stored
  by (unfold_locales, rule mode_complete) (simp_all add: GUARDRAIL_MODES_def mode_str_def mode_from_stored_def)

lemma category_complete: "v \<in> set BLOCKING_CATEGORIES"
  by (cases v) (simp_all add: BLOCKING_CATEGORIES_def)

interpretation category_words: vocabulary BLOCKING_CATEGORIES category_str category_from_stored
  by (unfold_locales, rule category_complete) (simp_all add: BLOCKING_CATEGORIES_def category_str_def category_from_stored_def)

lemma override_complete: "v \<in> set GUARDRAIL_OVERRIDES"
  by (cases v) (simp_all add: GUARDRAIL_OVERRIDES_def)

interpretation override_words: vocabulary GUARDRAIL_OVERRIDES override_str override_from_stored
  by (unfold_locales, rule override_complete) (simp_all add: GUARDRAIL_OVERRIDES_def override_str_def override_from_stored_def)

lemma class_complete: "v \<in> set RISK_CLASSES"
  by (cases v) (simp_all add: RISK_CLASSES_def)

interpretation class_words: vocabulary RISK_CLASSES class_str class_from_stored
  by (unfold_locales, rule class_complete) (simp_all add: RISK_CLASSES_def class_str_def class_from_stored_def)

lemma factor_complete: "v \<in> set RISK_FACTORS"
  by (cases v) (simp_all add: RISK_FACTORS_def)

interpretation factor_words: vocabulary RISK_FACTORS factor_str factor_from_stored
  by (unfold_locales, rule factor_complete) (simp_all add: RISK_FACTORS_def factor_str_def factor_from_stored_def)

lemma verdict_complete: "v \<in> set VERDICTS"
  by (cases v) (simp_all add: VERDICTS_def)

interpretation verdict_words: vocabulary VERDICTS verdict_str verdict_from_stored
  by (unfold_locales, rule verdict_complete) (simp_all add: VERDICTS_def verdict_str_def verdict_from_stored_def)

lemma radius_complete: "v \<in> set BLAST_RADII"
  by (cases v) (simp_all add: BLAST_RADII_def)

interpretation radius_words: vocabulary BLAST_RADII radius_str radius_from_stored
  by (unfold_locales, rule radius_complete) (simp_all add: BLAST_RADII_def radius_str_def radius_from_stored_def)

lemma promotion_complete: "v \<in> set PROMOTION_KINDS"
  by (cases v) (simp_all add: PROMOTION_KINDS_def)

interpretation promotion_words: vocabulary PROMOTION_KINDS promotion_str promotion_from_stored
  by (unfold_locales, rule promotion_complete) (simp_all add: PROMOTION_KINDS_def promotion_str_def promotion_from_stored_def)

lemma axis_complete: "v \<in> set BUDGET_AXES"
  by (cases v) (simp_all add: BUDGET_AXES_def)

interpretation axis_words: vocabulary BUDGET_AXES axis_str axis_from_stored
  by (unfold_locales, rule axis_complete) (simp_all add: BUDGET_AXES_def axis_str_def axis_from_stored_def)

section \<open>Properties\<close>

text \<open>
  Every word of every vocabulary is read back as the variant that spells it, and nothing else is.
\<close>

theorem words_round_trip:
  "(state_from_stored word = Some v0 \<longleftrightarrow> word = state_str v0) \<and>
    (evidence_from_stored word = Some v1 \<longleftrightarrow> word = evidence_str v1) \<and>
    (uncertainty_from_stored word = Some v2 \<longleftrightarrow> word = uncertainty_str v2) \<and>
    (kind_from_stored word = Some v3 \<longleftrightarrow> word = kind_str v3) \<and>
    (origin_from_stored word = Some v4 \<longleftrightarrow> word = origin_str v4) \<and>
    (response_from_stored word = Some v5 \<longleftrightarrow> word = response_str v5) \<and>
    (mode_from_stored word = Some v6 \<longleftrightarrow> word = mode_str v6) \<and>
    (category_from_stored word = Some v7 \<longleftrightarrow> word = category_str v7) \<and>
    (override_from_stored word = Some v8 \<longleftrightarrow> word = override_str v8) \<and>
    (class_from_stored word = Some v9 \<longleftrightarrow> word = class_str v9) \<and>
    (factor_from_stored word = Some v10 \<longleftrightarrow> word = factor_str v10) \<and>
    (verdict_from_stored word = Some v11 \<longleftrightarrow> word = verdict_str v11) \<and>
    (radius_from_stored word = Some v12 \<longleftrightarrow> word = radius_str v12) \<and>
    (promotion_from_stored word = Some v13 \<longleftrightarrow> word = promotion_str v13) \<and>
    (axis_from_stored word = Some v14 \<longleftrightarrow> word = axis_str v14)"
  by (simp_all only: state_words.from_stored_iff evidence_words.from_stored_iff
    uncertainty_words.from_stored_iff kind_words.from_stored_iff origin_words.from_stored_iff
    response_words.from_stored_iff mode_words.from_stored_iff category_words.from_stored_iff
    override_words.from_stored_iff class_words.from_stored_iff factor_words.from_stored_iff
    verdict_words.from_stored_iff radius_words.from_stored_iff promotion_words.from_stored_iff
    axis_words.from_stored_iff simp_thms)

end
