(* ===== verification/Guardrails.thy ===== *)
theory Guardrails
  imports Vocabulary "HOL-Library.List_Lexorder"
begin

text \<open>
  The assumption guardrails of \<open>crates/glasshouse/src/guardrails/mod.rs\<close>: bounding untrusted text, the
  ladder that classifies an intended change, the verdict and what decided it, the prompts, the paths a
  rollback must not touch, the review of a budget, and the whole answer of a preflight.
\<close>

section \<open>Bounds on untrusted text\<close>

definition MAX_CLAIM_CHARS :: nat where "MAX_CLAIM_CHARS = 280"
definition MAX_FIELD_CHARS :: nat where "MAX_FIELD_CHARS = 600"
definition MAX_DESCRIPTION_CHARS :: nat where "MAX_DESCRIPTION_CHARS = 200"

record bounded =
  bo_text :: rstr
  bo_truncated :: bool

definition mapped_char :: "bool \<Rightarrow> uchar \<Rightarrow> uchar" where
  "mapped_char rewrite_brackets c =
     (if c = 91 \<and> rewrite_brackets then 40
      else if c = 93 \<and> rewrite_brackets then 41
      else if is_control c then 32
      else if c = 8232 \<or> c = 8233 then 32
      else if 8234 \<le> c \<and> c \<le> 8238 \<or> 8294 \<le> c \<and> c \<le> 8297 then 32
      else c)"

text \<open>The loop: what is written so far, whether a space is pending, how many characters were taken.\<close>

fun bound_from :: "nat \<Rightarrow> bool \<Rightarrow> rstr \<Rightarrow> bool \<Rightarrow> nat \<Rightarrow> rstr \<Rightarrow> rstr \<times> bool" where
  "bound_from budget rewrite_brackets out pending_space taken [] = (out, False)"
| "bound_from budget rewrite_brackets out pending_space taken (c # cs) =
     (let mapped = mapped_char rewrite_brackets c
      in if is_ws mapped then bound_from budget rewrite_brackets out (out \<noteq> []) taken cs
         else if taken = budget then (out, True)
         else bound_from budget rewrite_brackets (out @ (if pending_space then [32] else []) @ [mapped])
                False (taken + 1) cs)"

definition bound_text :: "rstr \<Rightarrow> nat \<Rightarrow> bool \<Rightarrow> bounded" where
  "bound_text t budget rewrite_brackets =
     (case bound_from budget rewrite_brackets [] False 0 t of
        (out, truncated) \<Rightarrow>
          \<lparr>bo_text = (if truncated then out @ [8230] else out), bo_truncated = truncated\<rparr>)"

definition sanitize :: "rstr \<Rightarrow> nat \<Rightarrow> bounded" where
  "sanitize t budget = bound_text t budget False"

definition quote_text :: "rstr \<Rightarrow> nat \<Rightarrow> rstr" where
  "quote_text t budget = bo_text (bound_text t budget True)"

section \<open>The change\<close>

record budget =
  bu_footprint :: "nat option"
  bu_tool_rounds :: "nat option"
  bu_elapsed_minutes :: "nat option"

definition axis_of :: "budget \<Rightarrow> budget_axis \<Rightarrow> nat option" where
  "axis_of b axis =
     (case axis of
        AxisFootprint \<Rightarrow> bu_footprint b
      | AxisToolRounds \<Rightarrow> bu_tool_rounds b
      | AxisElapsedMinutes \<Rightarrow> bu_elapsed_minutes b)"

record change_factors =
  cf_description :: "rstr option"
  cf_footprint :: nat
  cf_subsystems :: "rstr list"
  cf_reversible :: bool
  cf_blast_radius :: blast_radius
  cf_premise_evidence :: "evidence_source option"
  cf_security :: bool
  cf_data_integrity :: bool
  cf_migration :: bool
  cf_destructive :: bool
  cf_unfamiliar_integration :: bool
  cf_architecture :: bool
  cf_broad_refactor :: bool
  cf_budget :: "budget option"
  cf_spent :: "budget option"

definition default_change :: change_factors where
  "default_change =
     \<lparr>cf_description = None, cf_footprint = 1, cf_subsystems = [], cf_reversible = True,
      cf_blast_radius = OnePlace, cf_premise_evidence = None, cf_security = False,
      cf_data_integrity = False, cf_migration = False, cf_destructive = False,
      cf_unfamiliar_integration = False, cf_architecture = False, cf_broad_refactor = False,
      cf_budget = None, cf_spent = None\<rparr>"

definition TRIVIAL_MAX_FILES :: nat where "TRIVIAL_MAX_FILES = 2"
definition BROAD_MIN_FILES :: nat where "BROAD_MIN_FILES = 8"

definition factor_category :: "risk_factor \<Rightarrow> blocking_category option" where
  "factor_category f =
     (case f of
        Migration \<Rightarrow> Some BlockMigration
      | Destructive \<Rightarrow> Some BlockDestructive
      | Security \<Rightarrow> Some BlockSecurity
      | DataIntegrity \<Rightarrow> Some BlockDataIntegrity
      | _ \<Rightarrow> None)"

record classification =
  cl_class :: risk_class
  cl_factor :: "risk_factor option"

definition classify :: "change_factors \<Rightarrow> classification" where
  "classify c =
     (let substantial = (\<lambda>f. \<lparr>cl_class = Substantial, cl_factor = Some f\<rparr>);
          ordinary = (\<lambda>f. \<lparr>cl_class = Ordinary, cl_factor = Some f\<rparr>);
          weak_premise = (cf_premise_evidence c = Some Inference)
      in if cf_migration c then substantial Migration
         else if cf_destructive c then substantial Destructive
         else if cf_security c then substantial Security
         else if cf_data_integrity c then substantial DataIntegrity
         else if cf_unfamiliar_integration c then substantial UnfamiliarIntegration
         else if cf_architecture c then substantial Architecture
         else if cf_broad_refactor c \<or> cf_footprint c \<ge> BROAD_MIN_FILES then substantial BroadRefactor
         else if cf_blast_radius c \<ge> CrossSubsystem then substantial WideRadius
         else if \<not> cf_reversible c \<and> cf_footprint c > TRIVIAL_MAX_FILES then substantial Irreversible
         else if weak_premise \<and> (cf_blast_radius c \<ge> OneModule \<or> cf_footprint c > TRIVIAL_MAX_FILES)
         then substantial WeakPremise
         else if cf_footprint c \<le> TRIVIAL_MAX_FILES \<and> cf_reversible c \<and> cf_blast_radius c = OnePlace \<and>
                 \<not> weak_premise
         then \<lparr>cl_class = Trivial, cl_factor = None\<rparr>
         else if \<not> cf_reversible c then ordinary Irreversible
         else if weak_premise then ordinary WeakPremise
         else if cf_blast_radius c > OnePlace then ordinary WideRadius
         else ordinary Footprint)"

section \<open>The verdict\<close>

record applied_override =
  ao_kind :: guardrail_override
  ao_origin :: origin
  ao_seq :: nat

record policy =
  po_mode :: guardrail_mode
  po_mode_source :: rstr
  po_blocking :: "blocking_category list"
  po_blocking_source :: rstr
  po_override :: "applied_override option"

definition DEFAULT_BLOCKING :: "blocking_category list" where
  "DEFAULT_BLOCKING = [BlockSecurity, BlockDestructive, BlockMigration]"

definition default_policy :: policy where
  "default_policy =
     \<lparr>po_mode = ModeAdvisory, po_mode_source = u ''by default'', po_blocking = DEFAULT_BLOCKING,
      po_blocking_source = u ''by default'', po_override = None\<rparr>"

datatype decided_by = TrivialNeverGates | ByOverride guardrail_override | ByMode guardrail_mode

definition describe_decided :: "decided_by \<Rightarrow> rstr" where
  "describe_decided d =
     (case d of
        TrivialNeverGates \<Rightarrow> u ''trivial changes never gate''
      | ByOverride kind \<Rightarrow> u ''per-task override '' @ [96] @ u ''--guardrail '' @ override_str kind @ [96]
      | ByMode mode \<Rightarrow> u ''guardrails.mode = '' @ mode_str mode)"

record gate_decision =
  de_verdict :: verdict
  de_decided_by :: decided_by
  de_lifts :: "rstr option"

definition lifting_text :: "policy \<Rightarrow> rstr" where
  "lifting_text p =
     [96] @ u ''--guardrail skip'' @ [96] @ u '' or '' @ [96] @ u ''--guardrail lower'' @ [96] @
     u '' on this task, or '' @ [96] @ u ''guardrails.mode = advisory'' @ [96] @
     u '' in place of the mode set '' @ po_mode_source p"

definition decide :: "classification \<Rightarrow> policy \<Rightarrow> gate_decision" where
  "decide c p =
     (let no_gate = (\<lambda>v d. \<lparr>de_verdict = v, de_decided_by = d, de_lifts = None\<rparr>);
          gate = (\<lambda>d. \<lparr>de_verdict = Gated, de_decided_by = d, de_lifts = Some (lifting_text p)\<rparr>)
      in if cl_class c = Trivial then no_gate Proceed TrivialNeverGates
         else (case po_override p of
                 Some applied \<Rightarrow>
                   (let d = ByOverride (ao_kind applied)
                    in case ao_kind applied of
                         Skip \<Rightarrow> no_gate Proceed d
                       | Force \<Rightarrow> if cl_class c = Substantial then gate d else no_gate Advisory d
                       | Lower \<Rightarrow> if cl_class c = Substantial then no_gate Advisory d else no_gate Proceed d)
               | None \<Rightarrow>
                   (let d = ByMode (po_mode p)
                    in case po_mode p of
                         ModeOff \<Rightarrow> no_gate Proceed d
                       | ModeAdvisory \<Rightarrow> no_gate Advisory d
                       | ModeRiskGated \<Rightarrow>
                           if cl_class c = Substantial \<and>
                              (case Option.bind (cl_factor c) factor_category of
                                 Some category \<Rightarrow> category \<in> set (po_blocking p)
                               | None \<Rightarrow> False)
                           then gate d else no_gate Advisory d)))"

section \<open>The prompts\<close>

definition MAX_PROMPTS :: nat where "MAX_PROMPTS = 3"

record prompt =
  pr_key :: rstr
  pr_ask :: rstr

definition PROMPT_MIGRATION :: prompt where
  "PROMPT_MIGRATION =
     \<lparr>pr_key = u ''migration-undo'',
      pr_ask =
      u ''Which rows written by the previous build must this migration read correctly, and '' @
      u ''what is the exact undo?''\<rparr>"

definition PROMPT_DESTRUCTIVE :: prompt where
  "PROMPT_DESTRUCTIVE =
     \<lparr>pr_key = u ''destructive-loss'',
      pr_ask =
      u ''What is lost irreversibly, and what evidence says nothing still needs it?''\<rparr>"

definition PROMPT_SECURITY :: prompt where
  "PROMPT_SECURITY =
     \<lparr>pr_key = u ''security-boundary'',
      pr_ask =
      u ''Which trust boundary does the change cross, and what does an untrusted input look '' @
      u ''like at it?''\<rparr>"

definition PROMPT_DATA_INTEGRITY :: prompt where
  "PROMPT_DATA_INTEGRITY =
     \<lparr>pr_key = u ''data-invariant'',
      pr_ask =
      u ''Which invariant over stored data must hold afterwards, and how is it checked?''\<rparr>"

definition PROMPT_INTEGRATION :: prompt where
  "PROMPT_INTEGRATION =
     \<lparr>pr_key = u ''integration-behaviour'',
      pr_ask =
      u ''Which behaviour of the unfamiliar integration is assumed, and where is it '' @
      u ''documented or probed?''\<rparr>"

definition PROMPT_PREMISE :: prompt where
  "PROMPT_PREMISE =
     \<lparr>pr_key = u ''single-premise'',
      pr_ask =
      u ''Which single premise, if false, invalidates the whole change '' @
      [8212] @
      u '' and what is the cheapest probe of it?''\<rparr>"

definition PROMPT_WEAK_PREMISE :: prompt where
  "PROMPT_WEAK_PREMISE =
     \<lparr>pr_key = u ''inference-to-evidence'',
      pr_ask =
      u ''The premise is stated as inference: what direct evidence '' @
      [8212] @
      u '' source, test, schema, runtime '' @
      [8212] @
      u '' could replace it before the edit broadens?''\<rparr>"

definition PROMPT_IRREVERSIBLE :: prompt where
  "PROMPT_IRREVERSIBLE =
     \<lparr>pr_key = u ''undo-path'',
      pr_ask =
      u ''How would the change be undone if the premise fails after it lands?''\<rparr>"

definition PROMPT_BASELINE :: prompt where
  "PROMPT_BASELINE =
     \<lparr>pr_key = u ''baseline'',
      pr_ask =
      u ''What baseline distinguishes success from the pre-existing state?''\<rparr>"

definition push_prompt :: "prompt \<Rightarrow> prompt list \<Rightarrow> prompt list" where
  "push_prompt p chosen =
     (if length chosen < MAX_PROMPTS \<and> \<not> list_ex (\<lambda>q. pr_key q = pr_key p) chosen then chosen @ [p]
      else chosen)"

definition push_when :: "bool \<Rightarrow> prompt \<Rightarrow> prompt list \<Rightarrow> prompt list" where
  "push_when b p chosen = (if b then push_prompt p chosen else chosen)"

definition prompts :: "classification \<Rightarrow> change_factors \<Rightarrow> prompt list" where
  "prompts cl c =
     (if cl_class cl = Trivial then []
      else
        (let p1 = push_when (cf_migration c) PROMPT_MIGRATION [];
             p2 = push_when (cf_destructive c) PROMPT_DESTRUCTIVE p1;
             p3 = push_when (cf_security c) PROMPT_SECURITY p2;
             p4 = push_when (cf_data_integrity c) PROMPT_DATA_INTEGRITY p3;
             p5 = push_when (cf_unfamiliar_integration c) PROMPT_INTEGRATION p4;
             p6 = push_when (cf_premise_evidence c = Some Inference) PROMPT_WEAK_PREMISE p5;
             p7 = push_when (cf_architecture c \<or> cf_broad_refactor c \<or> cf_footprint c > TRIVIAL_MAX_FILES \<or>
                    cf_blast_radius c > OnePlace) PROMPT_PREMISE p6;
             p8 = push_when (\<not> cf_reversible c) PROMPT_IRREVERSIBLE p7
         in push_prompt PROMPT_BASELINE (push_prompt PROMPT_PREMISE p8)))"

section \<open>Guidance and responses\<close>

record guidance_line =
  gu_line :: nat
  gu_text :: rstr

definition GUIDANCE_CORE :: "guidance_line list" where
  "GUIDANCE_CORE =
     [\<lparr>gu_line = 997, gu_text =
      u ''Confidence, repetition, eloquence and the length of reasoning are presentation, not '' @
      u ''evidence.''\<rparr>,
      \<lparr>gu_line = 1009, gu_text =
      u ''A long plan is not a substitute for validating the few premises it depends on.''\<rparr>,
      \<lparr>gu_line = 1024, gu_text =
      u ''Prefer direct evidence '' @
      [8212] @
      u '' current requirements, source code, executable tests, configuration, schemas, '' @
      u ''runtime behaviour, primary documentation, a bounded experiment '' @
      [8212] @
      u '' over a narrative explanation.''\<rparr>,
      \<lparr>gu_line = 1027, gu_text =
      u ''Prefer a read-only inspection, a minimal reproduction, an executable probe, a '' @
      u ''failing test, a walking skeleton or a narrow vertical slice before a large '' @
      u ''implementation.''\<rparr>,
      \<lparr>gu_line = 1038, gu_text =
      u ''Prefer the smallest implementation slice that can confirm or falsify the approach.''\<rparr>,
      \<lparr>gu_line = 1028, gu_text =
      u ''Establish a baseline first where later success would otherwise be hard to tell from '' @
      u ''the pre-existing state.''\<rparr>,
      \<lparr>gu_line = 1029, gu_text =
      u ''Label an unresolved inference honestly as inference, and time-box exploratory work '' @
      u ''when direct verification is unavailable.''\<rparr>,
      \<lparr>gu_line = 1039, gu_text =
      u ''Re-run this preflight with '' @
      [96] @
      u ''spent'' @
      [96] @
      u '' beside '' @
      [96] @
      u ''budget'' @
      [96] @
      u '' when the planned footprint expands materially, a verification contradicts the '' @
      u ''premise, or the budget is exceeded '' @
      [8212] @
      u '' and re-evaluate the recorded assumptions then.''\<rparr>]"

definition GUIDANCE_SUBSTANTIAL :: "guidance_line list" where
  "GUIDANCE_SUBSTANTIAL =
     [\<lparr>gu_line = 1025, gu_text =
      u ''The higher the implementation cost, irreversibility, security impact, data risk or '' @
      u ''architectural blast radius, the stronger the evidence owed.''\<rparr>,
      \<lparr>gu_line = 1026, gu_text =
      u ''Verify the highest-leverage premise before broadening the edit across many files or '' @
      u ''subsystems, whenever verification is practical.''\<rparr>,
      \<lparr>gu_line = 1030, gu_text =
      u ''Do not ask a second model merely whether the first sounds correct: a verifier must '' @
      u ''cite independent repository, runtime, test or primary-source evidence.''\<rparr>,
      \<lparr>gu_line = 1031, gu_text =
      u ''For high-impact adversarial verification, a fresh session or a different harness '' @
      u ''buys independence; spend it when independence is worth its additional cost.''\<rparr>,
      \<lparr>gu_line = 1032, gu_text =
      u ''Reviewer agreement without new evidence is weak confirmation '' @
      [8212] @
      u '' different agents can share the same mistaken premise.''\<rparr>,
      \<lparr>gu_line = 1040, gu_text =
      u ''Pause expansion when you begin adding adapters, compatibility layers or secondary '' @
      u ''mechanisms mainly to protect an unverified premise.''\<rparr>,
      \<lparr>gu_line = 1041, gu_text =
      u ''When a critical premise is refuted, stop compounding the implementation and '' @
      u ''explicitly choose rollback, repair, re-plan, preserve as an experiment, or ask the user.''\<rparr>,
      \<lparr>gu_line = 1044, gu_text =
      u ''Before reverting anything, exclude every path the reply lists under preserve '' @
      [8212] @
      u '' another live session or the user owns it; Glasshouse names them and reverts nothing.''\<rparr>,
      \<lparr>gu_line = 1042, gu_text =
      u ''Preserve useful evidence and a concise failed-approach record even when the '' @
      u ''implementation itself is discarded.''\<rparr>,
      \<lparr>gu_line = 1043, gu_text =
      u ''Never silently rewrite the task history to make a failed premise appear as though '' @
      u ''it had always been understood correctly.''\<rparr>]"

definition guidance :: "risk_class \<Rightarrow> guidance_line list" where
  "guidance c =
     (case c of
        Trivial \<Rightarrow> []
      | Ordinary \<Rightarrow> GUIDANCE_CORE
      | Substantial \<Rightarrow> GUIDANCE_CORE @ GUIDANCE_SUBSTANTIAL)"

record response_option =
  ro_response :: guardrail_response
  ro_means :: rstr

definition RESPONSES :: "response_option list" where
  "RESPONSES =
     [\<lparr>ro_response = Inspect, ro_means =
      u ''read more before deciding '' @
      [8212] @
      u '' a read-only inspection of the premise''\<rparr>,
      \<lparr>ro_response = Continue, ro_means =
      u ''go on as planned with the assumptions as recorded''\<rparr>,
      \<lparr>ro_response = Verify, ro_means =
      u ''run the cheapest verification step now and record the result''\<rparr>,
      \<lparr>ro_response = Checkpoint, ro_means =
      u ''take a checkpoint before going further (take_checkpoint)''\<rparr>,
      \<lparr>ro_response = Handoff, ro_means =
      u ''hand the work to another session or harness, with a checkpoint''\<rparr>,
      \<lparr>ro_response = RePlan, ro_means =
      u ''re-plan from the premise that was refuted''\<rparr>,
      \<lparr>ro_response = Stop, ro_means =
      u ''stop and ask the person''\<rparr>]"

section \<open>What a rollback must not touch\<close>

definition PRESERVING_RESPONSES :: "guardrail_response list" where
  "PRESERVING_RESPONSES = [RePlan, Handoff]"

definition transition_wants_preserve ::
    "assumption_state option \<Rightarrow> guardrail_response option \<Rightarrow> bool" where
  "transition_wants_preserve state response \<longleftrightarrow>
     state = Some Refuted \<or>
     (case response of Some r \<Rightarrow> r \<in> set PRESERVING_RESPONSES | None \<Rightarrow> False)"

record file_claim =
  fc_session_id :: rstr
  fc_path :: rstr
  fc_claimed_at :: int
  fc_renewed_at :: int
  fc_expires_at :: int

record preserve_set =
  ps_claimed_elsewhere :: "rstr list"
  ps_unclaimed_changes :: "rstr list option"

definition sort_dedup :: "rstr list \<Rightarrow> rstr list" where
  "sort_dedup paths = remdups_adj (sort paths)"

definition preserve_paths :: "file_claim list \<Rightarrow> rstr list option \<Rightarrow> rstr \<Rightarrow> preserve_set" where
  "preserve_paths claims changed session =
     \<lparr>ps_claimed_elsewhere =
        sort_dedup (map fc_path (filter (\<lambda>claim. fc_session_id claim \<noteq> session) claims)),
      ps_unclaimed_changes =
        map_option
          (\<lambda>changed.
             let own = set (map fc_path (filter (\<lambda>claim. fc_session_id claim = session) claims))
             in sort_dedup (filter (\<lambda>path. path \<notin> own) changed))
          changed\<rparr>"

section \<open>The budget\<close>

record budget_line =
  bl_axis :: budget_axis
  bl_budget :: nat
  bl_spent :: nat
  bl_exceeded :: bool

record budget_review =
  br_exceeded :: bool
  br_axes :: "budget_line list"

definition exceeded_axis :: "budget_review \<Rightarrow> budget_axis option" where
  "exceeded_axis r = map_option bl_axis (List.find bl_exceeded (br_axes r))"

definition review_axis :: "budget \<Rightarrow> budget \<Rightarrow> budget_axis \<Rightarrow> budget_line option" where
  "review_axis stated spent axis =
     (case (axis_of stated axis, axis_of spent axis) of
        (Some bound, Some used) \<Rightarrow>
          Some \<lparr>bl_axis = axis, bl_budget = bound, bl_spent = used, bl_exceeded = used > bound\<rparr>
      | _ \<Rightarrow> None)"

definition review_budget :: "change_factors \<Rightarrow> budget_review option" where
  "review_budget c =
     (case (cf_budget c, cf_spent c) of
        (Some stated, Some spent) \<Rightarrow>
          (let axes = List.map_filter (review_axis stated spent) BUDGET_AXES
           in Some \<lparr>br_exceeded = list_ex bl_exceeded axes, br_axes = axes\<rparr>)
      | _ \<Rightarrow> None)"

section \<open>The preflight\<close>

record gate_origin =
  go_triggered :: bool
  go_decided_by :: rstr
  go_mode :: guardrail_mode
  go_mode_source :: rstr
  go_blocking :: "blocking_category list"
  go_override :: "applied_override option"
  go_lifts :: "rstr option"

record preflight_answer =
  pa_risk :: risk_class
  pa_factor :: "risk_factor option"
  pa_category :: "blocking_category option"
  pa_verdict :: verdict
  pa_gate :: gate_origin
  pa_prompts :: "prompt list"
  pa_guidance :: "guidance_line list"
  pa_responses :: "response_option list"
  pa_budget :: "budget_review option"

definition preflight :: "change_factors \<Rightarrow> policy \<Rightarrow> preflight_answer" where
  "preflight c p =
     (let cl = classify c;
          d = decide cl p;
          responses = (if de_verdict d = Proceed then [] else RESPONSES);
          waived = (de_verdict d = Proceed \<and> de_decided_by d = ByOverride Skip)
      in \<lparr>pa_risk = cl_class cl, pa_factor = cl_factor cl,
          pa_category = Option.bind (cl_factor cl) factor_category, pa_verdict = de_verdict d,
          pa_gate =
            \<lparr>go_triggered = (de_verdict d = Gated), go_decided_by = describe_decided (de_decided_by d),
             go_mode = po_mode p, go_mode_source = po_mode_source p, go_blocking = po_blocking p,
             go_override = po_override p, go_lifts = de_lifts d\<rparr>,
          pa_prompts = (if waived then [] else prompts cl c),
          pa_guidance = (if waived then [] else guidance (cl_class cl)),
          pa_responses = responses, pa_budget = review_budget c\<rparr>)"

section \<open>Facts about bounded text\<close>

text \<open>The loop on what the characters were mapped to: how many more may be taken, and what is written.\<close>

fun fill :: "bool \<Rightarrow> bool \<Rightarrow> nat \<Rightarrow> rstr \<Rightarrow> rstr \<times> bool" where
  "fill started pending k [] = ([], False)"
| "fill started pending k (m # ms) =
     (if is_ws m then fill started started k ms
      else if k = 0 then ([], True)
      else (case fill True False (k - 1) ms of
              (out, truncated) \<Rightarrow> ((if pending then [32] else []) @ [m] @ out, truncated)))"

lemma bound_from_fill:
  "taken \<le> budget \<Longrightarrow> bound_from budget rb out pending taken cs =
    (out @ fst (fill (out \<noteq> []) pending (budget - taken) (map (mapped_char rb) cs)),
     snd (fill (out \<noteq> []) pending (budget - taken) (map (mapped_char rb) cs)))"
  by (induction budget rb out pending taken cs rule: bound_from.induct)
    (auto simp: Let_def case_prod_beta)

definition ellipsis :: "bool \<Rightarrow> rstr" where
  "ellipsis truncated = (if truncated then [8230] else [])"

lemma bound_text_fill:
  "bound_text t budget rb =
    (case fill False False budget (map (mapped_char rb) t) of
       (out, truncated) \<Rightarrow> \<lparr>bo_text = out @ ellipsis truncated, bo_truncated = truncated\<rparr>)"
  by (simp add: bound_text_def bound_from_fill ellipsis_def case_prod_beta)

lemma fill_again:
  "(pending \<longrightarrow> started) \<Longrightarrow> fill started pending k ms = (out, truncated) \<Longrightarrow>
    fill started False k (out @ ellipsis truncated) = (out, truncated)"
proof (induction started pending k ms arbitrary: out truncated rule: fill.induct)
  case (2 started pending k m ms)
  have dots: "\<not> is_ws 8230" "is_ws 32" by (simp_all add: is_ws_def)
  show ?case
  proof (cases "is_ws m")
    case True
    then show ?thesis using 2 by simp
  next
    case False
    then show ?thesis
      using 2 dots by (auto simp: ellipsis_def split: if_splits prod.splits)
  qed
qed (auto simp: ellipsis_def)

lemma fill_facts:
  assumes "fill started pending k ms = (out, truncated)"
  shows "filter (\<lambda>c. \<not> is_ws c) out = take k (filter (\<lambda>c. \<not> is_ws c) ms)"
    and "truncated \<longleftrightarrow> k < length (filter (\<lambda>c. \<not> is_ws c) ms)"
    and "set out \<subseteq> insert 32 (set ms)"
    and "c \<in> set out \<Longrightarrow> is_ws c \<Longrightarrow> c = 32"
    and "out \<noteq> [] \<Longrightarrow> \<not> is_ws (last out) \<and> (\<not> pending \<longrightarrow> \<not> started \<or> \<not> is_ws (hd ms) \<longrightarrow> \<not> is_ws (hd out))"
  using assms
proof (induction started pending k ms arbitrary: out truncated rule: fill.induct)
  case (2 started pending k m ms)
  {
    case 1
    then show ?case using 2 by (cases k) (auto simp: is_ws_def [of 32] split: if_splits prod.splits)
  next
    case 2
    then show ?case using "2.IH"(2) "2.IH"(7) by (cases k) (auto split: if_splits prod.splits)
  next
    case 3
    then show ?case using "2.IH"(3) "2.IH"(8) by (fastforce split: if_splits prod.splits)
  next
    case 4
    then show ?case using "2.IH"(4) "2.IH"(9) by (fastforce split: if_splits prod.splits)
  next
    case 5
    then show ?case using "2.IH"(5) "2.IH"(10) by (fastforce split: if_splits prod.splits)
  }
qed auto

lemma fill_single_spaces: "successively (\<lambda>a b. \<not> (a = 32 \<and> b = 32)) (fst (fill started pending k ms))"
proof (induction started pending k ms rule: fill.induct)
  case (2 started pending k m ms)
  have "m \<noteq> 32" if "\<not> is_ws m" using that by (auto simp: is_ws_def)
  then show ?case using 2 by (auto simp: case_prod_beta successively_Cons)
qed simp

text \<open>What may not reach a terminal: controls, the separators, the characters that reorder a line.\<close>

definition acts_on_terminal :: "uchar \<Rightarrow> bool" where
  "acts_on_terminal c \<longleftrightarrow> is_control c \<or> c = 8232 \<or> c = 8233 \<or>
     8234 \<le> c \<and> c \<le> 8238 \<or> 8294 \<le> c \<and> c \<le> 8297"

lemma mapped_char_facts:
  "\<not> acts_on_terminal (mapped_char rb c)" "rb \<Longrightarrow> mapped_char rb c \<noteq> 91" "rb \<Longrightarrow> mapped_char rb c \<noteq> 93"
  "mapped_char rb (mapped_char rb c) = mapped_char rb c" "mapped_char rb 32 = 32" "mapped_char rb 8230 = 8230"
  by (auto simp: mapped_char_def acts_on_terminal_def is_control_def)

lemma mapped_image: "x \<in> mapped_char rb ` A \<Longrightarrow> mapped_char rb x = x"
  by (auto simp: mapped_char_facts)

section \<open>Facts about the ladder\<close>

lemma less_eq_rank [simp]:
  "(a :: risk_class) \<le> b \<longleftrightarrow> risk_class_rank a \<le> risk_class_rank b"
  "(v :: verdict) \<le> w \<longleftrightarrow> verdict_rank v \<le> verdict_rank w"
  by (simp_all add: less_eq_risk_class_def less_eq_verdict_def)

text \<open>When the ladder answers what.\<close>

lemma classify_substantial:
  "cl_class (classify c) = Substantial \<longleftrightarrow>
    cf_migration c \<or> cf_destructive c \<or> cf_security c \<or> cf_data_integrity c \<or> cf_unfamiliar_integration c \<or>
    cf_architecture c \<or> cf_broad_refactor c \<or> cf_footprint c \<ge> BROAD_MIN_FILES \<or>
    cf_blast_radius c \<ge> CrossSubsystem \<or> \<not> cf_reversible c \<and> cf_footprint c > TRIVIAL_MAX_FILES \<or>
    cf_premise_evidence c = Some Inference \<and>
      (cf_blast_radius c \<ge> OneModule \<or> cf_footprint c > TRIVIAL_MAX_FILES)"
  unfolding classify_def Let_def by (simp cong: if_cong)

lemma classify_trivial:
  "cl_class (classify c) = Trivial \<longleftrightarrow>
    cl_class (classify c) \<noteq> Substantial \<and> cf_footprint c \<le> TRIVIAL_MAX_FILES \<and> cf_reversible c \<and>
    cf_blast_radius c = OnePlace \<and> cf_premise_evidence c \<noteq> Some Inference"
  unfolding classify_def Let_def by (simp cong: if_cong)

lemma classify_category:
  "Option.bind (cl_factor (classify c)) factor_category =
    (if cf_migration c then Some BlockMigration else if cf_destructive c then Some BlockDestructive
     else if cf_security c then Some BlockSecurity else if cf_data_integrity c then Some BlockDataIntegrity
     else None)"
  unfolding classify_def Let_def by (simp add: factor_category_def)

lemma decide_gated:
  "de_verdict (decide c p) = Gated \<longleftrightarrow> cl_class c = Substantial \<and>
    (case po_override p of
       Some applied \<Rightarrow> ao_kind applied = Force
     | None \<Rightarrow> po_mode p = ModeRiskGated \<and>
         (case Option.bind (cl_factor c) factor_category of
            Some category \<Rightarrow> category \<in> set (po_blocking p) | None \<Rightarrow> False))"
  by (auto simp: decide_def Let_def split: option.splits guardrail_override.splits guardrail_mode.splits)

lemma decide_proceed:
  "de_verdict (decide c p) = Proceed \<longleftrightarrow> cl_class c = Trivial \<or>
    (case po_override p of
       Some applied \<Rightarrow> ao_kind applied = Skip \<or> ao_kind applied = Lower \<and> cl_class c \<noteq> Substantial
     | None \<Rightarrow> po_mode p = ModeOff)"
  by (auto simp: decide_def Let_def split: option.splits guardrail_override.splits guardrail_mode.splits)

text \<open>One change is at least as risky as another: every stated factor is.\<close>

definition riskier :: "change_factors \<Rightarrow> change_factors \<Rightarrow> bool" where
  "riskier c d \<longleftrightarrow>
     cf_footprint c \<le> cf_footprint d \<and> (cf_reversible d \<longrightarrow> cf_reversible c) \<and>
     cf_blast_radius c \<le> cf_blast_radius d \<and>
     (cf_premise_evidence c = Some Inference \<longrightarrow> cf_premise_evidence d = Some Inference) \<and>
     (cf_security c \<longrightarrow> cf_security d) \<and> (cf_data_integrity c \<longrightarrow> cf_data_integrity d) \<and>
     (cf_migration c \<longrightarrow> cf_migration d) \<and> (cf_destructive c \<longrightarrow> cf_destructive d) \<and>
     (cf_unfamiliar_integration c \<longrightarrow> cf_unfamiliar_integration d) \<and>
     (cf_architecture c \<longrightarrow> cf_architecture d) \<and> (cf_broad_refactor c \<longrightarrow> cf_broad_refactor d)"

lemma riskier_class:
  assumes "riskier c d"
  shows "cl_class (classify c) \<le> cl_class (classify d)"
proof -
  have "cl_class (classify d) = Substantial" if "cl_class (classify c) = Substantial"
    using that assms unfolding classify_substantial riskier_def by (auto intro: order_trans less_le_trans)
  moreover have "cl_class (classify c) = Trivial" if "cl_class (classify d) = Trivial"
  proof -
    have "cf_blast_radius c = OnePlace"
      using that assms by (cases "cf_blast_radius c")
        (auto simp: classify_trivial riskier_def less_eq_blast_radius_def blast_radius_rank_def)
    moreover have "cl_class (classify c) \<noteq> Substantial"
      using calculation that \<open>_ \<Longrightarrow> cl_class (classify d) = Substantial\<close> by (auto simp: classify_trivial [of d])
    ultimately show ?thesis
      using that assms by (auto simp: classify_trivial [of d] classify_trivial [of c] riskier_def)
  qed
  ultimately show ?thesis
    by (cases "cl_class (classify c)"; cases "cl_class (classify d)") (auto simp: risk_class_rank_def)
qed

definition few_prompts :: "prompt list \<Rightarrow> bool" where
  "few_prompts ps \<longleftrightarrow> length ps \<le> MAX_PROMPTS \<and> distinct (map pr_key ps)"

lemma few_prompts_push:
  "few_prompts []" "few_prompts ps \<Longrightarrow> few_prompts (push_prompt p ps)"
  "few_prompts ps \<Longrightarrow> few_prompts (push_when b p ps)"
  by (auto simp: few_prompts_def push_prompt_def push_when_def list_ex_iff)

lemma push_prompt_nonempty: "push_prompt p ps \<noteq> []"
  by (cases ps) (simp_all add: push_prompt_def MAX_PROMPTS_def)

lemma push_first:
  "chosen \<noteq> [] \<Longrightarrow> hd (push_prompt p chosen) = hd chosen \<and> push_prompt p chosen \<noteq> []"
  "chosen \<noteq> [] \<Longrightarrow> hd (push_when b p chosen) = hd chosen \<and> push_when b p chosen \<noteq> []"
  "push_when b p [] = (if b then [p] else [])" "push_prompt p [] = [p]"
  by (simp_all add: push_prompt_def push_when_def MAX_PROMPTS_def)

lemma sort_dedup_facts: "set (sort_dedup paths) = set paths" "sorted_wrt (<) (sort_dedup paths)"
proof -
  have "sorted xs \<Longrightarrow> sorted_wrt (<) (remdups_adj xs)" for xs :: "rstr list"
    by (induction xs rule: remdups_adj.induct) (auto simp: less_le)
  then show "sorted_wrt (<) (sort_dedup paths)" by (simp add: sort_dedup_def)
qed (simp add: sort_dedup_def)

section \<open>Properties\<close>

text \<open>
  When a change is gated: never a trivial or an ordinary one, and a substantial one only when the person
  forces it or, without an override, the mode is \<open>risk_gated\<close> and the first of its four blocking
  categories is configured to block. A gate says how it is lifted, and nothing else does.
\<close>

theorem gated_exactly_when:
  "(de_verdict (decide (classify c) p) = Gated \<longleftrightarrow>
      cl_class (classify c) = Substantial \<and>
      (case po_override p of
         Some applied \<Rightarrow> ao_kind applied = Force
       | None \<Rightarrow> po_mode p = ModeRiskGated \<and>
           (cf_migration c \<and> BlockMigration \<in> set (po_blocking p) \<or>
            \<not> cf_migration c \<and> cf_destructive c \<and> BlockDestructive \<in> set (po_blocking p) \<or>
            \<not> cf_migration c \<and> \<not> cf_destructive c \<and> cf_security c \<and> BlockSecurity \<in> set (po_blocking p) \<or>
            \<not> cf_migration c \<and> \<not> cf_destructive c \<and> \<not> cf_security c \<and> cf_data_integrity c \<and>
              BlockDataIntegrity \<in> set (po_blocking p)))) \<and>
   (de_lifts (decide (classify c) p) \<noteq> None \<longleftrightarrow> de_verdict (decide (classify c) p) = Gated)"
proof
  show "de_lifts (decide (classify c) p) \<noteq> None \<longleftrightarrow> de_verdict (decide (classify c) p) = Gated"
    by (auto simp: decide_def Let_def split: option.splits guardrail_override.splits guardrail_mode.splits)
qed (simp add: decide_gated classify_category split: option.split)

text \<open>
  C39. A change that states more risk is never classed lower, and with the shipped list of blocking categories
  its verdict is never milder.
\<close>

theorem more_risk_is_never_milder:
  assumes "riskier c d"
  shows "cl_class (classify c) \<le> cl_class (classify d) \<and>
    (set (po_blocking p) = set DEFAULT_BLOCKING \<longrightarrow>
      de_verdict (decide (classify c) p) \<le> de_verdict (decide (classify d) p))"
proof
  show lower: "cl_class (classify c) \<le> cl_class (classify d)" by (rule riskier_class [OF assms])
  show "set (po_blocking p) = set DEFAULT_BLOCKING \<longrightarrow>
      de_verdict (decide (classify c) p) \<le> de_verdict (decide (classify d) p)"
  proof
    assume blocking: "set (po_blocking p) = set DEFAULT_BLOCKING"
    have "de_verdict (decide (classify d) p) = Gated" if "de_verdict (decide (classify c) p) = Gated"
      using that assms lower unfolding decide_gated classify_category blocking DEFAULT_BLOCKING_def
      by (auto simp: riskier_def risk_class_rank_def split: option.splits if_splits risk_class.splits)
    moreover have "de_verdict (decide (classify c) p) = Proceed" if "de_verdict (decide (classify d) p) = Proceed"
      using that lower unfolding decide_proceed
      by (auto simp: risk_class_rank_def split: option.splits risk_class.splits)
    ultimately show "de_verdict (decide (classify c) p) \<le> de_verdict (decide (classify d) p)"
      by (auto simp: verdict_rank_def split: verdict.splits)
  qed
qed

theorem more_risk_is_never_milder_witness:
  "cl_class (classify default_change) \<le> cl_class (classify (default_change\<lparr>cf_security := True\<rparr>))"
  using more_risk_is_never_milder [of default_change "default_change\<lparr>cf_security := True\<rparr>" default_policy]
  by (simp add: riskier_def default_change_def)

text \<open>
  With another list it can be: only the first factor of the ladder is looked up, so a change that crosses
  a security boundary is gated when security blocks, and no longer once it also migrates data.
\<close>

theorem migration_hides_security:
  assumes "po_mode p = ModeRiskGated" and "po_override p = None" and "po_blocking p = [BlockSecurity]"
  shows "de_verdict (decide (classify (default_change\<lparr>cf_security := True\<rparr>)) p) = Gated \<and>
    de_verdict (decide (classify (default_change\<lparr>cf_security := True, cf_migration := True\<rparr>)) p) = Advisory"
  using assms by (simp add: decide_def classify_def default_change_def factor_category_def)

theorem migration_hides_security_witness:
  "de_verdict (decide (classify (default_change\<lparr>cf_security := True, cf_migration := True\<rparr>))
      (default_policy\<lparr>po_mode := ModeRiskGated, po_blocking := [BlockSecurity]\<rparr>)) = Advisory"
  using migration_hides_security [of "default_policy\<lparr>po_mode := ModeRiskGated, po_blocking := [BlockSecurity]\<rparr>"]
  by (simp add: default_policy_def)

text \<open>
  What bounding leaves of a text can stand in a terminal: no control or reordering character, single
  spaces between words and none at the ends, the first so many characters of the words in their order,
  three dots exactly when some are missing, and in a quoted text no square bracket.
\<close>

theorem bounded_text_is_clean:
  "let result = bound_text t limit rb; words = filter (\<lambda>c. \<not> is_ws c) (map (mapped_char rb) t)
   in (bo_truncated result \<longleftrightarrow> limit < length words) \<and>
     (\<exists>out. bo_text result = out @ (if bo_truncated result then [8230] else []) \<and>
       filter (\<lambda>c. \<not> is_ws c) out = take limit words \<and>
       list_all (\<lambda>c. is_ws c = (c = 32) \<and> \<not> acts_on_terminal c \<and> \<not> (rb \<and> (c = 91 \<or> c = 93))) out \<and>
       successively (\<lambda>a b. \<not> (a = 32 \<and> b = 32)) out \<and>
       \<not> (out \<noteq> [] \<and> (is_ws (hd out) \<or> is_ws (last out))))"
proof -
  obtain out truncated where filled: "fill False False limit (map (mapped_char rb) t) = (out, truncated)"
    by (cases "fill False False limit (map (mapped_char rb) t)")
  note facts = fill_facts [OF filled]
  have "is_ws c = (c = 32) \<and> \<not> acts_on_terminal c \<and> \<not> (rb \<and> (c = 91 \<or> c = 93))" if "c \<in> set out" for c
  proof (cases "c = 32")
    case True
    then show ?thesis by (simp add: is_ws_def acts_on_terminal_def is_control_def)
  next
    case False
    then show ?thesis using facts(3,4) that mapped_char_facts(1-3) by auto
  qed
  moreover have "successively (\<lambda>a b. \<not> (a = 32 \<and> b = 32)) out"
    using fill_single_spaces [of False False limit "map (mapped_char rb) t"] filled by simp
  ultimately show ?thesis
    using facts(1,2,5) filled
    by (auto simp: Let_def bound_text_fill ellipsis_def list_all_iff)
qed

text \<open>Bounding a bounded text again changes nothing.\<close>

theorem bounding_again_changes_nothing:
  "bound_text (bo_text (bound_text t limit rb)) limit rb = bound_text t limit rb"
proof -
  obtain out truncated where filled: "fill False False limit (map (mapped_char rb) t) = (out, truncated)"
    by (cases "fill False False limit (map (mapped_char rb) t)")
  have "set out \<subseteq> insert 32 (mapped_char rb ` set t)"
    using fill_facts(3) [OF filled] by simp
  then have "map (mapped_char rb) (out @ ellipsis truncated) = out @ ellipsis truncated"
    by (auto simp: map_idI ellipsis_def mapped_char_facts intro!: map_idI dest: subsetD)
  then show ?thesis
    using fill_again [OF _ filled] filled by (simp add: bound_text_fill)
qed

text \<open>
  The ceiling does not count spaces: a claim of single letters passes the limit of 280 characters with
  almost twice as many, though a claim over the limit is meant to be refused.
\<close>

theorem spaces_are_not_counted:
  "bo_truncated (sanitize (u ''a b c'') 3) = False \<and> length (bo_text (sanitize (u ''a b c'') 3)) = 5"
  by (simp add: sanitize_def bound_text_def mapped_char_def is_control_def is_ws_def)

text \<open>
  A preflight asks at most three questions, no two of them alike; none exactly when the change is trivial
  or the gate was waived; and the first is about the blocking factor when there is one.
\<close>

theorem prompts_are_few:
  "length (pa_prompts (preflight c p)) \<le> 3 \<and> distinct (map pr_key (pa_prompts (preflight c p))) \<and>
    (pa_prompts (preflight c p) = [] \<longleftrightarrow>
      cl_class (classify c) = Trivial \<or> (\<exists>ao. po_override p = Some ao \<and> ao_kind ao = Skip)) \<and>
    (pa_prompts (preflight c p) = [] \<or> pa_category (preflight c p) = None \<or>
      hd (pa_prompts (preflight c p)) =
        (case the (pa_category (preflight c p)) of
           BlockMigration \<Rightarrow> PROMPT_MIGRATION | BlockDestructive \<Rightarrow> PROMPT_DESTRUCTIVE
         | BlockSecurity \<Rightarrow> PROMPT_SECURITY | BlockDataIntegrity \<Rightarrow> PROMPT_DATA_INTEGRITY))"
proof -
  let ?ps = "prompts (classify c) c"
  have bounds: "few_prompts ?ps"
    by (simp add: prompts_def Let_def few_prompts_push)
  have empty: "?ps = [] \<longleftrightarrow> cl_class (classify c) = Trivial"
    by (simp add: prompts_def Let_def push_prompt_nonempty)
  have first: "?ps = [] \<or> hd ?ps = (if cf_migration c then PROMPT_MIGRATION else if cf_destructive c then PROMPT_DESTRUCTIVE
      else if cf_security c then PROMPT_SECURITY else if cf_data_integrity c then PROMPT_DATA_INTEGRITY else hd ?ps)"
    unfolding prompts_def Let_def by (simp add: push_first)
  have waived: "de_verdict (decide (classify c) p) = Proceed \<and> de_decided_by (decide (classify c) p) = ByOverride Skip \<longleftrightarrow>
      cl_class (classify c) \<noteq> Trivial \<and> (\<exists>ao. po_override p = Some ao \<and> ao_kind ao = Skip)"
    by (auto simp: decide_def Let_def split: option.splits guardrail_override.splits guardrail_mode.splits)
  show ?thesis
    using bounds empty first waived
    by (auto simp: preflight_def Let_def classify_category MAX_PROMPTS_def few_prompts_def split: if_splits)
qed

text \<open>
  What a rollback must not touch is exact: the paths other sessions hold, each once and sorted, and of the
  changed paths those the session does not hold itself, unknown exactly when the changes are.
\<close>

theorem preserved_paths:
  "set (ps_claimed_elsewhere (preserve_paths claims changed session)) =
      {fc_path claim |claim. claim \<in> set claims \<and> fc_session_id claim \<noteq> session} \<and>
    sorted_wrt (<) (ps_claimed_elsewhere (preserve_paths claims changed session)) \<and>
    (case ps_unclaimed_changes (preserve_paths claims changed session) of
       None \<Rightarrow> changed = None
     | Some paths \<Rightarrow> sorted_wrt (<) paths \<and>
         (\<exists>all. changed = Some all \<and> set paths =
           set all - {fc_path claim |claim. claim \<in> set claims \<and> fc_session_id claim = session}))"
proof -
  have "set (map fc_path (filter P claims)) = {fc_path claim |claim. claim \<in> set claims \<and> P claim}" for P
    by auto
  then show ?thesis
    by (cases changed) (auto simp: preserve_paths_def sort_dedup_facts Let_def)
qed

text \<open>
  A budget is exceeded exactly when some axis that both sides state is over its bound, and the axis that
  is named is the first of those.
\<close>

theorem budget_is_exceeded_when:
  assumes "review_budget c = Some r" and "cf_budget c = Some stated" and "cf_spent c = Some spent"
  shows "(br_exceeded r \<longleftrightarrow> (\<exists>axis bound used. axis_of stated axis = Some bound \<and> axis_of spent axis = Some used \<and> used > bound)) \<and>
    exceeded_axis r = List.find (\<lambda>axis. case (axis_of stated axis, axis_of spent axis) of
      (Some bound, Some used) \<Rightarrow> used > bound | _ \<Rightarrow> False) BUDGET_AXES"
proof -
  have r: "r = \<lparr>br_exceeded = list_ex bl_exceeded (List.map_filter (review_axis stated spent) BUDGET_AXES),
      br_axes = List.map_filter (review_axis stated spent) BUDGET_AXES\<rparr>"
    using assms by (simp add: review_budget_def Let_def)
  have "map_option bl_axis (List.find bl_exceeded (List.map_filter (review_axis stated spent) axes)) =
      List.find (\<lambda>axis. case (axis_of stated axis, axis_of spent axis) of
        (Some bound, Some used) \<Rightarrow> used > bound | _ \<Rightarrow> False) axes" for axes
    by (induction axes) (auto simp: map_filter_simps review_axis_def split: option.split)
  moreover have "list_ex bl_exceeded (List.map_filter (review_axis stated spent) axes) \<longleftrightarrow>
      (\<exists>axis\<in>set axes. \<exists>bound used. axis_of stated axis = Some bound \<and> axis_of spent axis = Some used \<and> used > bound)" for axes
    by (induction axes) (auto simp: map_filter_simps review_axis_def split: option.split)
  ultimately show ?thesis
    by (simp add: r exceeded_axis_def Bex_def axis_complete)
qed

theorem budget_is_exceeded_when_witness:
  "exceeded_axis (the (review_budget (default_change\<lparr>cf_budget := Some \<lparr>bu_footprint = Some 3, bu_tool_rounds = None, bu_elapsed_minutes = Some 10\<rparr>,
      cf_spent := Some \<lparr>bu_footprint = Some 3, bu_tool_rounds = Some 9, bu_elapsed_minutes = Some 11\<rparr>\<rparr>))) = Some AxisElapsedMinutes"
proof -
  let ?stated = "\<lparr>bu_footprint = Some 3, bu_tool_rounds = None, bu_elapsed_minutes = Some 10\<rparr>"
  let ?spent = "\<lparr>bu_footprint = Some 3, bu_tool_rounds = Some 9, bu_elapsed_minutes = Some 11\<rparr>"
  let ?c = "default_change\<lparr>cf_budget := Some ?stated, cf_spent := Some ?spent\<rparr>"
  obtain r where r: "review_budget ?c = Some r" by (simp add: review_budget_def Let_def)
  show ?thesis
    using budget_is_exceeded_when [OF r, of ?stated ?spent] r
    by (simp add: axis_of_def BUDGET_AXES_def)
qed

end
