(* ===== verification/Assumption_Ledger.thy ===== *)
theory Assumption_Ledger
  imports Guardrails "HOL-Library.Product_Lexorder"
begin

text \<open>
  The assumption ledger, \<open>crates/glasshouse/src/guardrails/store.rs\<close>, and the preflight of
  \<open>crates/glasshouse/src/api/unix/assumptions.rs\<close> that reads and writes it. The two tables are the lists
  of their rows in the order they were inserted in; a statement is what it does to the lists, and a call
  is one transaction. The columns that hold a word of a vocabulary are kept as its variant, for every
  word is read back as the variant that was written (\<open>words_round_trip\<close>). The clock and the random
  identifier are arguments; an input or output error of the database leaves it as it was.
\<close>

section \<open>Rows\<close>

record retention =
  re_max_age_secs :: int
  re_max_rows :: int
  re_trim_every :: int

definition DEFAULT_RETENTION :: retention where
  "DEFAULT_RETENTION = \<lparr>re_max_age_secs = 90 * 24 * 60 * 60, re_max_rows = 100000, re_trim_every = 256\<rparr>"

datatype guardrail_error =
    UnboundDatabase
  | EmptyClaim
  | ClaimTooLong nat
  | MalformedId rstr
  | NotFound rstr
  | Ambiguous rstr
  | UnknownValue rstr rstr rstr
  | WaiverNeedsUser
  | NotSupported rstr assumption_state
  | NotRefuted assumption_state
  | Sql rstr

record new_assumption =
  na_session :: "rstr option"
  na_claim :: rstr
  na_evidence :: rstr
  na_evidence_source :: evidence_source
  na_uncertainty :: uncertainty
  na_affected :: rstr
  na_verification :: rstr
  na_origin :: origin

record assumption_record =
  ar_id :: rstr
  ar_session_id :: "rstr option"
  ar_created_at :: int
  ar_origin :: origin
  ar_claim :: rstr
  ar_evidence :: rstr
  ar_evidence_source :: evidence_source
  ar_uncertainty :: uncertainty
  ar_affected :: rstr
  ar_verification :: rstr

record transition =
  tr_seq :: nat
  tr_assumption_id :: "rstr option"
  tr_session_id :: "rstr option"
  tr_at :: int
  tr_kind :: transition_kind
  tr_state :: "assumption_state option"
  tr_origin :: origin
  tr_subject :: "rstr option"
  tr_response :: "guardrail_response option"
  tr_note :: "rstr option"

record assumption_view =
  av_record :: assumption_record
  av_state :: assumption_state
  av_latest :: transition
  av_transitions :: nat

definition is_open :: "assumption_view \<Rightarrow> bool" where
  "is_open v \<longleftrightarrow> av_state v = Proposed \<or> av_state v = Probing \<or> av_state v = Unresolved"

record new_transition =
  nt_state :: "assumption_state option"
  nt_origin :: origin
  nt_note :: "rstr option"
  nt_response :: "guardrail_response option"
  nt_subject :: "rstr option"

definition to_state :: "assumption_state \<Rightarrow> origin \<Rightarrow> new_transition" where
  "to_state state origin =
     \<lparr>nt_state = Some state, nt_origin = origin, nt_note = None, nt_response = None, nt_subject = None\<rparr>"

definition restate :: "origin \<Rightarrow> new_transition" where
  "restate origin =
     \<lparr>nt_state = None, nt_origin = origin, nt_note = None, nt_response = None, nt_subject = None\<rparr>"

record notification =
  no_transition :: transition
  no_claim :: "rstr option"

text \<open>The database: both tables, and the highest number the transitions were ever given.\<close>

record ledger =
  le_retention :: retention
  le_assumptions :: "assumption_record list"
  le_transitions :: "transition list"
  le_sequence :: nat

definition empty_ledger :: "retention \<Rightarrow> ledger" where
  "empty_ledger r = \<lparr>le_retention = r, le_assumptions = [], le_transitions = [], le_sequence = 0\<rparr>"

section \<open>Appending and trimming\<close>

text \<open>The row is given without its number, which the table assigns.\<close>

definition append_within :: "transition \<Rightarrow> ledger \<Rightarrow> nat \<times> ledger" where
  "append_within row l =
     (let seq = le_sequence l + 1
      in (seq, l\<lparr>le_transitions := le_transitions l @ [row\<lparr>tr_seq := seq\<rparr>], le_sequence := seq\<rparr>))"

definition saturating_sub64 :: "int \<Rightarrow> int \<Rightarrow> int" where
  "saturating_sub64 a b = max (- (2 ^ 63)) (min (2 ^ 63 - 1) (a - b))"

definition trim_within :: "int \<Rightarrow> ledger \<Rightarrow> nat \<times> ledger" where
  "trim_within now l =
     (let cutoff = saturating_sub64 now (re_max_age_secs (le_retention l));
          young = filter (\<lambda>t. \<not> tr_at t < cutoff) (le_transitions l);
          excess = int (length young) - re_max_rows (le_retention l);
          kept = (if excess > 0 then drop (nat excess) young else young);
          assumptions = filter (\<lambda>a. list_ex (\<lambda>t. tr_assumption_id t = Some (ar_id a)) kept) (le_assumptions l)
      in (length (le_transitions l) - length kept + (length (le_assumptions l) - length assumptions),
          l\<lparr>le_transitions := kept, le_assumptions := assumptions\<rparr>))"

definition maybe_trim :: "nat \<Rightarrow> int \<Rightarrow> ledger \<Rightarrow> ledger" where
  "maybe_trim seq now l =
     (if int seq mod max (re_trim_every (le_retention l)) 1 = 0 then snd (trim_within now l) else l)"

section \<open>Reading one assumption\<close>

text \<open>The row of the highest number, which the join takes.\<close>

definition rows_of :: "rstr \<Rightarrow> ledger \<Rightarrow> transition list" where
  "rows_of i l = filter (\<lambda>t. tr_assumption_id t = Some i) (le_transitions l)"

definition latest_row :: "rstr \<Rightarrow> ledger \<Rightarrow> transition option" where
  "latest_row i l =
     (if rows_of i l = [] then None
      else List.find (\<lambda>t. tr_seq t = Max (set (map tr_seq (rows_of i l)))) (le_transitions l))"

text \<open>An assumption joined with its latest transition; the column of the state is never empty there.\<close>

definition view_of :: "ledger \<Rightarrow> assumption_record \<Rightarrow> assumption_view option" where
  "view_of l a =
     (case latest_row (ar_id a) l of
        None \<Rightarrow> None
      | Some t \<Rightarrow> map_option
          (\<lambda>state. \<lparr>av_record = a, av_state = state, av_latest = t,
             av_transitions = length (rows_of (ar_id a) l)\<rparr>) (tr_state t))"

definition current_view :: "rstr \<Rightarrow> ledger \<Rightarrow> assumption_view option" where
  "current_view i l = Option.bind (List.find (\<lambda>a. ar_id a = i) (le_assumptions l)) (view_of l)"

definition read_transition :: "nat \<Rightarrow> ledger \<Rightarrow> transition option" where
  "read_transition seq l = List.find (\<lambda>t. tr_seq t = seq) (le_transitions l)"

section \<open>Writing\<close>

definition field_text :: "rstr \<Rightarrow> rstr" where
  "field_text t = bo_text (sanitize t MAX_FIELD_CHARS)"

definition note_text :: "rstr option \<Rightarrow> rstr option" where
  "note_text note =
     (case map_option field_text note of Some t \<Rightarrow> if t = [] then None else Some t | None \<Rightarrow> None)"

definition filter_option :: "('a \<Rightarrow> bool) \<Rightarrow> 'a option \<Rightarrow> 'a option" where
  "filter_option P x = (case x of Some a \<Rightarrow> if P a then Some a else None | None \<Rightarrow> None)"

definition record_assumption ::
    "rstr \<Rightarrow> int \<Rightarrow> new_assumption \<Rightarrow> ledger \<Rightarrow> (guardrail_error + assumption_record) \<times> ledger" where
  "record_assumption i now new l =
     (let claim = sanitize (na_claim new) MAX_CLAIM_CHARS
      in if bo_truncated claim then (Inl (ClaimTooLong MAX_CLAIM_CHARS), l)
         else if bo_text claim = [] then (Inl EmptyClaim, l)
         else
           (let r = \<lparr>ar_id = i, ar_session_id = filter_option (\<lambda>s. trim s \<noteq> []) (na_session new),
                     ar_created_at = now, ar_origin = na_origin new, ar_claim = bo_text claim,
                     ar_evidence = field_text (na_evidence new), ar_evidence_source = na_evidence_source new,
                     ar_uncertainty = na_uncertainty new, ar_affected = field_text (na_affected new),
                     ar_verification = field_text (na_verification new)\<rparr>
            in if list_ex (\<lambda>a. ar_id a = i) (le_assumptions l) then (Inl (Sql (u ''record an assumption'')), l)
               else
                 (case append_within
                    \<lparr>tr_seq = 0, tr_assumption_id = Some i, tr_session_id = ar_session_id r, tr_at = now,
                     tr_kind = TransitionRow, tr_state = Some Proposed, tr_origin = ar_origin r,
                     tr_subject = None, tr_response = None, tr_note = None\<rparr>
                    (l\<lparr>le_assumptions := le_assumptions l @ [r]\<rparr>) of
                    (seq, l') \<Rightarrow> (Inr r, maybe_trim seq now l'))))"

definition append_transition ::
    "rstr \<Rightarrow> int \<Rightarrow> new_transition \<Rightarrow> ledger \<Rightarrow> (guardrail_error + transition) \<times> ledger" where
  "append_transition i now new l =
     (if nt_state new = Some WaivedByUser \<and> nt_origin new \<noteq> ByUser then (Inl WaiverNeedsUser, l)
      else
        (case current_view i l of
           None \<Rightarrow> (Inl (NotFound i), l)
         | Some current \<Rightarrow>
             (let state = (case nt_state new of Some s \<Rightarrow> s | None \<Rightarrow> av_state current)
              in case append_within
                   \<lparr>tr_seq = 0, tr_assumption_id = Some i, tr_session_id = ar_session_id (av_record current),
                    tr_at = now, tr_kind = TransitionRow, tr_state = Some state, tr_origin = nt_origin new,
                    tr_subject = nt_subject new, tr_response = nt_response new,
                    tr_note = note_text (nt_note new)\<rparr> l of
                   (seq, l') \<Rightarrow>
                     (case read_transition seq (maybe_trim seq now l') of
                        Some written \<Rightarrow> (Inr written, maybe_trim seq now l')
                      | None \<Rightarrow> (Inl (Sql (u ''read back a transition'')), l)))))"

definition record_session_event ::
    "int \<Rightarrow> rstr \<Rightarrow> transition_kind \<Rightarrow> assumption_state option \<Rightarrow> origin \<Rightarrow> rstr option \<Rightarrow> rstr option \<Rightarrow>
     ledger \<Rightarrow> (guardrail_error + transition) \<times> ledger" where
  "record_session_event now session k state origin subject note l =
     (case append_within
        \<lparr>tr_seq = 0, tr_assumption_id = None, tr_session_id = Some session, tr_at = now, tr_kind = k,
         tr_state = state, tr_origin = origin, tr_subject = subject, tr_response = None,
         tr_note = note_text note\<rparr> l of
        (seq, l') \<Rightarrow>
          (case read_transition seq (maybe_trim seq now l') of
             Some written \<Rightarrow> (Inr written, maybe_trim seq now l')
           | None \<Rightarrow> (Inl (Sql (u ''read back a transition'')), l)))"

definition record_override ::
    "int \<Rightarrow> rstr \<Rightarrow> guardrail_override \<Rightarrow> origin \<Rightarrow> ledger \<Rightarrow> (guardrail_error + transition) \<times> ledger" where
  "record_override now session k origin l =
     record_session_event now session OverrideRow (if k = Skip then Some WaivedByUser else None) origin
       (Some (override_str k)) None l"

section \<open>Queries\<close>

definition resolve_id :: "rstr \<Rightarrow> ledger \<Rightarrow> (guardrail_error + rstr)" where
  "resolve_id given l =
     (let prefix = trim given
      in if prefix = [] \<or> \<not> list_all (\<lambda>c. is_ascii_digit c \<or> 65 \<le> c \<and> c \<le> 70 \<or> 97 \<le> c \<and> c \<le> 102) prefix
         then Inl (MalformedId prefix)
         else (case take 2 (filter (\<lambda>i. starts_with (map ascii_lower i) (map ascii_lower prefix))
                      (map ar_id (le_assumptions l))) of
                 [] \<Rightarrow> Inl (NotFound prefix)
               | [one] \<Rightarrow> Inr one
               | _ \<Rightarrow> Inl (Ambiguous prefix)))"

definition views_of :: "rstr option \<Rightarrow> ledger \<Rightarrow> assumption_view list" where
  "views_of session l =
     List.map_filter (view_of l)
       (filter (\<lambda>a. case session of None \<Rightarrow> True | Some s \<Rightarrow> ar_session_id a = Some s) (le_assumptions l))"

definition oldest_first :: "assumption_view list \<Rightarrow> assumption_view list" where
  "oldest_first views = sort_key (\<lambda>v. (ar_created_at (av_record v), ar_id (av_record v))) views"

definition list_views :: "rstr option \<Rightarrow> nat \<Rightarrow> ledger \<Rightarrow> assumption_view list" where
  "list_views session limit l = take limit (rev (oldest_first (views_of session l)))"

definition open_for_session :: "rstr \<Rightarrow> ledger \<Rightarrow> assumption_view list" where
  "open_for_session session l = oldest_first (filter is_open (views_of (Some session) l))"

definition history :: "rstr \<Rightarrow> ledger \<Rightarrow> transition list" where
  "history i l = sort_key tr_seq (rows_of i l)"

definition session_events :: "rstr \<Rightarrow> transition_kind option \<Rightarrow> nat \<Rightarrow> ledger \<Rightarrow> transition list" where
  "session_events session k limit l =
     take limit (rev (sort_key tr_seq
       (filter (\<lambda>t. tr_session_id t = Some session \<and> tr_assumption_id t = None \<and>
          (case k of None \<Rightarrow> True | Some kind \<Rightarrow> tr_kind t = kind)) (le_transitions l))))"

definition latest_override ::
    "rstr \<Rightarrow> ledger \<Rightarrow> (guardrail_error + (guardrail_override \<times> transition) option)" where
  "latest_override session l =
     (case session_events session (Some OverrideRow) 1 l of
        [] \<Rightarrow> Inr None
      | row # _ \<Rightarrow>
          (let subject = (case tr_subject row of Some s \<Rightarrow> s | None \<Rightarrow> [])
           in case override_from_stored subject of
                None \<Rightarrow> Inl (UnknownValue (u ''transition '' @ decimal (tr_seq row)) (u ''subject'') subject)
              | Some k \<Rightarrow> Inr (Some (k, row))))"

definition notifications :: "rstr option \<Rightarrow> nat \<Rightarrow> nat \<Rightarrow> ledger \<Rightarrow> notification list" where
  "notifications session after limit l =
     take limit (map
       (\<lambda>t. \<lparr>no_transition = t,
          no_claim = Option.bind (tr_assumption_id t)
            (\<lambda>i. map_option ar_claim (List.find (\<lambda>a. ar_id a = i) (le_assumptions l)))\<rparr>)
       (sort_key tr_seq
         (filter (\<lambda>t. tr_seq t > after \<and>
            (case session of None \<Rightarrow> True | Some s \<Rightarrow> tr_session_id t = Some s) \<and>
            (tr_kind t = TransitionRow \<and> tr_state t = Some Refuted \<or> tr_kind t = BudgetRow))
           (le_transitions l))))"

definition ledger_head :: "ledger \<Rightarrow> nat" where
  "ledger_head l = (if le_transitions l = [] then 0 else Max (set (map tr_seq (le_transitions l))))"

definition state_counts :: "rstr option \<Rightarrow> ledger \<Rightarrow> (assumption_state \<times> nat) list" where
  "state_counts session l =
     map (\<lambda>state. (state, length (filter (\<lambda>v. av_state v = state) (views_of session l)))) ASSUMPTION_STATES"

section \<open>The preflight of a session\<close>

text \<open>
  The answer of \<open>Request::Preflight\<close>: the configured policy takes the session's override, the gate is
  recorded, an exceeded budget is recorded and brings the open assumptions back. Whether a checkpoint is
  taken afterwards is part of the reply; taking it is not.
\<close>

record preflight_reply =
  rp_answer :: preflight_answer
  rp_description :: "rstr option"
  rp_gate_seq :: "nat option"
  rp_budget_seq :: "nat option"
  rp_re_evaluate :: "assumption_view list option"
  rp_checkpoint :: bool

definition description_text :: "change_factors \<Rightarrow> rstr option" where
  "description_text c =
     filter_option (\<lambda>t. t \<noteq> [])
       (map_option (\<lambda>t. bo_text (sanitize t MAX_DESCRIPTION_CHARS)) (cf_description c))"

definition gate_subject :: "preflight_answer \<Rightarrow> rstr" where
  "gate_subject a =
     class_str (pa_risk a) @ u ''/'' @
     (case pa_factor a of Some f \<Rightarrow> factor_str f | None \<Rightarrow> u ''none'') @ u ''/'' @ verdict_str (pa_verdict a)"

definition budget_note :: "budget_review \<Rightarrow> rstr" where
  "budget_note r =
     join_with (u ''; '') (map (\<lambda>line. axis_str (bl_axis line) @ u '': spent '' @ decimal (bl_spent line) @
       u '' of '' @ decimal (bl_budget line)) (filter bl_exceeded (br_axes r)))"

definition policy_for :: "policy \<Rightarrow> (guardrail_override \<times> transition) option \<Rightarrow> policy" where
  "policy_for configured applied =
     (case applied of
        None \<Rightarrow> configured
      | Some (k, row) \<Rightarrow>
          configured\<lparr>po_override := Some \<lparr>ao_kind = k, ao_origin = tr_origin row, ao_seq = tr_seq row\<rparr>\<rparr>)"

definition preflight_in_session ::
    "int \<Rightarrow> int \<Rightarrow> policy \<Rightarrow> rstr \<Rightarrow> change_factors \<Rightarrow> ledger \<Rightarrow>
     (guardrail_error + preflight_reply) \<times> ledger" where
  "preflight_in_session gate_at budget_at configured session c l =
     (case latest_override session l of
        Inl e \<Rightarrow> (Inl e, l)
      | Inr applied \<Rightarrow>
          (let p = policy_for configured applied; a = preflight c p;
               reply = \<lparr>rp_answer = a, rp_description = description_text c, rp_gate_seq = None,
                 rp_budget_seq = None, rp_re_evaluate = None,
                 rp_checkpoint = (pa_risk a = Substantial \<and> po_mode p \<noteq> ModeOff)\<rparr>
           in case record_session_event gate_at session GateRow None ByGlasshouse (Some (gate_subject a))
                     (description_text c) l of
                (Inl e, l1) \<Rightarrow> (Inl e, l1)
              | (Inr gate, l1) \<Rightarrow>
                  (case filter_option br_exceeded (pa_budget a) of
                     None \<Rightarrow> (Inr (reply\<lparr>rp_gate_seq := Some (tr_seq gate)\<rparr>), l1)
                   | Some review \<Rightarrow>
                       (case record_session_event budget_at session BudgetRow None ByGlasshouse
                               (map_option axis_str (exceeded_axis review)) (Some (budget_note review)) l1 of
                          (Inl e, l2) \<Rightarrow> (Inl e, l2)
                        | (Inr row, l2) \<Rightarrow>
                            (Inr (reply\<lparr>rp_gate_seq := Some (tr_seq gate), rp_budget_seq := Some (tr_seq row),
                               rp_re_evaluate := Some (open_for_session session l2)\<rparr>), l2)))))"

definition preflight_request ::
    "int \<Rightarrow> int \<Rightarrow> policy \<Rightarrow> rstr option \<Rightarrow> change_factors \<Rightarrow> ledger \<Rightarrow>
     (guardrail_error + preflight_reply) \<times> ledger" where
  "preflight_request gate_at budget_at configured session c l =
     (case session of
        Some s \<Rightarrow> preflight_in_session gate_at budget_at configured s c l
      | None \<Rightarrow>
          (Inr \<lparr>rp_answer = preflight c configured, rp_description = description_text c, rp_gate_seq = None,
             rp_budget_seq = None, rp_re_evaluate = None, rp_checkpoint = False\<rparr>, l))"

section \<open>What happens to a ledger\<close>

definition first_row :: "nat \<Rightarrow> assumption_record \<Rightarrow> transition" where
  "first_row seq a =
     \<lparr>tr_seq = seq, tr_assumption_id = Some (ar_id a), tr_session_id = ar_session_id a, tr_at = ar_created_at a,
      tr_kind = TransitionRow, tr_state = Some Proposed, tr_origin = ar_origin a, tr_subject = None,
      tr_response = None, tr_note = None\<rparr>"

text \<open>The runs of a ledger, with the log of every row it was ever given.\<close>

inductive ledger_run :: "retention \<Rightarrow> ledger \<Rightarrow> transition list \<Rightarrow> bool" for r where
  start: "ledger_run r (empty_ledger r) []"
| recorded: "ledger_run r l log \<Longrightarrow> record_assumption i now new l = (Inr a, l') \<Longrightarrow>
    ledger_run r l' (log @ [first_row (le_sequence l + 1) a])"
| moved: "ledger_run r l log \<Longrightarrow> append_transition i now nt l = (Inr t, l') \<Longrightarrow> ledger_run r l' (log @ [t])"
| noted: "ledger_run r l log \<Longrightarrow>
    record_session_event now session k state origin subject remark l = (Inr t, l') \<Longrightarrow>
    ledger_run r l' (log @ [t])"
| trimmed: "ledger_run r l log \<Longrightarrow> ledger_run r (snd (trim_within now l)) log"

definition linked :: "ledger \<Rightarrow> bool" where
  "linked l \<longleftrightarrow> distinct (map ar_id (le_assumptions l)) \<and>
     (\<forall>a\<in>set (le_assumptions l). \<exists>t\<in>set (le_transitions l). tr_assumption_id t = Some (ar_id a)) \<and>
     (\<forall>t\<in>set (le_transitions l). \<forall>i. tr_assumption_id t = Some i \<longrightarrow> i \<in> ar_id ` set (le_assumptions l))"

definition waived_by_a_person :: "transition list \<Rightarrow> rstr \<Rightarrow> bool" where
  "waived_by_a_person log i \<longleftrightarrow>
     (\<exists>w\<in>set log. tr_assumption_id w = Some i \<and> tr_state w = Some WaivedByUser \<and> tr_origin w = ByUser)"

definition log_ok :: "transition list \<Rightarrow> bool" where
  "log_ok log \<longleftrightarrow> map tr_seq log = [1 ..< Suc (length log)] \<and>
     (\<forall>t\<in>set log. \<forall>i. tr_assumption_id t = Some i \<longrightarrow> tr_state t \<noteq> None \<and>
        (tr_state t = Some WaivedByUser \<longrightarrow> waived_by_a_person log i))"

definition ledger_ok :: "retention \<Rightarrow> ledger \<Rightarrow> transition list \<Rightarrow> bool" where
  "ledger_ok r l log \<longleftrightarrow> le_retention l = r \<and> le_sequence l = length log \<and> linked l \<and> log_ok log \<and>
     subseq (le_transitions l) log \<and> (sorted (map tr_at log) \<longrightarrow> suffix (le_transitions l) log)"

definition within_bound :: "retention \<Rightarrow> ledger \<Rightarrow> transition list \<Rightarrow> bool" where
  "within_bound r l log \<longleftrightarrow>
     int (length (le_transitions l)) \<le> max 0 (re_max_rows r) + int (length log) mod max (re_trim_every r) 1"

lemma subseq_set: "subseq xs ys \<Longrightarrow> set xs \<subseteq> set ys"
  by (auto elim: list_emb_set)

lemma subseq_distinct: "subseq xs ys \<Longrightarrow> distinct ys \<Longrightarrow> distinct xs"
  by (induction rule: list_emb.induct) (auto dest: subseq_set)

lemma filter_sorted_suffix: "sorted (map f xs) \<Longrightarrow> suffix (filter (\<lambda>x. \<not> f x < (c :: int)) xs) xs"
proof (induction xs)
  case (Cons x xs)
  show ?case
  proof (cases "f x < c")
    case True
    then show ?thesis using Cons by (auto intro: suffix_ConsI)
  next
    case False
    then have "filter (\<lambda>x. \<not> f x < c) xs = xs" using Cons.prems by (auto simp: filter_id_conv)
    then show ?thesis using False by simp
  qed
qed simp

text \<open>The transitions a trim leaves.\<close>

definition trimmed_rows :: "int \<Rightarrow> retention \<Rightarrow> transition list \<Rightarrow> transition list" where
  "trimmed_rows now r ts =
     (let young = filter (\<lambda>t. \<not> tr_at t < saturating_sub64 now (re_max_age_secs r)) ts
      in drop (nat (int (length young) - re_max_rows r)) young)"

lemma trim_rows: "le_transitions (snd (trim_within now l)) = trimmed_rows now (le_retention l) (le_transitions l)"
  by (simp add: trim_within_def trimmed_rows_def Let_def)

lemma trim_same [simp]:
  "le_retention (snd (trim_within now l)) = le_retention l" "le_sequence (snd (trim_within now l)) = le_sequence l"
  by (simp_all add: trim_within_def Let_def)

lemma trimmed_rows_facts:
  "subseq (trimmed_rows now r ts) ts"
  "sorted (map tr_at ts) \<Longrightarrow> suffix (trimmed_rows now r ts) ts"
  "length (trimmed_rows now r ts) \<le> length ts"
  "int (length (trimmed_rows now r ts)) \<le> max 0 (re_max_rows r)"
proof -
  let ?young = "filter (\<lambda>t. \<not> tr_at t < saturating_sub64 now (re_max_age_secs r)) ts"
  show sub: "subseq (trimmed_rows now r ts) ts"
  proof -
    have "subseq (drop k ?young) ts" for k
      using suffix_imp_subseq [OF suffix_drop] subseq_filter_left by (rule subseq_order.order_trans)
    then show ?thesis by (simp add: trimmed_rows_def Let_def)
  qed
  show "suffix (trimmed_rows now r ts) ts" if "sorted (map tr_at ts)"
    unfolding trimmed_rows_def Let_def
    using suffix_drop filter_sorted_suffix [OF that] by (rule suffix_order.order_trans)
  show "length (trimmed_rows now r ts) \<le> length ts"
    using sub by (rule list_emb_length)
  show "int (length (trimmed_rows now r ts)) \<le> max 0 (re_max_rows r)"
    by (simp add: trimmed_rows_def Let_def)
qed

lemma trim_assumptions:
  "le_assumptions (snd (trim_within now l)) =
    filter (\<lambda>a. list_ex (\<lambda>t. tr_assumption_id t = Some (ar_id a)) (trimmed_rows now (le_retention l) (le_transitions l)))
      (le_assumptions l)"
  by (simp add: trim_within_def trimmed_rows_def Let_def)

lemma linked_trim:
  assumes "linked l"
  shows "linked (snd (trim_within now l))"
proof -
  let ?kept = "trimmed_rows now (le_retention l) (le_transitions l)"
  have sub: "set ?kept \<subseteq> set (le_transitions l)"
    using trimmed_rows_facts(1) by (rule subseq_set)
  have "i \<in> ar_id ` set (filter (\<lambda>a. list_ex (\<lambda>t. tr_assumption_id t = Some (ar_id a)) ?kept) (le_assumptions l))"
    if kept: "t \<in> set ?kept" "tr_assumption_id t = Some i" for t i
  proof -
    have "t \<in> set (le_transitions l)" using kept(1) sub by blast
    then have "i \<in> ar_id ` set (le_assumptions l)" using assms kept(2) by (simp add: linked_def)
    then show ?thesis using kept by (auto simp: list_ex_iff)
  qed
  then show ?thesis
    using assms unfolding linked_def trim_rows trim_assumptions
    by (auto simp: list_ex_iff distinct_map_filter)
qed

lemma ledger_ok_trim:
  assumes "ledger_ok r l log"
  shows "ledger_ok r (snd (trim_within now l)) log"
proof -
  have "sorted (map tr_at (le_transitions l))" if "sorted (map tr_at log)"
    using assms that by (auto simp: ledger_ok_def suffix_def sorted_append)
  then show ?thesis
    using assms trimmed_rows_facts [where now = now and r = r and ts = "le_transitions l"] linked_trim
    
    by (auto simp: ledger_ok_def trim_rows intro: subseq_order.order_trans suffix_order.order_trans)
qed

lemma append_within_simps:
  "append_within row l = (le_sequence l + 1, l\<lparr>le_transitions := le_transitions l @ [row\<lparr>tr_seq := le_sequence l + 1\<rparr>],
    le_sequence := le_sequence l + 1\<rparr>)"
  by (simp add: append_within_def)

lemma maybe_trim_ok: "ledger_ok r l log \<Longrightarrow> ledger_ok r (maybe_trim seq now l) log"
  by (simp add: maybe_trim_def ledger_ok_trim)

lemma waived_mono: "waived_by_a_person log i \<Longrightarrow> waived_by_a_person (log @ rows) i"
  by (auto simp: waived_by_a_person_def)

lemma suffix_snoc: "suffix xs ys \<Longrightarrow> suffix (xs @ [x]) (ys @ [x])"
  by (auto simp: suffix_def)

text \<open>One row is appended to a ledger that may just have been given the assumption it belongs to.\<close>

lemma ledger_ok_append:
  assumes ok: "ledger_ok r l log"
    and l1: "le_retention l1 = r" "le_sequence l1 = le_sequence l" "le_transitions l1 = le_transitions l"
      "distinct (map ar_id (le_assumptions l1))" "set (le_assumptions l) \<subseteq> set (le_assumptions l1)"
      "\<And>a. a \<in> set (le_assumptions l1) \<Longrightarrow> a \<notin> set (le_assumptions l) \<Longrightarrow> tr_assumption_id row = Some (ar_id a)"
    and row: "\<And>i. tr_assumption_id row = Some i \<Longrightarrow> i \<in> ar_id ` set (le_assumptions l1) \<and> tr_state row \<noteq> None"
      "\<And>i. tr_assumption_id row = Some i \<Longrightarrow> tr_state row = Some WaivedByUser \<Longrightarrow>
        tr_origin row = ByUser \<or> waived_by_a_person log i"
  shows "ledger_ok r (snd (append_within row l1)) (log @ [row\<lparr>tr_seq := le_sequence l + 1\<rparr>])"
proof -
  let ?row = "row\<lparr>tr_seq := le_sequence l + 1\<rparr>" and ?l = "snd (append_within row l1)"
  note ok' = ok [unfolded ledger_ok_def]
  have fields: "le_transitions ?l = le_transitions l @ [?row]" "le_assumptions ?l = le_assumptions l1"
    "le_sequence ?l = Suc (le_sequence l)" "le_retention ?l = r"
    using l1 by (simp_all add: append_within_simps)
  have "linked ?l"
    using ok' l1(4,5,6) row(1) unfolding linked_def fields by (auto simp: image_iff) (metis subsetD)+
  moreover have "log_ok (log @ [?row])"
    using ok' row unfolding log_ok_def
    by (auto simp: waived_mono) (auto simp: waived_by_a_person_def)
  ultimately show ?thesis
    using ok' by (auto simp: ledger_ok_def fields sorted_append intro: suffix_snoc list_emb_append_mono)
qed

lemma mod_next:
  assumes "0 < m" and "(x + 1) mod m \<noteq> 0"
  shows "(x + 1) mod m = x mod m + (1 :: int)"
proof -
  have "(x + 1) mod m = (x mod m + 1) mod m" by (simp add: mod_add_left_eq)
  moreover have "x mod m + 1 \<noteq> m" using assms(2) calculation by auto
  moreover have "0 \<le> x mod m" "x mod m < m" using assms(1) by simp_all
  ultimately show ?thesis by simp
qed

lemma within_bound_append:
  assumes "within_bound r l log" and "le_retention l2 = r" and "length (le_transitions l2) = Suc (length (le_transitions l))"
  shows "within_bound r (maybe_trim (Suc (length log)) now l2) (log @ [row])"
proof (cases "int (Suc (length log)) mod max (re_trim_every r) 1 = 0")
  case True
  then show ?thesis
    using assms(2) trimmed_rows_facts(4) by (simp add: maybe_trim_def within_bound_def trim_rows)
next
  case False
  have "int (Suc (length log)) mod max (re_trim_every r) 1 = int (length log) mod max (re_trim_every r) 1 + 1"
    using mod_next [of "max (re_trim_every r) 1" "int (length log)"] False by (simp add: add.commute)
  then show ?thesis
    using False assms by (simp add: maybe_trim_def within_bound_def)
qed

lemma log_seqs: "ledger_ok r l log \<Longrightarrow> t \<in> set (le_transitions l) \<Longrightarrow> 1 \<le> tr_seq t \<and> tr_seq t \<le> le_sequence l"
proof -
  assume ok: "ledger_ok r l log" and t: "t \<in> set (le_transitions l)"
  then have "t \<in> set log" using subseq_set by (auto simp: ledger_ok_def)
  then have "tr_seq t \<in> set (map tr_seq log)" by simp
  also have "map tr_seq log = [1 ..< Suc (le_sequence l)]" using ok by (simp add: ledger_ok_def log_ok_def del: upt_Suc)
  finally show ?thesis by (simp del: upt_Suc)
qed

lemma distinct_seqs: "ledger_ok r l log \<Longrightarrow> distinct (map tr_seq (le_transitions l))"
proof -
  assume ok: "ledger_ok r l log"
  have "subseq (map tr_seq (le_transitions l)) (map tr_seq log)"
    using ok by (simp add: ledger_ok_def subseq_map)
  moreover have "distinct (map tr_seq log)"
    using ok by (simp add: ledger_ok_def log_ok_def del: upt_Suc)
  ultimately show ?thesis by (rule subseq_distinct)
qed

lemma same_seq:
  "ledger_ok r l log \<Longrightarrow> s \<in> set (le_transitions l) \<Longrightarrow> t \<in> set (le_transitions l) \<Longrightarrow> tr_seq s = tr_seq t \<Longrightarrow> s = t"
  using distinct_seqs by (auto simp: distinct_map inj_on_def)

text \<open>What is read back after an append is the row that was appended.\<close>

lemma read_back:
  assumes "ledger_ok r l log" and "read_transition (le_sequence l + 1) (maybe_trim seq now (snd (append_within row l))) = Some t"
  shows "t = row\<lparr>tr_seq := le_sequence l + 1\<rparr>"
proof -
  have "t \<in> set (le_transitions (maybe_trim seq now (snd (append_within row l))))" "tr_seq t = le_sequence l + 1"
    using assms(2) by (auto simp: read_transition_def dest: find_SomeD)
  moreover have "set (le_transitions (maybe_trim seq now l')) \<subseteq> set (le_transitions l')" for l'
    using subseq_set [OF trimmed_rows_facts(1)] by (simp add: maybe_trim_def trim_rows)
  ultimately have "t \<in> set (le_transitions (snd (append_within row l)))" by blast
  then have "t \<in> set (le_transitions l @ [row\<lparr>tr_seq := le_sequence l + 1\<rparr>])"
    by (simp add: append_within_simps)
  then show ?thesis
    using log_seqs [OF assms(1), of t] \<open>tr_seq t = _\<close> by auto
qed

lemma current_view_Some:
  assumes ok: "ledger_ok r l log" and view: "current_view i l = Some v"
  shows "av_record v \<in> set (le_assumptions l)" "ar_id (av_record v) = i"
    "av_latest v \<in> set (rows_of i l)" "tr_state (av_latest v) = Some (av_state v)"
    "\<And>t. t \<in> set (rows_of i l) \<Longrightarrow> tr_seq t \<le> tr_seq (av_latest v)"
proof -
  obtain a where a: "a \<in> set (le_assumptions l)" "ar_id a = i" "view_of l a = Some v"
    using view by (auto simp: current_view_def bind_eq_Some_conv dest: find_SomeD)
  then obtain t where t: "latest_row i l = Some t" "tr_state t = Some (av_state v)" "av_latest v = t" "av_record v = a"
    by (auto simp: view_of_def split: option.splits)
  then show "av_record v \<in> set (le_assumptions l)" "ar_id (av_record v) = i" "tr_state (av_latest v) = Some (av_state v)"
    using a by auto
  have rows: "rows_of i l \<noteq> []" and found: "List.find (\<lambda>t. tr_seq t = Max (set (map tr_seq (rows_of i l)))) (le_transitions l) = Some t"
    using t(1) by (auto simp: latest_row_def split: if_splits)
  then have latest: "t \<in> set (le_transitions l)" "tr_seq t = Max (tr_seq ` set (rows_of i l))"
    by (auto dest: find_SomeD)
  then show "tr_seq x \<le> tr_seq (av_latest v)" if "x \<in> set (rows_of i l)" for x
    using that t(3) by simp
  have "tr_seq t \<in> tr_seq ` set (rows_of i l)"
    unfolding latest(2) using rows by (intro Max_in) auto
  then show "av_latest v \<in> set (rows_of i l)"
    using same_seq [OF ok latest(1)] t(3) by (auto simp: rows_of_def)
qed

lemma ledger_run_ok: "ledger_run r l log \<Longrightarrow> ledger_ok r l log \<and> within_bound r l log"
proof (induction rule: ledger_run.induct)
  case start
  show ?case
    by (simp add: ledger_ok_def linked_def log_ok_def within_bound_def empty_ledger_def)
next
  case (recorded l log i now new a l')
  let ?row = "first_row 0 a" and ?l = "l\<lparr>le_assumptions := le_assumptions l @ [a]\<rparr>"
  have a: "ar_id a = i" "ar_created_at a = now" "i \<notin> ar_id ` set (le_assumptions l)"
    and l': "l' = maybe_trim (le_sequence l + 1) now (snd (append_within ?row ?l))"
    using recorded.hyps(2)
    by (auto simp: record_assumption_def Let_def first_row_def append_within_simps list_ex_iff split: if_splits)
  note ok = recorded.IH [THEN conjunct1, unfolded ledger_ok_def]
  have "ledger_ok r (snd (append_within ?row ?l)) (log @ [?row\<lparr>tr_seq := le_sequence l + 1\<rparr>])"
    by (rule ledger_ok_append [OF recorded.IH [THEN conjunct1]])
      (use ok a in \<open>auto simp: linked_def first_row_def\<close>)
  moreover have "?row\<lparr>tr_seq := le_sequence l + 1\<rparr> = first_row (le_sequence l + 1) a"
    by (simp add: first_row_def)
  moreover have "within_bound r l' (log @ [first_row (le_sequence l + 1) a])"
    unfolding l' using ok
    by (simp add: within_bound_append [OF recorded.IH [THEN conjunct2]] append_within_simps)
  ultimately show ?case by (simp add: l' maybe_trim_ok)
next
  case (moved l log i now nt t l')
  then obtain v where v: "current_view i l = Some v" and allowed: "nt_state nt \<noteq> Some WaivedByUser \<or> nt_origin nt = ByUser"
    by (auto simp: append_transition_def split: if_splits option.splits)
  define row where "row = \<lparr>tr_seq = 0, tr_assumption_id = Some i, tr_session_id = ar_session_id (av_record v),
    tr_at = now, tr_kind = TransitionRow, tr_state = Some (case nt_state nt of Some s \<Rightarrow> s | None \<Rightarrow> av_state v),
    tr_origin = nt_origin nt, tr_subject = nt_subject nt, tr_response = nt_response nt, tr_note = note_text (nt_note nt)\<rparr>"
  have l': "l' = maybe_trim (le_sequence l + 1) now (snd (append_within row l))"
    and read: "read_transition (le_sequence l + 1) l' = Some t"
    using moved.hyps(2) v allowed
    by (auto simp: append_transition_def row_def append_within_simps Let_def split: if_splits option.splits)
  note ok = moved.IH [THEN conjunct1]
  have t: "t = row\<lparr>tr_seq := le_sequence l + 1\<rparr>" using read_back [OF ok read [unfolded l']] .
  note current = current_view_Some [OF ok v]
  have "av_latest v \<in> set log" "tr_assumption_id (av_latest v) = Some i"
    using current(3) ok subseq_set by (auto simp: rows_of_def ledger_ok_def)
  then have waived: "av_state v = WaivedByUser \<Longrightarrow> waived_by_a_person log i"
    using ok current(4) by (auto simp: ledger_ok_def log_ok_def)
  have "ledger_ok r (snd (append_within row l)) (log @ [t])"
    unfolding t
    by (rule ledger_ok_append [OF ok])
      (use ok current(1,2) allowed waived in \<open>auto simp: row_def ledger_ok_def linked_def split: option.splits\<close>)
  moreover have "within_bound r l' (log @ [t])"
    unfolding l' using ok
    by (simp add: ledger_ok_def within_bound_append [OF moved.IH [THEN conjunct2]] append_within_simps)
  ultimately show ?case by (simp add: l' maybe_trim_ok)
next
  case (noted l log now session k state origin subject remark t l')
  define row where "row = \<lparr>tr_seq = 0, tr_assumption_id = None, tr_session_id = Some session, tr_at = now, tr_kind = k,
    tr_state = state, tr_origin = origin, tr_subject = subject, tr_response = None, tr_note = note_text remark\<rparr>"
  have l': "l' = maybe_trim (le_sequence l + 1) now (snd (append_within row l))"
    and read: "read_transition (le_sequence l + 1) l' = Some t"
    using noted.hyps(2)
    by (auto simp: record_session_event_def row_def append_within_simps split: option.splits)
  note ok = noted.IH [THEN conjunct1]
  have t: "t = row\<lparr>tr_seq := le_sequence l + 1\<rparr>" using read_back [OF ok read [unfolded l']] .
  have "ledger_ok r (snd (append_within row l)) (log @ [t])"
    unfolding t
    by (rule ledger_ok_append [OF ok]) (use ok in \<open>auto simp: row_def ledger_ok_def linked_def\<close>)
  moreover have "within_bound r l' (log @ [t])"
    unfolding l' using ok
    by (simp add: ledger_ok_def within_bound_append [OF noted.IH [THEN conjunct2]] append_within_simps)
  ultimately show ?case by (simp add: l' maybe_trim_ok)
next
  case (trimmed l log now)
  have "within_bound r (snd (trim_within now l)) log"
  proof -
    have "le_retention l = r" using trimmed.IH by (simp add: ledger_ok_def)
    then show ?thesis
      using trimmed_rows_facts(4) [of now r "le_transitions l"]
      by (simp add: within_bound_def trim_rows) (smt (verit) pos_mod_sign)
  qed
  then show ?case using trimmed.IH ledger_ok_trim by blast
qed

lemma view_exists:
  assumes ok: "ledger_ok r l log" and a: "a \<in> set (le_assumptions l)"
  shows "\<exists>v. view_of l a = Some v"
proof -
  let ?rows = "rows_of (ar_id a) l"
  have "?rows \<noteq> []"
    using ok a by (auto simp: ledger_ok_def linked_def rows_of_def filter_empty_conv)
  then have "Max (set (map tr_seq ?rows)) \<in> set (map tr_seq ?rows)" by (intro Max_in) auto
  then obtain x where x: "x \<in> set ?rows" "tr_seq x = Max (set (map tr_seq ?rows))" by auto
  then have "List.find (\<lambda>t. tr_seq t = Max (set (map tr_seq ?rows))) (le_transitions l) \<noteq> None"
    by (auto simp: find_None_iff rows_of_def)
  then obtain t where t: "List.find (\<lambda>t. tr_seq t = Max (set (map tr_seq ?rows))) (le_transitions l) = Some t" by auto
  then have "t \<in> set (le_transitions l)" "tr_seq t = tr_seq x" using x(2) by (auto dest: find_SomeD)
  then have "t = x" using same_seq [OF ok] x(1) by (auto simp: rows_of_def)
  moreover have "x \<in> set log" "tr_assumption_id x = Some (ar_id a)"
    using x(1) ok subseq_set by (auto simp: rows_of_def ledger_ok_def)
  then have "tr_state x \<noteq> None" using ok by (auto simp: ledger_ok_def log_ok_def simp del: upt_Suc)
  ultimately show ?thesis
    using t \<open>?rows \<noteq> []\<close> by (auto simp: view_of_def latest_row_def)
qed

lemma increasing_seqs: "ledger_ok r l log \<Longrightarrow> sorted_wrt (\<lambda>s t. tr_seq s < tr_seq t) log"
proof -
  assume "ledger_ok r l log"
  then have "sorted_wrt (<) (map tr_seq log)" by (simp add: ledger_ok_def log_ok_def del: upt_Suc)
  then show ?thesis by (simp add: sorted_wrt_map)
qed

lemma sort_increasing: "sorted_wrt (\<lambda>s t. tr_seq s < tr_seq t) ts \<Longrightarrow> sort_key tr_seq ts = ts"
  by (rule sort_key_id_if_sorted) (auto simp: sorted_map elim: sorted_wrt_mono_rel [rotated])

lemma sorted_wrt_subseq: "subseq xs ys \<Longrightarrow> sorted_wrt P ys \<Longrightarrow> sorted_wrt P xs"
  by (induction rule: list_emb.induct) (auto dest: subseq_set)

text \<open>When the clock never goes back, the last row of a kind in the log is the last in the table, or gone.\<close>

lemma last_in_table:
  assumes ok: "ledger_ok r l log" and clock: "sorted (map tr_at log)"
  shows "filter P (le_transitions l) = [] \<and> (\<forall>t\<in>set (le_transitions l). \<not> P t) \<or>
    filter P (le_transitions l) \<noteq> [] \<and> last (filter P (le_transitions l)) = last (filter P log) \<and>
    last (filter P log) \<in> set (le_transitions l)"
proof -
  obtain gone where log: "log = gone @ le_transitions l"
    using ok clock by (auto simp: ledger_ok_def suffix_def)
  have "last (filter P (le_transitions l)) \<in> set (filter P (le_transitions l))" if "filter P (le_transitions l) \<noteq> []"
    using that by (rule last_in_set)
  then show ?thesis
    by (cases "filter P (le_transitions l) = []") (auto simp: log filter_empty_conv last_append)
qed

definition is_override_of :: "rstr \<Rightarrow> transition \<Rightarrow> bool" where
  "is_override_of session t \<longleftrightarrow>
     tr_session_id t = Some session \<and> tr_assumption_id t = None \<and> tr_kind t = OverrideRow"

lemma session_overrides:
  assumes "ledger_ok r l log"
  shows "session_events session (Some OverrideRow) 1 l =
    (let rows = filter (is_override_of session) (le_transitions l) in if rows = [] then [] else [last rows])"
proof -
  have "sorted_wrt (\<lambda>s t. tr_seq s < tr_seq t) (le_transitions l)"
    using increasing_seqs [OF assms] assms by (auto simp: ledger_ok_def intro: sorted_wrt_subseq)
  then have "sorted_wrt (\<lambda>s t. tr_seq s < tr_seq t) (filter (is_override_of session) (le_transitions l))"
    by (rule sorted_wrt_filter)
  then have "session_events session (Some OverrideRow) 1 l = take 1 (rev (filter (is_override_of session) (le_transitions l)))"
    by (simp add: session_events_def is_override_of_def [abs_def] sort_increasing)
  then show ?thesis
    by (cases "filter (is_override_of session) (le_transitions l)" rule: rev_cases) simp_all
qed

text \<open>Whatever the clock did, the last row of a kind in the log is the last in the table while it is there.\<close>

lemma kept_is_last:
  assumes ok: "ledger_ok r l log" and kept: "last (filter P log) \<in> set (le_transitions l)"
    and some: "filter P log \<noteq> []"
  shows "filter P (le_transitions l) \<noteq> [] \<and> last (filter P (le_transitions l)) = last (filter P log)"
proof -
  let ?rows = "filter P (le_transitions l)" and ?x = "last (filter P log)"
  have sub: "subseq (le_transitions l) log" using ok by (simp add: ledger_ok_def)
  have before: "tr_seq t \<le> tr_seq (last ts)"
    if "sorted_wrt (\<lambda>s t. tr_seq s < tr_seq t) ts" "t \<in> set ts" for t ts
    using that by (cases ts rule: rev_cases) (auto simp: sorted_wrt_append)
  have "?x \<in> set (filter P log)" using some by (rule last_in_set)
  then have x: "?x \<in> set ?rows" using kept by simp
  then have ne: "?rows \<noteq> []" by (metis empty_iff list.set(1))
  then have y: "last ?rows \<in> set ?rows" by (rule last_in_set)
  then have "last ?rows \<in> set (filter P log)" using subseq_set [OF sub] by auto
  then have "tr_seq (last ?rows) \<le> tr_seq ?x"
    using before [OF sorted_wrt_filter [OF increasing_seqs [OF ok]]] by blast
  moreover have "tr_seq ?x \<le> tr_seq (last ?rows)"
    using before [OF sorted_wrt_filter [OF sorted_wrt_subseq [OF sub increasing_seqs [OF ok]]] x] .
  ultimately have "last ?rows = ?x"
    using same_seq [OF ok _ kept] y by simp
  then show ?thesis using ne by simp
qed

text \<open>What recording an event of a session writes.\<close>

lemma session_event_written:
  assumes "ledger_run r l log"
    and "record_session_event now session k state origin subject remark l = (Inr t, l')"
  shows "ledger_run r l' (log @ [t]) \<and> t \<in> set (le_transitions l') \<and>
     t = \<lparr>tr_seq = le_sequence l + 1, tr_assumption_id = None, tr_session_id = Some session, tr_at = now,
          tr_kind = k, tr_state = state, tr_origin = origin, tr_subject = subject, tr_response = None,
          tr_note = note_text remark\<rparr>"
proof -
  define row where "row = \<lparr>tr_seq = 0, tr_assumption_id = None, tr_session_id = Some session, tr_at = now, tr_kind = k,
    tr_state = state, tr_origin = origin, tr_subject = subject, tr_response = None, tr_note = note_text remark\<rparr>"
  have read: "read_transition (le_sequence l + 1) l' = Some t"
    and l': "l' = maybe_trim (le_sequence l + 1) now (snd (append_within row l))"
    using assms(2)
    by (auto simp: record_session_event_def row_def append_within_simps split: option.splits)
  have "t = row\<lparr>tr_seq := le_sequence l + 1\<rparr>"
    using read_back [OF ledger_run_ok [OF assms(1), THEN conjunct1] read [unfolded l']] .
  moreover have "t \<in> set (le_transitions l')"
    using read by (auto simp: read_transition_def dest: find_SomeD)
  ultimately show ?thesis
    using ledger_run.noted [OF assms] by (simp add: row_def)
qed

section \<open>Properties\<close>

text \<open>
  In every run the two tables agree: identifiers are unique, every assumption has a history and so a
  current state, every row of a history belongs to an assumption that is there, and what is there was
  once appended and never edited.
\<close>

theorem tables_agree:
  assumes "ledger_run r l log"
  shows "distinct (map ar_id (le_assumptions l)) \<and>
    length (views_of None l) = length (le_assumptions l) \<and>
    (\<forall>t\<in>set (le_transitions l). \<forall>i. tr_assumption_id t = Some i \<longrightarrow> current_view i l \<noteq> None) \<and>
    subseq (le_transitions l) log"
proof -
  have ok: "ledger_ok r l log" using ledger_run_ok [OF assms] by simp
  have "length (List.map_filter (view_of l) as) = length as" if "set as \<subseteq> set (le_assumptions l)" for as
    using that by (induction as) (auto simp: map_filter_simps dest!: view_exists [OF ok])
  then have "length (views_of None l) = length (le_assumptions l)" by (simp add: views_of_def)
  moreover have "current_view i l \<noteq> None" if "t \<in> set (le_transitions l)" "tr_assumption_id t = Some i" for t i
  proof -
    have "i \<in> ar_id ` set (le_assumptions l)" using ok that by (auto simp: ledger_ok_def linked_def)
    then obtain a where "List.find (\<lambda>a. ar_id a = i) (le_assumptions l) = Some a" "a \<in> set (le_assumptions l)"
      by (cases "List.find (\<lambda>a. ar_id a = i) (le_assumptions l)") (auto simp: find_None_iff dest: find_SomeD)
    then show ?thesis using view_exists [OF ok] by (auto simp: current_view_def)
  qed
  ultimately show ?thesis using ok by (auto simp: ledger_ok_def linked_def)
qed

text \<open>A ledger for examples: a claim of an agent, which a person waives.\<close>

definition stated_claim :: new_assumption where
  "stated_claim = \<lparr>na_session = Some (u ''s1''), na_claim = u ''rows fit'', na_evidence = u ''read'',
     na_evidence_source = Inference, na_uncertainty = HighUncertainty, na_affected = u ''db'',
     na_verification = u ''test'', na_origin = ByAgent\<rparr>"

definition claim_record :: assumption_record where
  "claim_record = \<lparr>ar_id = u ''ab'', ar_session_id = Some (u ''s1''), ar_created_at = 10, ar_origin = ByAgent,
     ar_claim = u ''rows fit'', ar_evidence = u ''read'', ar_evidence_source = Inference,
     ar_uncertainty = HighUncertainty, ar_affected = u ''db'', ar_verification = u ''test''\<rparr>"

definition waiver_row :: transition where
  "waiver_row = \<lparr>tr_seq = 2, tr_assumption_id = Some (u ''ab''), tr_session_id = Some (u ''s1''), tr_at = 20,
     tr_kind = TransitionRow, tr_state = Some WaivedByUser, tr_origin = ByUser, tr_subject = None,
     tr_response = None, tr_note = None\<rparr>"

definition stated_ledger :: ledger where
  "stated_ledger = \<lparr>le_retention = DEFAULT_RETENTION, le_assumptions = [claim_record],
     le_transitions = [first_row 1 claim_record], le_sequence = 1\<rparr>"

definition waived_ledger :: ledger where
  "waived_ledger = \<lparr>le_retention = DEFAULT_RETENTION, le_assumptions = [claim_record],
     le_transitions = [first_row 1 claim_record, waiver_row], le_sequence = 2\<rparr>"

lemma stated_ledger_step:
  "record_assumption (u ''ab'') 10 stated_claim (empty_ledger DEFAULT_RETENTION) = (Inr claim_record, stated_ledger)"
  by (simp add: record_assumption_def Let_def stated_claim_def claim_record_def stated_ledger_def empty_ledger_def
      first_row_def append_within_def maybe_trim_def DEFAULT_RETENTION_def field_text_def sanitize_def bound_text_def
      mapped_char_def is_control_def is_ws_def MAX_CLAIM_CHARS_def MAX_FIELD_CHARS_def filter_option_def
      trim_def trim_matches_def trim_end_matches_def)

lemma stated_view:
  "current_view (u ''ab'') stated_ledger = Some \<lparr>av_record = claim_record, av_state = Proposed,
     av_latest = first_row 1 claim_record, av_transitions = 1\<rparr>"
  by (simp add: current_view_def view_of_def latest_row_def rows_of_def stated_ledger_def claim_record_def first_row_def)

lemma waived_ledger_step:
  "append_transition (u ''ab'') 20 (to_state WaivedByUser ByUser) stated_ledger = (Inr waiver_row, waived_ledger)"
  unfolding append_transition_def stated_view
  by (simp add: to_state_def waiver_row_def waived_ledger_def append_within_def maybe_trim_def read_transition_def
      note_text_def stated_ledger_def DEFAULT_RETENTION_def claim_record_def first_row_def)

lemma example_runs:
  "ledger_run DEFAULT_RETENTION stated_ledger [first_row 1 claim_record]"
  "ledger_run DEFAULT_RETENTION waived_ledger [first_row 1 claim_record, waiver_row]"
proof -
  show stated: "ledger_run DEFAULT_RETENTION stated_ledger [first_row 1 claim_record]"
    using ledger_run.recorded [OF ledger_run.start stated_ledger_step] by (simp add: empty_ledger_def)
  show "ledger_run DEFAULT_RETENTION waived_ledger [first_row 1 claim_record, waiver_row]"
    using ledger_run.moved [OF stated waived_ledger_step] by simp
qed

lemma waived_view:
  "current_view (u ''ab'') waived_ledger = Some \<lparr>av_record = claim_record, av_state = WaivedByUser,
     av_latest = waiver_row, av_transitions = 2\<rparr>"
  by (simp add: current_view_def view_of_def latest_row_def rows_of_def waived_ledger_def claim_record_def
      first_row_def waiver_row_def)

theorem tables_agree_witness: "length (views_of None waived_ledger) = 1"
  using tables_agree [OF example_runs(2)] by (simp add: waived_ledger_def)

text \<open>C36. An assumption is in the state \<open>waived_by_user\<close> only when a person once said so.\<close>

theorem waiver_comes_from_a_person:
  assumes "ledger_run r l log" and "current_view i l = Some v" and "av_state v = WaivedByUser"
  shows "waived_by_a_person log i"
proof -
  have ok: "ledger_ok r l log" using ledger_run_ok [OF assms(1)] by simp
  note current = current_view_Some [OF ok assms(2)]
  have "av_latest v \<in> set log" "tr_assumption_id (av_latest v) = Some i"
    using current(3) ok subseq_set by (auto simp: rows_of_def ledger_ok_def)
  then show ?thesis
    using ok current(4) assms(3) by (auto simp: ledger_ok_def log_ok_def)
qed

theorem waiver_comes_from_a_person_witness: "waived_by_a_person [first_row 1 claim_record, waiver_row] (u ''ab'')"
  by (rule waiver_comes_from_a_person [OF example_runs(2) waived_view]) simp

text \<open>
  But the row that says so need not be a person's: restating a waived assumption writes another row with
  that state, under whatever origin restates it, though the state is to be written with a user origin only.
\<close>

theorem agent_restates_a_waiver:
  "\<exists>t l. append_transition (u ''ab'') 30 (restate ByAgent) waived_ledger = (Inr t, l) \<and>
     tr_state t = Some WaivedByUser \<and> tr_origin t = ByAgent \<and>
     append_transition (u ''ab'') 30 (to_state WaivedByUser ByAgent) waived_ledger = (Inl WaiverNeedsUser, waived_ledger)"
  unfolding append_transition_def waived_view
  by (simp add: restate_def to_state_def append_within_def maybe_trim_def read_transition_def note_text_def
      waived_ledger_def DEFAULT_RETENTION_def claim_record_def first_row_def waiver_row_def)

text \<open>
  C37. While the clock does not go back, the ledger forgets only its oldest rows, and the current state of an
  assumption is the last that was ever written of it.
\<close>

theorem last_word_is_current:
  assumes "ledger_run r l log" and "sorted (map tr_at log)" and "current_view i l = Some v"
  shows "suffix (le_transitions l) log \<and> av_latest v = last (filter (\<lambda>t. tr_assumption_id t = Some i) log)"
proof -
  have ok: "ledger_ok r l log" using ledger_run_ok [OF assms(1)] by simp
  note current = current_view_Some [OF ok assms(3)]
  let ?rows = "rows_of i l"
  have "sorted_wrt (\<lambda>s t. tr_seq s < tr_seq t) (le_transitions l)"
    using increasing_seqs [OF ok] ok by (auto simp: ledger_ok_def intro: sorted_wrt_subseq)
  then have "sorted_wrt (\<lambda>s t. tr_seq s < tr_seq t) ?rows"
    by (simp add: rows_of_def sorted_wrt_filter)
  then have "av_latest v = last ?rows"
    using current(3,5) by (cases ?rows rule: rev_cases) (fastforce simp: sorted_wrt_append)+
  moreover have "?rows \<noteq> []" using current(3) by auto
  then have "last ?rows = last (filter (\<lambda>t. tr_assumption_id t = Some i) log)"
    using last_in_table [OF ok assms(2), of "\<lambda>t. tr_assumption_id t = Some i"] by (auto simp: rows_of_def)
  ultimately show ?thesis using ok assms(2) by (simp add: ledger_ok_def)
qed

theorem last_word_is_current_witness: "suffix (le_transitions waived_ledger) [first_row 1 claim_record, waiver_row]"
proof -
  have "sorted (map tr_at [first_row 1 claim_record, waiver_row])"
    by (simp add: first_row_def claim_record_def waiver_row_def)
  from last_word_is_current [OF example_runs(2) this waived_view] show ?thesis by simp
qed

text \<open>
  The override in force for a session is the last one ever recorded for it, and none once the ledger has
  let that row go: an older override never comes back.
\<close>

definition decoded_override :: "transition \<Rightarrow> (guardrail_error + (guardrail_override \<times> transition) option)" where
  "decoded_override row =
     (let subject = (case tr_subject row of Some s \<Rightarrow> s | None \<Rightarrow> [])
      in case override_from_stored subject of
           None \<Rightarrow> Inl (UnknownValue (u ''transition '' @ decimal (tr_seq row)) (u ''subject'') subject)
         | Some k \<Rightarrow> Inr (Some (k, row)))"

theorem override_in_force:
  assumes "ledger_run r l log" and "sorted (map tr_at log)"
  shows "latest_override session l =
    (let rows = filter (is_override_of session) log
     in if rows \<noteq> [] \<and> last rows \<in> set (le_transitions l) then decoded_override (last rows) else Inr None)"
proof -
  have ok: "ledger_ok r l log" using ledger_run_ok [OF assms(1)] by simp
  have "latest_override session l =
      (let rows = filter (is_override_of session) (le_transitions l)
       in if rows = [] then Inr None else decoded_override (last rows))"
    unfolding latest_override_def session_overrides [OF ok] Let_def decoded_override_def by (auto split: list.split)
  moreover have "last (filter (is_override_of session) log) \<in> set (filter (is_override_of session) log)"
    if "filter (is_override_of session) log \<noteq> []"
    using that by (rule last_in_set)
  moreover have "set (le_transitions l) \<subseteq> set log"
    using ok subseq_set by (auto simp: ledger_ok_def)
  ultimately show ?thesis
    using last_in_table [OF ok assms(2), of "is_override_of session"]
    by (auto simp: Let_def filter_empty_conv)
qed

definition skip_row :: transition where
  "skip_row = \<lparr>tr_seq = 3, tr_assumption_id = None, tr_session_id = Some (u ''s1''), tr_at = 30,
     tr_kind = OverrideRow, tr_state = Some WaivedByUser, tr_origin = ByUser, tr_subject = Some (u ''skip''),
     tr_response = None, tr_note = None\<rparr>"

definition skip_ledger :: ledger where
  "skip_ledger = \<lparr>le_retention = DEFAULT_RETENTION, le_assumptions = [claim_record],
     le_transitions = [first_row 1 claim_record, waiver_row, skip_row], le_sequence = 3\<rparr>"

lemma skip_ledger_run: "ledger_run DEFAULT_RETENTION skip_ledger [first_row 1 claim_record, waiver_row, skip_row]"
proof -
  have "record_override 30 (u ''s1'') Skip ByUser waived_ledger = (Inr skip_row, skip_ledger)"
    by (simp add: record_override_def record_session_event_def override_str_def append_within_def maybe_trim_def
        read_transition_def note_text_def waived_ledger_def skip_ledger_def skip_row_def DEFAULT_RETENTION_def
        first_row_def claim_record_def waiver_row_def)
  from ledger_run.noted [OF example_runs(2) this [unfolded record_override_def]] show ?thesis by simp
qed

theorem override_in_force_witness:
  "latest_override (u ''s1'') skip_ledger = Inr (Some (Skip, skip_row))"
proof -
  have "is_override_of (u ''s1'') skip_row" "\<not> is_override_of (u ''s1'') waiver_row"
    "\<not> is_override_of (u ''s1'') (first_row 1 claim_record)"
    by (simp_all add: is_override_of_def skip_row_def waiver_row_def first_row_def)
  moreover have "decoded_override skip_row = Inr (Some (Skip, skip_row))"
    by (simp add: decoded_override_def skip_row_def override_from_stored_def stored_value_def GUARDRAIL_OVERRIDES_def
        override_str_def)
  ultimately show ?thesis
    using override_in_force [OF skip_ledger_run, of "u ''s1''"]
    by (simp add: Let_def skip_ledger_def skip_row_def waiver_row_def first_row_def claim_record_def)
qed

text \<open>
  C35. A waived session is asked nothing, and that is written down: while the last override of the session is
  \<open>skip\<close> and its row is kept, whatever the clock did, a preflight that answers says \<open>proceed\<close>, gates
  nothing and asks nothing, whatever is configured; and the ledger then holds a row of Glasshouse's own
  with the next number, of that session, that names the verdict, followed at most by the row of an
  exceeded budget.
\<close>

theorem skip_waives_the_gate:
  assumes "ledger_run r l log"
    and "filter (is_override_of session) log \<noteq> []"
    and "last (filter (is_override_of session) log) \<in> set (le_transitions l)"
    and "tr_subject (last (filter (is_override_of session) log)) = Some (override_str Skip)"
    and "preflight_in_session gate_at budget_at configured session c l = (Inr reply, l')"
  shows "pa_verdict (rp_answer reply) = Proceed \<and> pa_prompts (rp_answer reply) = [] \<and>
    go_triggered (pa_gate (rp_answer reply)) = False \<and>
    (\<exists>gate rest. ledger_run r l' (log @ gate # rest) \<and> tr_seq gate = le_sequence l + 1 \<and>
       rp_gate_seq reply = Some (tr_seq gate) \<and> tr_kind gate = GateRow \<and> tr_origin gate = ByGlasshouse \<and>
       tr_session_id gate = Some session \<and> tr_at gate = gate_at \<and>
       tr_subject gate = Some (gate_subject (rp_answer reply)) \<and>
       (rest = [] \<and> gate \<in> set (le_transitions l') \<or>
        (\<exists>budget. rest = [budget] \<and> tr_kind budget = BudgetRow \<and> budget \<in> set (le_transitions l'))))"
proof -
  define row where "row = last (filter (is_override_of session) log)"
  have ok: "ledger_ok r l log" using ledger_run_ok [OF assms(1)] by simp
  have over: "latest_override session l = Inr (Some (Skip, row))"
    using kept_is_last [OF ok assms(3,2)] assms(4) override_words.round_trip [of Skip]
    unfolding latest_override_def session_overrides [OF ok] Let_def by (simp add: row_def)
  let ?a = "preflight c (policy_for configured (Some (Skip, row)))"
  obtain gate l1 where g: "record_session_event gate_at session GateRow None ByGlasshouse
      (Some (gate_subject ?a)) (description_text c) l = (Inr gate, l1)"
    using assms(5) over by (auto simp: preflight_in_session_def Let_def split: sum.splits prod.splits)
  have answer: "rp_answer reply = ?a" and number: "rp_gate_seq reply = Some (tr_seq gate)"
    using assms(5) over g
    by (auto simp: preflight_in_session_def Let_def split: sum.splits prod.splits option.splits)
  then have gate: "record_session_event gate_at session GateRow None ByGlasshouse
      (Some (gate_subject (rp_answer reply))) (description_text c) l = (Inr gate, l1)"
    using g by simp
  have after: "l' = l1 \<or> (\<exists>subject remark budget. record_session_event budget_at session BudgetRow None ByGlasshouse
      subject remark l1 = (Inr budget, l'))"
  proof (cases "filter_option br_exceeded (pa_budget ?a)")
    case (Some review)
    then show ?thesis
      using assms(5) over g
      by (cases "record_session_event budget_at session BudgetRow None ByGlasshouse
            (map_option axis_str (exceeded_axis review)) (Some (budget_note review)) l1")
        (auto simp: preflight_in_session_def Let_def split: sum.splits)
  qed (use assms(5) over g in \<open>auto simp: preflight_in_session_def Let_def\<close>)
  note written = session_event_written [OF assms(1) gate]
  obtain rest where rest: "ledger_run r l' (log @ gate # rest)" "rest = [] \<and> gate \<in> set (le_transitions l') \<or>
      (\<exists>budget. rest = [budget] \<and> tr_kind budget = BudgetRow \<and> budget \<in> set (le_transitions l'))"
    using after
  proof (elim disjE exE)
    fix subject remark budget
    assume e: "record_session_event budget_at session BudgetRow None ByGlasshouse subject remark l1 = (Inr budget, l')"
    from session_event_written [OF conjunct1 [OF written] e] written
    show thesis by (intro that [of "[budget]"]) auto
  qed (use written that [of "[]"] in auto)
  moreover have "pa_verdict (rp_answer reply) = Proceed \<and> pa_prompts (rp_answer reply) = [] \<and>
      go_triggered (pa_gate (rp_answer reply)) = False"
    using answer by (simp add: preflight_def Let_def decide_def policy_for_def prompts_def)
  moreover have "tr_seq gate = le_sequence l + 1 \<and> tr_kind gate = GateRow \<and> tr_origin gate = ByGlasshouse \<and>
      tr_session_id gate = Some session \<and> tr_at gate = gate_at \<and>
      tr_subject gate = Some (gate_subject (rp_answer reply))"
    using written by simp
  ultimately show ?thesis using number by blast
qed

theorem skip_waives_the_gate_witness:
  "\<exists>reply l'. preflight_in_session 40 40 (default_policy\<lparr>po_mode := ModeRiskGated\<rparr>) (u ''s1'')
      (default_change\<lparr>cf_migration := True\<rparr>) skip_ledger = (Inr reply, l') \<and> pa_verdict (rp_answer reply) = Proceed"
proof -
  let ?p = "default_policy\<lparr>po_mode := ModeRiskGated\<rparr>" and ?c = "default_change\<lparr>cf_migration := True\<rparr>"
  have rows: "filter (is_override_of (u ''s1'')) [first_row 1 claim_record, waiver_row, skip_row] = [skip_row]"
    by (simp add: is_override_of_def skip_row_def waiver_row_def first_row_def)
  have "pa_budget (preflight ?c p) = None" "description_text ?c = None" for p
    by (simp_all add: preflight_def Let_def review_budget_def default_change_def description_text_def filter_option_def)
  then obtain reply l' where answered: "preflight_in_session 40 40 ?p (u ''s1'') ?c skip_ledger = (Inr reply, l')"
    using override_in_force_witness
    by (auto simp: preflight_in_session_def Let_def record_session_event_def append_within_def maybe_trim_def
        read_transition_def note_text_def skip_ledger_def DEFAULT_RETENTION_def filter_option_def
        first_row_def claim_record_def waiver_row_def skip_row_def)
  have "pa_verdict (rp_answer reply) = Proceed"
    using skip_waives_the_gate [OF skip_ledger_run _ _ _ answered] rows
    by (simp add: skip_ledger_def skip_row_def waiver_row_def first_row_def claim_record_def override_str_def)
  then show ?thesis using answered by blast
qed

text \<open>
  C38. The ledger never holds more rows than its bound and those of one trimming interval: with the shipped
  retention at most 100255.
\<close>

theorem ledger_stays_bounded:
  assumes "ledger_run r l log" and "0 \<le> re_max_rows r" and "0 < re_trim_every r"
  shows "int (length (le_transitions l)) < re_max_rows r + re_trim_every r"
proof -
  have "int (length log) mod max (re_trim_every r) 1 < re_trim_every r"
    using assms(3) by simp
  then show ?thesis
    using ledger_run_ok [OF assms(1)] assms(2) by (simp add: within_bound_def)
qed

theorem ledger_stays_bounded_witness: "int (length (le_transitions skip_ledger)) < 100256"
  using ledger_stays_bounded [OF skip_ledger_run] by (simp add: DEFAULT_RETENTION_def)

end
