(* ===== verification/Response_Profile.thy ===== *)
theory Response_Profile
  imports Vocabulary
begin

text \<open>
  How a session's answers should read, \<open>crates/glasshouse/src/profile/response.rs\<close>: five independent axes,
  their words, the presets, the instructions they become, and the resolution of six layers into one
  profile with the layer each axis came from. The array of six layers indexed by a layer is a function.
\<close>

section \<open>Axes\<close>

datatype verbosity = Terse | Concise | StandardVerbosity | Elaborate

definition verbosity_slug :: "verbosity \<Rightarrow> rstr" where
  "verbosity_slug v =
     (case v of Terse \<Rightarrow> u ''terse''
      | Concise \<Rightarrow> u ''concise''
      | StandardVerbosity \<Rightarrow> u ''standard''
      | Elaborate \<Rightarrow> u ''elaborate'')"

definition verbosity_from_slug :: "rstr \<Rightarrow> verbosity option" where
  "verbosity_from_slug w =
     (if w = u ''terse'' then Some Terse
      else if w = u ''concise'' then Some Concise
      else if w = u ''standard'' then Some StandardVerbosity
      else if w = u ''elaborate'' then Some Elaborate
      else None)"

datatype audience = PlainAudience | TechnicalAudience | ExecutiveAudience

definition audience_slug :: "audience \<Rightarrow> rstr" where
  "audience_slug v =
     (case v of PlainAudience \<Rightarrow> u ''plain''
      | TechnicalAudience \<Rightarrow> u ''technical''
      | ExecutiveAudience \<Rightarrow> u ''executive'')"

definition audience_from_slug :: "rstr \<Rightarrow> audience option" where
  "audience_from_slug w =
     (if w = u ''plain'' then Some PlainAudience
      else if w = u ''technical'' then Some TechnicalAudience
      else if w = u ''executive'' then Some ExecutiveAudience
      else None)"

datatype narration = SilentNarration | Milestones | DetailedNarration

definition narration_slug :: "narration \<Rightarrow> rstr" where
  "narration_slug v =
     (case v of SilentNarration \<Rightarrow> u ''silent''
      | Milestones \<Rightarrow> u ''milestones''
      | DetailedNarration \<Rightarrow> u ''detailed'')"

definition narration_from_slug :: "rstr \<Rightarrow> narration option" where
  "narration_from_slug w =
     (if w = u ''silent'' then Some SilentNarration
      else if w = u ''milestones'' then Some Milestones
      else if w = u ''detailed'' then Some DetailedNarration
      else None)"

datatype evidence_detail = MinimalEvidence | StandardEvidence | AuditEvidence

definition evidence_detail_slug :: "evidence_detail \<Rightarrow> rstr" where
  "evidence_detail_slug v =
     (case v of MinimalEvidence \<Rightarrow> u ''minimal''
      | StandardEvidence \<Rightarrow> u ''standard''
      | AuditEvidence \<Rightarrow> u ''audit'')"

definition evidence_detail_from_slug :: "rstr \<Rightarrow> evidence_detail option" where
  "evidence_detail_from_slug w =
     (if w = u ''minimal'' then Some MinimalEvidence
      else if w = u ''standard'' then Some StandardEvidence
      else if w = u ''audit'' then Some AuditEvidence
      else None)"

datatype answer_format = Prose | Bullets | ChangeSummary

definition answer_format_slug :: "answer_format \<Rightarrow> rstr" where
  "answer_format_slug v =
     (case v of Prose \<Rightarrow> u ''prose''
      | Bullets \<Rightarrow> u ''bullets''
      | ChangeSummary \<Rightarrow> u ''change-summary'')"

definition answer_format_from_slug :: "rstr \<Rightarrow> answer_format option" where
  "answer_format_from_slug w =
     (if w = u ''prose'' then Some Prose
      else if w = u ''bullets'' then Some Bullets
      else if w = u ''change-summary'' then Some ChangeSummary
      else None)"

datatype dimension = DimVerbosity | DimAudience | DimNarration | DimEvidence | DimFormat

definition DIMENSIONS :: "dimension list" where
  "DIMENSIONS = [DimVerbosity, DimAudience, DimNarration, DimEvidence, DimFormat]"

definition dimension_slug :: "dimension \<Rightarrow> rstr" where
  "dimension_slug d =
     (case d of DimVerbosity \<Rightarrow> u ''verbosity''
      | DimAudience \<Rightarrow> u ''audience''
      | DimNarration \<Rightarrow> u ''narration''
      | DimEvidence \<Rightarrow> u ''evidence''
      | DimFormat \<Rightarrow> u ''format'')"

section \<open>Profiles\<close>

record response_profile =
  rp_verbosity :: verbosity
  rp_audience :: audience
  rp_narration :: narration
  rp_evidence :: evidence_detail
  rp_format :: answer_format

definition axes :: "response_profile \<Rightarrow> (dimension \<times> rstr) list" where
  "axes p =
     [(DimVerbosity, verbosity_slug (rp_verbosity p)),
      (DimAudience, audience_slug (rp_audience p)),
      (DimNarration, narration_slug (rp_narration p)),
      (DimEvidence, evidence_detail_slug (rp_evidence p)),
      (DimFormat, answer_format_slug (rp_format p))]"

definition default_profile :: response_profile where
  "default_profile =
     \<lparr>rp_verbosity = StandardVerbosity, rp_audience = TechnicalAudience, rp_narration = Milestones,
      rp_evidence = StandardEvidence, rp_format = Prose\<rparr>"

section \<open>Instructions\<close>

definition REQUIRED_REPORTS :: "rstr list" where
  "REQUIRED_REPORTS = [u ''changed files'', u ''verification'', u ''risks'', u ''blockers'']"

text \<open>\<open>["a", "b", "c"]\<close> as \<open>a, b and c\<close>.\<close>

definition list_items :: "rstr list \<Rightarrow> rstr" where
  "list_items items =
     (case items of [] \<Rightarrow> []
      | [one] \<Rightarrow> one
      | _ \<Rightarrow> join_with (u '', '') (butlast items) @ u '' and '' @ last items)"

definition floor_directive :: rstr where
  "floor_directive =
     u ''Whatever the settings above ask for, always report '' @ list_items REQUIRED_REPORTS @
     u ''. Concision governs presentation only: never let it reduce analysis, verification, diagnostics, error '' @
     u ''reporting, or checkpoint completeness.''"

definition verbosity_directive :: "verbosity \<Rightarrow> rstr" where
  "verbosity_directive v =
     (case v of Terse \<Rightarrow> u ''Answer in as few words as carry the meaning.''
      | Concise \<Rightarrow> u ''Lead with the outcome and keep the answer short.''
      | StandardVerbosity \<Rightarrow> u ''Answer at ordinary length.''
      | Elaborate \<Rightarrow> u ''Explain the reasoning and the alternatives considered.'')"

definition audience_directive :: "audience \<Rightarrow> rstr" where
  "audience_directive v =
     (case v of PlainAudience \<Rightarrow> u ''Write for a reader who does not know this codebase.''
      | TechnicalAudience \<Rightarrow> u ''Write for an engineer working in this codebase.''
      | ExecutiveAudience \<Rightarrow> u ''Write for a reader who needs the decision and its consequences.'')"

definition narration_directive :: "narration \<Rightarrow> rstr" where
  "narration_directive v =
     (case v of SilentNarration \<Rightarrow> u ''Do not narrate routine steps while working.''
      | Milestones \<Rightarrow> u ''Say what you are doing at each milestone.''
      | DetailedNarration \<Rightarrow> u ''Narrate each step as you take it.'')"

definition evidence_directive :: "evidence_detail \<Rightarrow> rstr" where
  "evidence_directive v =
     (case v of MinimalEvidence \<Rightarrow> u ''Present supporting evidence only where it is asked for.''
      | StandardEvidence \<Rightarrow> u ''Present the evidence a reader needs to check the answer.''
      | AuditEvidence \<Rightarrow> u ''Present every command run and every result observed.'')"

definition format_directive :: "answer_format \<Rightarrow> rstr" where
  "format_directive v =
     (case v of Prose \<Rightarrow> u ''Give the final answer as prose.''
      | Bullets \<Rightarrow> u ''Give the final answer as bullets.''
      | ChangeSummary \<Rightarrow> u ''Give the final answer as a summary of what changed.'')"

definition directives :: "response_profile \<Rightarrow> rstr list" where
  "directives p =
     [verbosity_directive (rp_verbosity p), audience_directive (rp_audience p),
      narration_directive (rp_narration p), evidence_directive (rp_evidence p),
      format_directive (rp_format p), floor_directive]"

definition instruction :: "response_profile \<Rightarrow> rstr" where
  "instruction p = join_with (u '' '') (directives p)"

section \<open>Presets and roles\<close>

record preset =
  pr_name :: rstr
  pr_description :: rstr
  pr_profile :: response_profile

definition presets :: "preset list" where
  "presets =
     [\<lparr>pr_name = u ''concise-technical'',
       pr_description = u ''leads with outcomes and suppresses routine narration, for an engineer '' @
         u ''working in this codebase'',
       pr_profile = \<lparr>rp_verbosity = Concise, rp_audience = TechnicalAudience, rp_narration = SilentNarration,
         rp_evidence = StandardEvidence, rp_format = ChangeSummary\<rparr>\<rparr>,
      \<lparr>pr_name = u ''standard'',
       pr_description = u ''ordinary length, milestone narration, prose'',
       pr_profile = \<lparr>rp_verbosity = StandardVerbosity, rp_audience = TechnicalAudience, rp_narration = Milestones,
         rp_evidence = StandardEvidence, rp_format = Prose\<rparr>\<rparr>,
      \<lparr>pr_name = u ''audit'',
       pr_description = u ''every command and result presented, for reviewing work after the fact'',
       pr_profile = \<lparr>rp_verbosity = StandardVerbosity, rp_audience = TechnicalAudience, rp_narration = DetailedNarration,
         rp_evidence = AuditEvidence, rp_format = ChangeSummary\<rparr>\<rparr>,
      \<lparr>pr_name = u ''explainer'',
       pr_description = u ''reasoning and alternatives, written for a reader new to this codebase'',
       pr_profile = \<lparr>rp_verbosity = Elaborate, rp_audience = PlainAudience, rp_narration = Milestones,
         rp_evidence = StandardEvidence, rp_format = Prose\<rparr>\<rparr>,
      \<lparr>pr_name = u ''brief'',
       pr_description = u ''as few words as carry the meaning, decision first'',
       pr_profile = \<lparr>rp_verbosity = Terse, rp_audience = ExecutiveAudience, rp_narration = SilentNarration,
         rp_evidence = MinimalEvidence, rp_format = Bullets\<rparr>\<rparr>]"

definition preset_named :: "rstr \<Rightarrow> preset option" where
  "preset_named name = List.find (\<lambda>p. pr_name p = name) presets"

definition preset_names :: rstr where
  "preset_names = join_with (u '', '') (map pr_name presets)"

datatype response_role = OrchestratorRole | WorkerRole | ReviewerRole | ExplainerRole | InteractiveRole

definition ROLES :: "response_role list" where
  "ROLES = [OrchestratorRole, WorkerRole, ReviewerRole, ExplainerRole, InteractiveRole]"

definition role_slug :: "response_role \<Rightarrow> rstr" where
  "role_slug r =
     (case r of OrchestratorRole \<Rightarrow> u ''orchestrator''
      | WorkerRole \<Rightarrow> u ''worker''
      | ReviewerRole \<Rightarrow> u ''reviewer''
      | ExplainerRole \<Rightarrow> u ''explainer''
      | InteractiveRole \<Rightarrow> u ''interactive'')"

definition role_from_slug :: "rstr \<Rightarrow> response_role option" where
  "role_from_slug slug = List.find (\<lambda>r. role_slug r = slug) ROLES"

definition default_preset :: "response_role \<Rightarrow> rstr" where
  "default_preset r =
     (case r of OrchestratorRole \<Rightarrow> u ''concise-technical''
      | WorkerRole \<Rightarrow> u ''audit''
      | ReviewerRole \<Rightarrow> u ''standard''
      | ExplainerRole \<Rightarrow> u ''explainer''
      | InteractiveRole \<Rightarrow> u ''standard'')"

definition role_names :: rstr where
  "role_names = join_with (u '', '') (map role_slug ROLES)"

section \<open>Layers\<close>

datatype precedence_layer = TaskOverride | SessionLayer | RoleLayer | ProjectLayer | UserDefault | HarnessDefaultLayer

definition LAYERS :: "precedence_layer list" where
  "LAYERS = [TaskOverride, SessionLayer, RoleLayer, ProjectLayer, UserDefault, HarnessDefaultLayer]"

definition layer_slug :: "precedence_layer \<Rightarrow> rstr" where
  "layer_slug l =
     (case l of TaskOverride \<Rightarrow> u ''task override''
      | SessionLayer \<Rightarrow> u ''session''
      | RoleLayer \<Rightarrow> u ''role''
      | ProjectLayer \<Rightarrow> u ''project''
      | UserDefault \<Rightarrow> u ''user default''
      | HarnessDefaultLayer \<Rightarrow> u ''harness default'')"

record profile_layer =
  pl_preset :: "preset option"
  pl_verbosity :: "verbosity option"
  pl_audience :: "audience option"
  pl_narration :: "narration option"
  pl_evidence :: "evidence_detail option"
  pl_format :: "answer_format option"

definition empty_layer :: profile_layer where
  "empty_layer =
     \<lparr>pl_preset = None, pl_verbosity = None, pl_audience = None, pl_narration = None, pl_evidence = None,
      pl_format = None\<rparr>"

definition layer_from_preset :: "preset \<Rightarrow> profile_layer" where
  "layer_from_preset p = empty_layer\<lparr>pl_preset := Some p\<rparr>"

definition layer_from_profile :: "response_profile \<Rightarrow> profile_layer" where
  "layer_from_profile p =
     \<lparr>pl_preset = None, pl_verbosity = Some (rp_verbosity p), pl_audience = Some (rp_audience p),
      pl_narration = Some (rp_narration p), pl_evidence = Some (rp_evidence p), pl_format = Some (rp_format p)\<rparr>"

definition layer_is_empty :: "profile_layer \<Rightarrow> bool" where
  "layer_is_empty l \<longleftrightarrow>
     pl_preset l = None \<and> pl_verbosity l = None \<and> pl_audience l = None \<and> pl_narration l = None \<and>
     pl_evidence l = None \<and> pl_format l = None"

definition says :: "profile_layer \<Rightarrow> dimension \<Rightarrow> rstr option" where
  "says l d =
     (let explicit =
        (case d of
           DimVerbosity \<Rightarrow> map_option verbosity_slug (pl_verbosity l)
         | DimAudience \<Rightarrow> map_option audience_slug (pl_audience l)
         | DimNarration \<Rightarrow> map_option narration_slug (pl_narration l)
         | DimEvidence \<Rightarrow> map_option evidence_detail_slug (pl_evidence l)
         | DimFormat \<Rightarrow> map_option answer_format_slug (pl_format l))
      in (case explicit of
            Some s \<Rightarrow> Some s
          | None \<Rightarrow> map_option (\<lambda>preset. case d of
                DimVerbosity \<Rightarrow> verbosity_slug (rp_verbosity (pr_profile preset))
              | DimAudience \<Rightarrow> audience_slug (rp_audience (pr_profile preset))
              | DimNarration \<Rightarrow> narration_slug (rp_narration (pr_profile preset))
              | DimEvidence \<Rightarrow> evidence_detail_slug (rp_evidence (pr_profile preset))
              | DimFormat \<Rightarrow> answer_format_slug (rp_format (pr_profile preset))) (pl_preset l)))"

type_synonym precedence_stack = "precedence_layer \<Rightarrow> profile_layer"

definition empty_stack :: precedence_stack where
  "empty_stack = (\<lambda>_. empty_layer)"

definition stack_set :: "precedence_layer \<Rightarrow> profile_layer \<Rightarrow> precedence_stack \<Rightarrow> precedence_stack" where
  "stack_set layer value stack = stack(layer := value)"

section \<open>Resolution\<close>

record resolved_axis =
  ra_dimension :: dimension
  ra_value :: rstr
  ra_source :: precedence_layer

record resolved_profile =
  re_profile :: response_profile
  re_sources :: "(dimension \<times> precedence_layer) list"

text \<open>What an axis is when no layer speaks of it.\<close>

definition default_axis :: "dimension \<Rightarrow> resolved_axis" where
  "default_axis d =
     \<lparr>ra_dimension = d,
      ra_value = (case d of
         DimVerbosity \<Rightarrow> verbosity_slug (rp_verbosity default_profile)
       | DimAudience \<Rightarrow> audience_slug (rp_audience default_profile)
       | DimNarration \<Rightarrow> narration_slug (rp_narration default_profile)
       | DimEvidence \<Rightarrow> evidence_detail_slug (rp_evidence default_profile)
       | DimFormat \<Rightarrow> answer_format_slug (rp_format default_profile)),
      ra_source = HarnessDefaultLayer\<rparr>"

definition resolve_axis :: "precedence_stack \<Rightarrow> dimension \<Rightarrow> resolved_axis" where
  "resolve_axis stack d =
     (case find_map (\<lambda>layer. map_option (\<lambda>value. \<lparr>ra_dimension = d, ra_value = value, ra_source = layer\<rparr>)
          (says (stack layer) d)) LAYERS of
        Some axis \<Rightarrow> axis
      | None \<Rightarrow> default_axis d)"

text \<open>The code looks a dimension up in the five axes, which is the axis resolved for it.\<close>

definition slug_of :: "resolved_axis list \<Rightarrow> dimension \<Rightarrow> rstr" where
  "slug_of resolved d =
     (case List.find (\<lambda>axis. ra_dimension axis = d) resolved of Some axis \<Rightarrow> ra_value axis | None \<Rightarrow> [])"

definition unwrap_or :: "'a \<Rightarrow> 'a option \<Rightarrow> 'a" where
  "unwrap_or d x = (case x of Some y \<Rightarrow> y | None \<Rightarrow> d)"

definition resolve_profile :: "precedence_stack \<Rightarrow> resolved_profile" where
  "resolve_profile stack =
     (let resolved = map (resolve_axis stack) DIMENSIONS;
          slug = slug_of resolved;
          fallback = default_profile
      in \<lparr>re_profile =
            \<lparr>rp_verbosity = unwrap_or (rp_verbosity fallback) (verbosity_from_slug (slug DimVerbosity)),
             rp_audience = unwrap_or (rp_audience fallback) (audience_from_slug (slug DimAudience)),
             rp_narration = unwrap_or (rp_narration fallback) (narration_from_slug (slug DimNarration)),
             rp_evidence = unwrap_or (rp_evidence fallback) (evidence_detail_from_slug (slug DimEvidence)),
             rp_format = unwrap_or (rp_format fallback) (answer_format_from_slug (slug DimFormat))\<rparr>,
          re_sources = map (\<lambda>axis. (ra_dimension axis, ra_source axis)) resolved\<rparr>)"

definition source_of :: "resolved_profile \<Rightarrow> dimension \<Rightarrow> precedence_layer option" where
  "source_of r d = map_option snd (List.find (\<lambda>(candidate, _). candidate = d) (re_sources r))"

definition is_harness_default :: "resolved_profile \<Rightarrow> bool" where
  "is_harness_default r \<longleftrightarrow> list_all (\<lambda>(_, source). source = HarnessDefaultLayer) (re_sources r)"

text \<open>The axes read back out of a resolved profile; \<open>None\<close> is the panic of the source.\<close>

definition resolved_axes :: "resolved_profile \<Rightarrow> resolved_axis list option" where
  "resolved_axes r =
     those (map (\<lambda>(d, source). map_option (\<lambda>(_, value). \<lparr>ra_dimension = d, ra_value = value, ra_source = source\<rparr>)
       (List.find (\<lambda>(candidate, _). candidate = d) (axes (re_profile r)))) (re_sources r))"

section \<open>Lemmas\<close>

interpretation verbosity_words: word_codec verbosity_slug verbosity_from_slug
  by unfold_locales (auto simp: verbosity_slug_def verbosity_from_slug_def split: verbosity.splits if_splits)

interpretation audience_words: word_codec audience_slug audience_from_slug
  by unfold_locales (auto simp: audience_slug_def audience_from_slug_def split: audience.splits if_splits)

interpretation narration_words: word_codec narration_slug narration_from_slug
  by unfold_locales (auto simp: narration_slug_def narration_from_slug_def split: narration.splits if_splits)

interpretation evidence_detail_words: word_codec evidence_detail_slug evidence_detail_from_slug
  by unfold_locales (auto simp: evidence_detail_slug_def evidence_detail_from_slug_def split: evidence_detail.splits if_splits)

interpretation answer_format_words: word_codec answer_format_slug answer_format_from_slug
  by unfold_locales (auto simp: answer_format_slug_def answer_format_from_slug_def split: answer_format.splits if_splits)

text \<open>What a layer says of one axis, on the values themselves: the axis if it names it, else its preset's.\<close>

definition spoken :: "(profile_layer \<Rightarrow> 'a option) \<Rightarrow> (response_profile \<Rightarrow> 'a) \<Rightarrow> profile_layer \<Rightarrow> 'a option" where
  "spoken field value l =
     (case field l of Some v \<Rightarrow> Some v | None \<Rightarrow> map_option (\<lambda>p. value (pr_profile p)) (pl_preset l))"

definition first_word ::
    "(profile_layer \<Rightarrow> 'a option) \<Rightarrow> (response_profile \<Rightarrow> 'a) \<Rightarrow> precedence_stack \<Rightarrow> ('a \<times> precedence_layer) option" where
  "first_word field value stack =
     find_map (\<lambda>layer. map_option (\<lambda>v. (v, layer)) (spoken field value (stack layer))) LAYERS"

lemma says_spoken:
  "says l DimVerbosity = map_option verbosity_slug (spoken pl_verbosity rp_verbosity l)"
  "says l DimAudience = map_option audience_slug (spoken pl_audience rp_audience l)"
  "says l DimNarration = map_option narration_slug (spoken pl_narration rp_narration l)"
  "says l DimEvidence = map_option evidence_detail_slug (spoken pl_evidence rp_evidence l)"
  "says l DimFormat = map_option answer_format_slug (spoken pl_format rp_format l)"
  by (simp_all add: says_def spoken_def option.map_comp comp_def split: option.split)

lemma resolve_axis_word:
  assumes "\<And>l. says l d = map_option slug (spoken field value l)"
  shows "resolve_axis stack d =
    (case first_word field value stack of
       Some (v, layer) \<Rightarrow> \<lparr>ra_dimension = d, ra_value = slug v, ra_source = layer\<rparr>
     | None \<Rightarrow> default_axis d)"
proof -
  have "find_map (\<lambda>layer. map_option (\<lambda>value. \<lparr>ra_dimension = d, ra_value = value, ra_source = layer\<rparr>)
      (says (stack layer) d)) layers =
    map_option (\<lambda>(v, layer). \<lparr>ra_dimension = d, ra_value = slug v, ra_source = layer\<rparr>)
      (find_map (\<lambda>layer. map_option (\<lambda>v. (v, layer)) (spoken field value (stack layer))) layers)" for layers
    by (induction layers) (auto simp: assms split: option.splits)
  then have "find_map (\<lambda>layer. map_option (\<lambda>value. \<lparr>ra_dimension = d, ra_value = value, ra_source = layer\<rparr>)
      (says (stack layer) d)) LAYERS =
    map_option (\<lambda>(v, layer). \<lparr>ra_dimension = d, ra_value = slug v, ra_source = layer\<rparr>)
      (first_word field value stack)"
    by (simp only: first_word_def)
  then show ?thesis
    unfolding resolve_axis_def by (cases "first_word field value stack") (auto simp only: option.map option.case prod.case)
qed

lemmas axis_words = resolve_axis_word [OF says_spoken(1)] resolve_axis_word [OF says_spoken(2)]
  resolve_axis_word [OF says_spoken(3)] resolve_axis_word [OF says_spoken(4)] resolve_axis_word [OF says_spoken(5)]

lemmas slug_words = verbosity_words.reads_back audience_words.reads_back narration_words.reads_back
  evidence_detail_words.reads_back answer_format_words.reads_back

lemma all_dimensions: "(\<forall>d. P d) \<longleftrightarrow> P DimVerbosity \<and> P DimAudience \<and> P DimNarration \<and> P DimEvidence \<and> P DimFormat"
  by (metis dimension.exhaust)

lemma dimension_of_axis [simp]: "ra_dimension (resolve_axis stack d) = d"
  by (auto simp: resolve_axis_def default_axis_def dest!: find_map_SomeD split: option.split)

lemma slug_of_resolved [simp]: "slug_of (map (resolve_axis stack) DIMENSIONS) d = ra_value (resolve_axis stack d)"
  by (cases d) (simp_all add: slug_of_def DIMENSIONS_def)

lemma source_of_resolved [simp]: "source_of (resolve_profile stack) d = Some (ra_source (resolve_axis stack d))"
  by (cases d) (simp_all add: source_of_def resolve_profile_def DIMENSIONS_def Let_def)

lemma resolved_values:
  "rp_verbosity (re_profile (resolve_profile stack)) =
     (case first_word pl_verbosity rp_verbosity stack of Some (v, _) \<Rightarrow> v | None \<Rightarrow> StandardVerbosity)"
  "rp_audience (re_profile (resolve_profile stack)) =
     (case first_word pl_audience rp_audience stack of Some (v, _) \<Rightarrow> v | None \<Rightarrow> TechnicalAudience)"
  "rp_narration (re_profile (resolve_profile stack)) =
     (case first_word pl_narration rp_narration stack of Some (v, _) \<Rightarrow> v | None \<Rightarrow> Milestones)"
  "rp_evidence (re_profile (resolve_profile stack)) =
     (case first_word pl_evidence rp_evidence stack of Some (v, _) \<Rightarrow> v | None \<Rightarrow> StandardEvidence)"
  "rp_format (re_profile (resolve_profile stack)) =
     (case first_word pl_format rp_format stack of Some (v, _) \<Rightarrow> v | None \<Rightarrow> Prose)"
  by (simp_all add: resolve_profile_def Let_def axis_words slug_words unwrap_or_def default_axis_def
      default_profile_def split: option.split)

lemma silent_layer: "layer_is_empty l \<longleftrightarrow> (\<forall>d. says l d = None)"
proof
  assume silent: "\<forall>d. says l d = None"
  show "layer_is_empty l"
    using silent [THEN spec, of DimVerbosity] silent [THEN spec, of DimAudience] silent [THEN spec, of DimNarration]
      silent [THEN spec, of DimEvidence] silent [THEN spec, of DimFormat]
    by (simp add: layer_is_empty_def says_spoken spoken_def split: option.splits)
qed (auto simp: layer_is_empty_def says_def split: dimension.splits)

section \<open>Properties\<close>

text \<open>
  C23. The resolution goes through the words of the axes, and is what it would be on the values: each axis is
  the first that a layer, in the order of precedence, says of it, explicitly or by its preset, and the layer
  that said it is the recorded source; an axis nobody speaks of is the standard one, from the harness.
\<close>

theorem resolution_takes_the_first_word:
  "let r = resolve_profile stack; p = re_profile r
   in (rp_verbosity p, source_of r DimVerbosity) =
        (case first_word pl_verbosity rp_verbosity stack of
           Some (v, layer) \<Rightarrow> (v, Some layer) | None \<Rightarrow> (StandardVerbosity, Some HarnessDefaultLayer)) \<and>
      (rp_audience p, source_of r DimAudience) =
        (case first_word pl_audience rp_audience stack of
           Some (v, layer) \<Rightarrow> (v, Some layer) | None \<Rightarrow> (TechnicalAudience, Some HarnessDefaultLayer)) \<and>
      (rp_narration p, source_of r DimNarration) =
        (case first_word pl_narration rp_narration stack of
           Some (v, layer) \<Rightarrow> (v, Some layer) | None \<Rightarrow> (Milestones, Some HarnessDefaultLayer)) \<and>
      (rp_evidence p, source_of r DimEvidence) =
        (case first_word pl_evidence rp_evidence stack of
           Some (v, layer) \<Rightarrow> (v, Some layer) | None \<Rightarrow> (StandardEvidence, Some HarnessDefaultLayer)) \<and>
      (rp_format p, source_of r DimFormat) =
        (case first_word pl_format rp_format stack of
           Some (v, layer) \<Rightarrow> (v, Some layer) | None \<Rightarrow> (Prose, Some HarnessDefaultLayer))"
  by (simp add: Let_def resolved_values axis_words default_axis_def option.case_distrib [where h = ra_source]
      split: option.split)

text \<open>
  A profile is the harness's own default exactly when every layer above it is silent.
\<close>

theorem unconfigured_iff_silent:
  "is_harness_default (resolve_profile stack) \<longleftrightarrow>
     list_all (\<lambda>layer. layer_is_empty (stack layer)) (butlast LAYERS)"
proof -
  have "ra_source (resolve_axis stack d) = HarnessDefaultLayer \<longleftrightarrow>
      (\<forall>layer\<in>set (butlast LAYERS). says (stack layer) d = None)" for d
    by (auto simp: resolve_axis_def default_axis_def LAYERS_def split: option.splits)
  then show ?thesis
    by (simp add: is_harness_default_def resolve_profile_def Let_def list_all_iff silent_layer DIMENSIONS_def
        all_dimensions ball_conj_distrib)
qed

end
