(* ===== verification/Session_Record.thy ===== *)
theory Session_Record
  imports Response_Profile Backends
begin

text \<open>
  What glasshouse stores of a session, \<open>crates/glasshouse/src/session/store/record.rs\<close>, with the lifecycle
  events it follows (\<open>events/mod.rs\<close>, \<open>session/lifecycle.rs\<close>): the vocabularies of the columns, the labels
  a person gives, the record, the row of the table it is kept in, and the reader of a row
  (\<open>read_record\<close> of \<open>session/store/mod.rs\<close>). A column of text holds a list of code points; that its bytes
  are UTF-8 is the database's business.
\<close>

section \<open>Vocabularies\<close>

datatype session_role = NormalSession | OrchestratorSession | WorkerSession

definition role_str :: "session_role \<Rightarrow> rstr" where
  "role_str v =
     (case v of NormalSession \<Rightarrow> u ''normal''
      | OrchestratorSession \<Rightarrow> u ''orchestrator''
      | WorkerSession \<Rightarrow> u ''worker'')"

definition role_from_str :: "rstr \<Rightarrow> session_role option" where
  "role_from_str w =
     (if w = u ''normal'' then Some NormalSession
      else if w = u ''orchestrator'' then Some OrchestratorSession
      else if w = u ''worker'' then Some WorkerSession
      else None)"

datatype presentation = Embedded | Headless | ExternalPane

definition presentation_str :: "presentation \<Rightarrow> rstr" where
  "presentation_str v =
     (case v of Embedded \<Rightarrow> u ''embedded''
      | Headless \<Rightarrow> u ''headless''
      | ExternalPane \<Rightarrow> u ''external'')"

definition presentation_from_str :: "rstr \<Rightarrow> presentation option" where
  "presentation_from_str w =
     (if w = u ''embedded'' then Some Embedded
      else if w = u ''headless'' then Some Headless
      else if w = u ''external'' then Some ExternalPane
      else None)"

datatype session_protocol = AnthropicProtocol | ResponsesProtocol | ChatProtocol | UnknownProtocol

definition protocol_str :: "session_protocol \<Rightarrow> rstr" where
  "protocol_str v =
     (case v of AnthropicProtocol \<Rightarrow> u ''anthropic-messages''
      | ResponsesProtocol \<Rightarrow> u ''openai-responses''
      | ChatProtocol \<Rightarrow> u ''openai-chat''
      | UnknownProtocol \<Rightarrow> u ''unknown'')"

definition protocol_from_str :: "rstr \<Rightarrow> session_protocol option" where
  "protocol_from_str w =
     (if w = u ''anthropic-messages'' then Some AnthropicProtocol
      else if w = u ''openai-responses'' then Some ResponsesProtocol
      else if w = u ''openai-chat'' then Some ChatProtocol
      else if w = u ''unknown'' then Some UnknownProtocol
      else None)"

datatype pairing_class = VendorNative | VendorSupported | ProtocolNative | ProtocolCompatible | ProtocolTranslated | UnknownPairing

definition pairing_str :: "pairing_class \<Rightarrow> rstr" where
  "pairing_str v =
     (case v of VendorNative \<Rightarrow> u ''vendor-native''
      | VendorSupported \<Rightarrow> u ''vendor-supported''
      | ProtocolNative \<Rightarrow> u ''protocol-native''
      | ProtocolCompatible \<Rightarrow> u ''protocol-compatible''
      | ProtocolTranslated \<Rightarrow> u ''protocol-translated''
      | UnknownPairing \<Rightarrow> u ''unknown'')"

definition pairing_from_str :: "rstr \<Rightarrow> pairing_class option" where
  "pairing_from_str w =
     (if w = u ''vendor-native'' then Some VendorNative
      else if w = u ''vendor-supported'' then Some VendorSupported
      else if w = u ''protocol-native'' then Some ProtocolNative
      else if w = u ''protocol-compatible'' then Some ProtocolCompatible
      else if w = u ''protocol-translated'' then Some ProtocolTranslated
      else if w = u ''unknown'' then Some UnknownPairing
      else None)"

datatype response_mechanism = NativeMechanism | AdditiveMechanism | NotApplied

definition mechanism_str :: "response_mechanism \<Rightarrow> rstr" where
  "mechanism_str v =
     (case v of NativeMechanism \<Rightarrow> u ''native''
      | AdditiveMechanism \<Rightarrow> u ''additive''
      | NotApplied \<Rightarrow> u ''none'')"

definition mechanism_from_str :: "rstr \<Rightarrow> response_mechanism option" where
  "mechanism_from_str w =
     (if w = u ''native'' then Some NativeMechanism
      else if w = u ''additive'' then Some AdditiveMechanism
      else if w = u ''none'' then Some NotApplied
      else None)"

datatype lifecycle = Starting | Running | Idle | WaitingForUser | Stopped | Failed | Closed

definition lifecycle_str :: "lifecycle \<Rightarrow> rstr" where
  "lifecycle_str v =
     (case v of Starting \<Rightarrow> u ''starting''
      | Running \<Rightarrow> u ''running''
      | Idle \<Rightarrow> u ''idle''
      | WaitingForUser \<Rightarrow> u ''waiting_for_user''
      | Stopped \<Rightarrow> u ''stopped''
      | Failed \<Rightarrow> u ''failed''
      | Closed \<Rightarrow> u ''closed'')"

definition lifecycle_from_str :: "rstr \<Rightarrow> lifecycle option" where
  "lifecycle_from_str w =
     (if w = u ''starting'' then Some Starting
      else if w = u ''running'' then Some Running
      else if w = u ''idle'' then Some Idle
      else if w = u ''waiting_for_user'' then Some WaitingForUser
      else if w = u ''stopped'' then Some Stopped
      else if w = u ''failed'' then Some Failed
      else if w = u ''closed'' then Some Closed
      else None)"

datatype supervision = Owned | Adopted | Quarantined | Lost

definition supervision_str :: "supervision \<Rightarrow> rstr" where
  "supervision_str v =
     (case v of Owned \<Rightarrow> u ''owned''
      | Adopted \<Rightarrow> u ''adopted''
      | Quarantined \<Rightarrow> u ''quarantined''
      | Lost \<Rightarrow> u ''lost'')"

definition supervision_from_str :: "rstr \<Rightarrow> supervision option" where
  "supervision_from_str w =
     (if w = u ''owned'' then Some Owned
      else if w = u ''adopted'' then Some Adopted
      else if w = u ''quarantined'' then Some Quarantined
      else if w = u ''lost'' then Some Lost
      else None)"

definition is_live :: "lifecycle \<Rightarrow> bool" where
  "is_live l = (case l of Starting \<Rightarrow> True | Running \<Rightarrow> True | Idle \<Rightarrow> True | WaitingForUser \<Rightarrow> True
     | Stopped \<Rightarrow> False | Failed \<Rightarrow> False | Closed \<Rightarrow> False)"

definition LIVE_LIFECYCLES :: "lifecycle list" where
  "LIVE_LIFECYCLES = [Starting, Running, Idle, WaitingForUser]"

section \<open>What a harness reports\<close>

datatype turn_outcome = TurnCompleted | TurnFailed

datatype message_origin = UserKeystroke | Machine

definition origin_word :: "message_origin \<Rightarrow> rstr" where
  "origin_word m = (case m of UserKeystroke \<Rightarrow> u ''user_keystroke'' | Machine \<Rightarrow> u ''machine'')"

record process_exit =
  px_code :: nat
  px_signal :: "rstr option"

definition is_crash :: "process_exit \<Rightarrow> bool" where
  "is_crash x \<longleftrightarrow> px_signal x \<noteq> None \<or> px_code x \<noteq> 0"

definition exit_state :: "process_exit \<Rightarrow> lifecycle" where
  "exit_state x = (if is_crash x then Failed else Stopped)"

datatype gateway_failure = GatewayUnreachable | GatewayTimedOut | GatewayRejected

definition failure_word :: "gateway_failure \<Rightarrow> rstr" where
  "failure_word f =
     (case f of GatewayUnreachable \<Rightarrow> u ''unreachable'' | GatewayTimedOut \<Rightarrow> u ''timed out''
      | GatewayRejected \<Rightarrow> u ''rejected'')"

datatype lifecycle_event =
    SessionStarted
  | SessionResumed
  | TurnStarted
  | TurnEnded turn_outcome
  | WaitsForUser
  | TextDelivered message_origin nat
  | InterruptDelivered message_origin
  | ProcessExited process_exit
  | OutputEnded
  | GatewayUnhealthy rstr gateway_failure
  | GatewayBackendChanged rstr rstr rstr
  | FileTouched rstr

definition event_kind :: "lifecycle_event \<Rightarrow> rstr" where
  "event_kind e =
     (case e of
        SessionStarted \<Rightarrow> u ''session_started''
      | SessionResumed \<Rightarrow> u ''session_resumed''
      | TurnStarted \<Rightarrow> u ''turn_started''
      | TurnEnded _ \<Rightarrow> u ''turn_ended''
      | WaitsForUser \<Rightarrow> u ''waiting_for_user''
      | TextDelivered _ _ \<Rightarrow> u ''text_delivered''
      | InterruptDelivered _ \<Rightarrow> u ''interrupt_delivered''
      | ProcessExited _ \<Rightarrow> u ''process_exited''
      | OutputEnded \<Rightarrow> u ''output_ended''
      | GatewayUnhealthy _ _ \<Rightarrow> u ''gateway_unhealthy''
      | GatewayBackendChanged _ _ _ \<Rightarrow> u ''gateway_backend_changed''
      | FileTouched _ \<Rightarrow> u ''file_touched'')"

definition implied_state :: "lifecycle_event \<Rightarrow> lifecycle option" where
  "implied_state e =
     (case e of
        SessionStarted \<Rightarrow> Some Running
      | SessionResumed \<Rightarrow> Some Running
      | TurnStarted \<Rightarrow> Some Running
      | TurnEnded _ \<Rightarrow> Some Idle
      | WaitsForUser \<Rightarrow> Some WaitingForUser
      | TextDelivered _ _ \<Rightarrow> None
      | InterruptDelivered _ \<Rightarrow> None
      | ProcessExited _ \<Rightarrow> None
      | OutputEnded \<Rightarrow> None
      | GatewayUnhealthy _ _ \<Rightarrow> None
      | GatewayBackendChanged _ _ _ \<Rightarrow> None
      | FileTouched _ \<Rightarrow> None)"

definition event_for :: "rstr \<Rightarrow> lifecycle_event option" where
  "event_for event =
     (if event = u ''SessionStart'' then Some TurnStarted
      else if event = u ''UserPromptSubmit'' then Some TurnStarted
      else if event = u ''PermissionRequest'' then Some WaitsForUser
      else if event = u ''Stop'' then Some (TurnEnded TurnCompleted)
      else if event = u ''StopFailure'' then Some (TurnEnded TurnFailed)
      else None)"

definition lifecycle_for :: "rstr \<Rightarrow> lifecycle option" where
  "lifecycle_for event = (case event_for event of None \<Rightarrow> None | Some e \<Rightarrow> implied_state e)"

definition precedes_native_compaction :: "rstr \<Rightarrow> bool" where
  "precedes_native_compaction event \<longleftrightarrow> event = u ''PreCompact''"

definition may_apply :: "lifecycle \<Rightarrow> lifecycle \<Rightarrow> bool" where
  "may_apply current to \<longleftrightarrow> is_live current \<and> current \<noteq> to"

section \<open>Errors\<close>

datatype label_error = EmptyLabel | LabelTooLong nat nat | ControlInLabel

datatype disposition = DispActive | DispResumable | DispClosed | DispFailed

record process_identity =
  pi_pid :: nat
  pi_started_at_ms :: int
  pi_host :: rstr

datatype supervision_refusal =
    Duplicate rstr process_identity
  | QuarantineHolds rstr rstr rstr

datatype session_error =
    NoSession rstr
  | ForeignProject rstr rstr rstr
  | NotResumable rstr rstr
  | AmbiguousPrefix rstr "rstr list"
  | MalformedPrefix rstr
  | Refused supervision_refusal
  | UnknownColumnValue rstr rstr rstr
  | NotAHarness rstr rstr
  | UnknownHarness rstr
  | StillLive rstr lifecycle
  | NotClaimable rstr lifecycle
  | ClaimPath rstr
  | NotDeclarable rstr lifecycle
  | BadLabel label_error
  | Unbound
  | SqlFailure rstr

section \<open>Labels\<close>

definition MAX_SESSION_NAME :: nat where
  "MAX_SESSION_NAME = 64"

definition MAX_SESSION_PURPOSE :: nat where
  "MAX_SESSION_PURPOSE = 32"

definition parse_label :: "nat \<Rightarrow> rstr \<Rightarrow> (label_error + rstr)" where
  "parse_label limit value =
     (let trimmed = trim value
      in if trimmed = [] then Inl EmptyLabel
         else if length trimmed > limit then Inl (LabelTooLong limit (length trimmed))
         else if list_ex is_control trimmed then Inl ControlInLabel
         else Inr trimmed)"

definition label_read :: "nat \<Rightarrow> rstr \<Rightarrow> rstr option" where
  "label_read limit value = (case parse_label limit value of Inl _ \<Rightarrow> None | Inr label \<Rightarrow> Some label)"

section \<open>Two encoded columns\<close>

definition encode_response_profile :: "response_profile \<Rightarrow> rstr" where
  "encode_response_profile p =
     join_with (u '','') (map (\<lambda>(d, value). dimension_slug d @ u ''='' @ value) (axes p))"

record partial_profile =
  pp_verbosity :: "verbosity option"
  pp_audience :: "audience option"
  pp_narration :: "narration option"
  pp_evidence :: "evidence_detail option"
  pp_format :: "answer_format option"

definition decode_field :: "rstr \<Rightarrow> partial_profile \<Rightarrow> partial_profile option" where
  "decode_field field p =
     (case split_once (u ''='') field of
        None \<Rightarrow> None
      | Some (name, slug) \<Rightarrow>
          if name = dimension_slug DimVerbosity then Some (p\<lparr>pp_verbosity := verbosity_from_slug slug\<rparr>)
          else if name = dimension_slug DimAudience then Some (p\<lparr>pp_audience := audience_from_slug slug\<rparr>)
          else if name = dimension_slug DimNarration then Some (p\<lparr>pp_narration := narration_from_slug slug\<rparr>)
          else if name = dimension_slug DimEvidence then Some (p\<lparr>pp_evidence := evidence_detail_from_slug slug\<rparr>)
          else if name = dimension_slug DimFormat then Some (p\<lparr>pp_format := answer_format_from_slug slug\<rparr>)
          else None)"

primrec decode_fields :: "rstr list \<Rightarrow> partial_profile \<Rightarrow> partial_profile option" where
  "decode_fields [] p = Some p"
| "decode_fields (field # rest) p =
     (case decode_field field p of None \<Rightarrow> None | Some p' \<Rightarrow> decode_fields rest p')"

definition decode_response_profile :: "rstr \<Rightarrow> response_profile option" where
  "decode_response_profile value =
     (case decode_fields (split_on (\<lambda>c. c = 44) value)
         \<lparr>pp_verbosity = None, pp_audience = None, pp_narration = None, pp_evidence = None, pp_format = None\<rparr> of
        None \<Rightarrow> None
      | Some p \<Rightarrow>
          (case (pp_verbosity p, pp_audience p, pp_narration p, pp_evidence p, pp_format p) of
             (Some v, Some a, Some n, Some e, Some f) \<Rightarrow>
               Some \<lparr>rp_verbosity = v, rp_audience = a, rp_narration = n, rp_evidence = e, rp_format = f\<rparr>
           | _ \<Rightarrow> None))"

definition encode_assigned_model :: "assigned_model \<Rightarrow> rstr" where
  "encode_assigned_model m = (case m of Named i \<Rightarrow> u ''named:'' @ i | HarnessDefault \<Rightarrow> u ''harness-default'')"

definition decode_assigned_model :: "rstr \<Rightarrow> assigned_model option" where
  "decode_assigned_model value =
     (if value = u ''harness-default'' then Some HarnessDefault
      else (case strip_pre (u ''named:'') value of
              None \<Rightarrow> None
            | Some i \<Rightarrow> if i = [] then None else Some (Named i)))"

section \<open>Records\<close>

record session_record =
  ss_id :: rstr
  ss_project_id :: rstr
  ss_harness :: rstr
  ss_native :: "rstr option"
  ss_role :: session_role
  ss_lifecycle :: lifecycle
  ss_presentation :: presentation
  ss_presentation_ref :: "rstr option"
  ss_created_at :: int
  ss_last_activity_at :: int
  ss_launch_profile :: "rstr option"
  ss_backend_resource :: "rstr option"
  ss_model :: "assigned_model option"
  ss_pairing_class :: "pairing_class option"
  ss_protocol :: "session_protocol option"
  ss_response_profile :: "response_profile option"
  ss_response_mechanism :: "response_mechanism option"
  ss_display_name :: "rstr option"
  ss_purpose :: "rstr option"
  ss_source_session_id :: "rstr option"
  ss_observed_compactions :: "int option"
  ss_last_seen_commit :: "rstr option"
  ss_entitlement :: "rstr option"

definition disposition_of :: "session_record \<Rightarrow> disposition" where
  "disposition_of r =
     (case ss_lifecycle r of
        Failed \<Rightarrow> DispFailed
      | Stopped \<Rightarrow> if ss_native r \<noteq> None then DispResumable else DispClosed
      | Closed \<Rightarrow> DispClosed
      | _ \<Rightarrow> DispActive)"

record new_session =
  ns_harness :: rstr
  ns_role :: session_role
  ns_presentation :: presentation
  ns_presentation_ref :: "rstr option"
  ns_native :: "rstr option"
  ns_launch_profile :: "rstr option"
  ns_backend_resource :: "rstr option"
  ns_model :: "assigned_model option"
  ns_pairing_class :: "pairing_class option"
  ns_protocol :: "session_protocol option"
  ns_response_profile :: "response_profile option"
  ns_response_mechanism :: "response_mechanism option"
  ns_source_session_id :: "rstr option"
  ns_entitlement :: "rstr option"

definition embedded_session :: "rstr \<Rightarrow> new_session" where
  "embedded_session harness =
     \<lparr>ns_harness = harness, ns_role = NormalSession, ns_presentation = Embedded, ns_presentation_ref = None,
      ns_native = None, ns_launch_profile = None, ns_backend_resource = None, ns_model = None,
      ns_pairing_class = None, ns_protocol = None, ns_response_profile = None, ns_response_mechanism = None,
      ns_source_session_id = None, ns_entitlement = None\<rparr>"

record resumable_session =
  rs_id :: rstr
  rs_harness :: rstr
  rs_native :: rstr

record supervision_record =
  sv_identity :: "process_identity option"
  sv_supervision :: "supervision option"
  sv_reason :: "rstr option"

text \<open>A row of the table \<open>sessions\<close>.\<close>

record session_row =
  c_id :: rstr
  c_project_id :: rstr
  c_harness :: rstr
  c_native :: "rstr option"
  c_role :: rstr
  c_lifecycle :: rstr
  c_presentation :: rstr
  c_created_at :: int
  c_last_activity_at :: int
  c_launch_profile :: "rstr option"
  c_backend_resource :: "rstr option"
  c_model :: "rstr option"
  c_pairing_class :: "rstr option"
  c_protocol :: "rstr option"
  c_response_profile :: "rstr option"
  c_response_mechanism :: "rstr option"
  c_process_id :: "int option"
  c_process_started_at :: "int option"
  c_process_host :: "rstr option"
  c_supervision :: "rstr option"
  c_supervision_reason :: "rstr option"
  c_display_name :: "rstr option"
  c_purpose :: "rstr option"
  c_source_session_id :: "rstr option"
  c_observed_compactions :: "int option"
  c_presentation_ref :: "rstr option"
  c_last_seen_commit :: "rstr option"
  c_entitlement :: "rstr option"

section \<open>Reading a row\<close>

definition decode_word :: "rstr \<Rightarrow> rstr \<Rightarrow> rstr \<Rightarrow> 'a option \<Rightarrow> (session_error + 'a)" where
  "decode_word i column value parsed =
     (case parsed of Some v \<Rightarrow> Inr v | None \<Rightarrow> Inl (UnknownColumnValue i column value))"

definition optional :: "rstr \<Rightarrow> rstr \<Rightarrow> rstr option \<Rightarrow> (rstr \<Rightarrow> 'a option) \<Rightarrow> (session_error + 'a option)" where
  "optional i column stored decode =
     (case stored of
        None \<Rightarrow> Inr None
      | Some value \<Rightarrow>
          (case decode value of
             Some v \<Rightarrow> Inr (Some v)
           | None \<Rightarrow> Inl (UnknownColumnValue i column value)))"

definition read_record :: "session_row \<Rightarrow> (session_error + session_record)" where
  "read_record row =
     (let i = c_id row in
      and_then (decode_word i (u ''role'') (c_role row) (role_from_str (c_role row))) (\<lambda>role.
      and_then (decode_word i (u ''lifecycle'') (c_lifecycle row) (lifecycle_from_str (c_lifecycle row))) (\<lambda>lifecycle.
      and_then (decode_word i (u ''presentation'') (c_presentation row) (presentation_from_str (c_presentation row))) (\<lambda>presentation.
      and_then (optional i (u ''model'') (c_model row) decode_assigned_model) (\<lambda>model.
      and_then (optional i (u ''pairing_class'') (c_pairing_class row) pairing_from_str) (\<lambda>pairing.
      and_then (optional i (u ''protocol'') (c_protocol row) protocol_from_str) (\<lambda>protocol.
      and_then (optional i (u ''response_profile'') (c_response_profile row) decode_response_profile) (\<lambda>profile.
      and_then (optional i (u ''response_mechanism'') (c_response_mechanism row) mechanism_from_str) (\<lambda>mechanism.
      and_then (optional i (u ''display_name'') (c_display_name row) (label_read MAX_SESSION_NAME)) (\<lambda>name.
      and_then (optional i (u ''purpose'') (c_purpose row) (label_read MAX_SESSION_PURPOSE)) (\<lambda>purpose.
      Inr \<lparr>ss_id = i, ss_project_id = c_project_id row, ss_harness = c_harness row, ss_native = c_native row,
           ss_role = role, ss_lifecycle = lifecycle, ss_presentation = presentation,
           ss_presentation_ref = c_presentation_ref row, ss_created_at = c_created_at row,
           ss_last_activity_at = c_last_activity_at row, ss_launch_profile = c_launch_profile row,
           ss_backend_resource = c_backend_resource row, ss_model = model, ss_pairing_class = pairing,
           ss_protocol = protocol, ss_response_profile = profile, ss_response_mechanism = mechanism,
           ss_display_name = name, ss_purpose = purpose, ss_source_session_id = c_source_session_id row,
           ss_observed_compactions = c_observed_compactions row, ss_last_seen_commit = c_last_seen_commit row,
           ss_entitlement = c_entitlement row\<rparr>)))))))))))"

text \<open>
  The row the one \<open>INSERT\<close> of the table writes, with the identity of the process that writes it.
\<close>

definition insert_row :: "session_record \<Rightarrow> process_identity option \<Rightarrow> session_row" where
  "insert_row r identity =
     \<lparr>c_id = ss_id r, c_project_id = ss_project_id r, c_harness = ss_harness r, c_native = ss_native r,
      c_role = role_str (ss_role r), c_lifecycle = lifecycle_str (ss_lifecycle r),
      c_presentation = presentation_str (ss_presentation r), c_created_at = ss_created_at r,
      c_last_activity_at = ss_last_activity_at r, c_launch_profile = ss_launch_profile r,
      c_backend_resource = ss_backend_resource r, c_model = map_option encode_assigned_model (ss_model r),
      c_pairing_class = map_option pairing_str (ss_pairing_class r),
      c_protocol = map_option protocol_str (ss_protocol r),
      c_response_profile = map_option encode_response_profile (ss_response_profile r),
      c_response_mechanism = map_option mechanism_str (ss_response_mechanism r),
      c_process_id = map_option (\<lambda>i. int (pi_pid i)) identity,
      c_process_started_at = map_option pi_started_at_ms identity, c_process_host = map_option pi_host identity,
      c_supervision = map_option (\<lambda>_. supervision_str Owned) identity, c_supervision_reason = None,
      c_display_name = None, c_purpose = None, c_source_session_id = ss_source_session_id r,
      c_observed_compactions = ss_observed_compactions r, c_presentation_ref = ss_presentation_ref r,
      c_last_seen_commit = ss_last_seen_commit r, c_entitlement = ss_entitlement r\<rparr>"

section \<open>Lemmas\<close>

interpretation role_words: word_codec role_str role_from_str
  by unfold_locales (auto simp: role_str_def role_from_str_def split: session_role.splits if_splits)

interpretation presentation_words: word_codec presentation_str presentation_from_str
  by unfold_locales (auto simp: presentation_str_def presentation_from_str_def split: presentation.splits if_splits)

interpretation protocol_words: word_codec protocol_str protocol_from_str
  by unfold_locales (auto simp: protocol_str_def protocol_from_str_def split: session_protocol.splits if_splits)

interpretation pairing_words: word_codec pairing_str pairing_from_str
  by unfold_locales (auto simp: pairing_str_def pairing_from_str_def split: pairing_class.splits if_splits)

interpretation mechanism_words: word_codec mechanism_str mechanism_from_str
  by unfold_locales (auto simp: mechanism_str_def mechanism_from_str_def split: response_mechanism.splits if_splits)

interpretation lifecycle_words: word_codec lifecycle_str lifecycle_from_str
  by unfold_locales (auto simp: lifecycle_str_def lifecycle_from_str_def split: lifecycle.splits if_splits)

interpretation supervision_words: word_codec supervision_str supervision_from_str
  by unfold_locales (auto simp: supervision_str_def supervision_from_str_def split: supervision.splits if_splits)

lemma live_words: "is_live l \<longleftrightarrow> l \<in> set LIVE_LIFECYCLES"
  by (cases l) (simp_all add: is_live_def LIVE_LIFECYCLES_def)

lemma split_on_append: "\<forall>c\<in>set w. \<not> P c \<Longrightarrow> P c \<Longrightarrow> split_on P (w @ c # t) = w # split_on P t"
  by (induction w) simp_all

lemma split_on_single: "\<forall>c\<in>set w. \<not> P c \<Longrightarrow> split_on P w = [w]"
  by (induction w) simp_all

lemma split_on_join:
  "ws \<noteq> [] \<Longrightarrow> \<forall>w\<in>set ws. \<forall>c\<in>set w. \<not> P c \<Longrightarrow> P s \<Longrightarrow> split_on P (join_with [s] ws) = ws"
  by (induction "[s]" ws rule: join_with.induct) (simp_all add: split_on_single split_on_append)

lemma split_once_first: "s \<notin> set w \<Longrightarrow> split_once [s] (w @ s # t) = Some (w, t)"
  by (induction w) (simp_all split: list.split)

lemma verbosity_clean: "44 \<notin> set (verbosity_slug v)"
  by (cases v) (simp_all add: verbosity_slug_def)

lemma audience_clean: "44 \<notin> set (audience_slug v)"
  by (cases v) (simp_all add: audience_slug_def)

lemma narration_clean: "44 \<notin> set (narration_slug v)"
  by (cases v) (simp_all add: narration_slug_def)

lemma evidence_clean: "44 \<notin> set (evidence_detail_slug v)"
  by (cases v) (simp_all add: evidence_detail_slug_def)

lemma format_clean: "44 \<notin> set (answer_format_slug v)"
  by (cases v) (simp_all add: answer_format_slug_def)

lemma dimension_clean: "44 \<notin> set (dimension_slug d)" "61 \<notin> set (dimension_slug d)"
  by (cases d; simp add: dimension_slug_def)+

lemma dimensions_apart: "dimension_slug d = dimension_slug e \<longleftrightarrow> d = e"
  by (cases d; cases e) (simp_all add: dimension_slug_def)

lemma decode_field_axis:
  "decode_field (dimension_slug d @ 61 # word) p =
     (case d of
        DimVerbosity \<Rightarrow> Some (p\<lparr>pp_verbosity := verbosity_from_slug word\<rparr>)
      | DimAudience \<Rightarrow> Some (p\<lparr>pp_audience := audience_from_slug word\<rparr>)
      | DimNarration \<Rightarrow> Some (p\<lparr>pp_narration := narration_from_slug word\<rparr>)
      | DimEvidence \<Rightarrow> Some (p\<lparr>pp_evidence := evidence_detail_from_slug word\<rparr>)
      | DimFormat \<Rightarrow> Some (p\<lparr>pp_format := answer_format_from_slug word\<rparr>))"
  using split_once_first [OF dimension_clean(2), of d word]
  by (cases d) (simp_all add: decode_field_def dimensions_apart)

lemma comma: "u '','' = [44]"
  by simp

lemma axis_field_clean:
  assumes "44 \<notin> set word"
  shows "\<forall>c\<in>set (dimension_slug d @ u ''='' @ word). c \<noteq> 44"
proof
  fix c
  assume "c \<in> set (dimension_slug d @ u ''='' @ word)"
  then have "c \<in> set (dimension_slug d) \<or> c = 61 \<or> c \<in> set word" by auto
  then show "c \<noteq> 44" using assms dimension_clean(1) [of d] by auto
qed

lemma decode_encode_profile: "decode_response_profile (encode_response_profile p) = Some p"
proof -
  have "split_on (\<lambda>c. c = 44) (encode_response_profile p) =
      map (\<lambda>(d, value). dimension_slug d @ u ''='' @ value) (axes p)"
    unfolding encode_response_profile_def comma
  proof (rule split_on_join)
    show "\<forall>w\<in>set (map (\<lambda>(d, value). dimension_slug d @ u ''='' @ value) (axes p)). \<forall>c\<in>set w. c \<noteq> 44"
      by (simp only: axes_def list.map prod.case list.set ball_simps simp_thms)
        (intro conjI axis_field_clean verbosity_clean audience_clean narration_clean evidence_clean format_clean)
  qed (simp_all add: axes_def)
  then show ?thesis
    by (simp add: decode_response_profile_def axes_def decode_field_axis slug_words)
qed

lemma decode_encode_model: "m \<noteq> Named [] \<Longrightarrow> decode_assigned_model (encode_assigned_model m) = Some m"
  by (cases m) (simp_all add: decode_assigned_model_def encode_assigned_model_def)

lemma label_read_Some:
  "label_read limit value = Some label \<Longrightarrow>
     label = trim value \<and> label \<noteq> [] \<and> length label \<le> limit \<and> label_read limit label = Some label"
  by (auto simp: label_read_def parse_label_def Let_def trim_trim split: if_splits)

lemma decode_word_reads [simp]: "decode_word i column w (Some v) = Inr v"
  by (simp add: decode_word_def)

lemma optional_reads: "(\<And>v. stored = Some v \<Longrightarrow> decode (encode v) = Some v) \<Longrightarrow>
    optional i column (map_option encode stored) decode = Inr stored"
  by (cases stored) (simp_all add: optional_def)

lemma optional_None [simp]: "optional i column None decode = Inr None"
  by (simp add: optional_def)

lemmas word_codecs = role_words.reads_back presentation_words.reads_back protocol_words.reads_back
  pairing_words.reads_back mechanism_words.reads_back lifecycle_words.reads_back supervision_words.reads_back

lemma recorded_reads:
  assumes "ss_model r \<noteq> Some (Named [])" and "ss_display_name r = None" and "ss_purpose r = None"
  shows "read_record (insert_row r identity) = Inr r"
proof -
  have "decode_assigned_model (encode_assigned_model m) = Some m" if "ss_model r = Some m" for m
    using that assms(1) by (auto intro: decode_encode_model)
  then show ?thesis
    using assms(2,3)
    by (simp add: read_record_def insert_row_def word_codecs optional_reads decode_encode_profile)
qed

section \<open>Properties\<close>

text \<open>
  C22. A session that is recorded reads back as it was given: every word, the response profile's five axes and
  the model survive the row.
\<close>

theorem recorded_session_reads_back:
  assumes "ss_model r \<noteq> Some (Named [])" and "ss_display_name r = None" and "ss_purpose r = None"
  shows "read_record (insert_row r identity) = Inr r"
  by (rule recorded_reads [OF assms])

definition example_session :: session_record where
  "example_session =
     \<lparr>ss_id = u ''a1'', ss_project_id = u ''p'', ss_harness = u ''codex'', ss_native = Some (u ''n''),
      ss_role = WorkerSession, ss_lifecycle = Starting, ss_presentation = Headless, ss_presentation_ref = None,
      ss_created_at = 5, ss_last_activity_at = 5, ss_launch_profile = Some (u ''native''),
      ss_backend_resource = None, ss_model = Some (Named (u ''m'')), ss_pairing_class = Some VendorNative,
      ss_protocol = Some ResponsesProtocol, ss_response_profile = Some default_profile,
      ss_response_mechanism = Some AdditiveMechanism, ss_display_name = None, ss_purpose = None,
      ss_source_session_id = None, ss_observed_compactions = Some 0, ss_last_seen_commit = None,
      ss_entitlement = None\<rparr>"

theorem recorded_session_reads_back_witness:
  "read_record (insert_row example_session None) = Inr example_session"
  by (rule recorded_session_reads_back) (simp_all add: example_session_def)

end
