(* ===== verification/Session_Store.thy ===== *)
theory Session_Store
  imports Session_Record Guardrails "HOL-Library.Product_Lexorder"
begin

text \<open>
  The session store of a project, \<open>crates/glasshouse/src/session/store/mod.rs\<close>, and the supervision of the
  recorded processes, \<open>session/supervision.rs\<close>. A table is the list of its rows; an \<open>UPDATE\<close> maps over them
  and is refused when a changed row breaks a \<open>CHECK\<close> of the schema or two rows share a conversation; a
  method that takes the write lock is one transaction, which leaves the tables alone when it fails. The
  clock, the generated identifiers and what the kernel says of a process are arguments. The row's project
  is always the bound one, as the schema's triggers have it, so it is kept for the sessions only, where
  the code compares it.
\<close>

section \<open>Who may own a session\<close>

datatype integration_kind = HarnessKind | MultiplexerKind | LocalInferenceKind

datatype integration_id =
    ClaudeCode | Codex | Antigravity | OpenCode | Cursor | Pi | Hermes | Pane | Cmux | Ollama | LlamaCpp

definition INTEGRATIONS :: "integration_id list" where
  "INTEGRATIONS =
     [ClaudeCode, Codex, Antigravity, OpenCode, Cursor, Pi, Hermes, Pane, Cmux, Ollama, LlamaCpp]"

definition integration_slug :: "integration_id \<Rightarrow> rstr" where
  "integration_slug i =
     (case i of ClaudeCode \<Rightarrow> u ''claude-code'' | Codex \<Rightarrow> u ''codex'' | Antigravity \<Rightarrow> u ''antigravity''
      | OpenCode \<Rightarrow> u ''opencode'' | Cursor \<Rightarrow> u ''cursor'' | Pi \<Rightarrow> u ''pi'' | Hermes \<Rightarrow> u ''hermes''
      | Pane \<Rightarrow> u ''pane'' | Cmux \<Rightarrow> u ''cmux'' | Ollama \<Rightarrow> u ''ollama'' | LlamaCpp \<Rightarrow> u ''llama-cpp'')"

definition integration_kind_of :: "integration_id \<Rightarrow> integration_kind" where
  "integration_kind_of i =
     (case i of Cmux \<Rightarrow> MultiplexerKind | Ollama \<Rightarrow> LocalInferenceKind | LlamaCpp \<Rightarrow> LocalInferenceKind
      | _ \<Rightarrow> HarnessKind)"

definition owning_harness :: "rstr \<Rightarrow> (session_error + unit)" where
  "owning_harness harness =
     (case List.find (\<lambda>i. integration_slug i = harness) INTEGRATIONS of
        None \<Rightarrow> Inl (UnknownHarness harness)
      | Some i \<Rightarrow>
          (case integration_kind_of i of
             HarnessKind \<Rightarrow> Inr ()
           | MultiplexerKind \<Rightarrow> Inl (NotAHarness harness (u ''a terminal multiplexer''))
           | LocalInferenceKind \<Rightarrow> Inl (NotAHarness harness (u ''a local inference server''))))"

text \<open>An identifier for a harness that demands a UUID; \<open>None\<close> is the panic on a text of another length.\<close>

definition uuid_v4_from_hex :: "rstr \<Rightarrow> rstr option" where
  "uuid_v4_from_hex blob =
     (if length blob \<noteq> 32 then None
      else (let variant = (if blob ! 16 \<in> set (u ''048c'') then hd (u ''8'')
                           else if blob ! 16 \<in> set (u ''159d'') then hd (u ''9'')
                           else if blob ! 16 \<in> set (u ''26ae'') then hd (u ''a'')
                           else hd (u ''b''));
                s = (blob[12 := hd (u ''4'')])[16 := variant]
            in Some (take 8 s @ u ''-'' @ take 4 (drop 8 s) @ u ''-'' @ take 4 (drop 12 s) @ u ''-'' @
                     take 4 (drop 16 s) @ u ''-'' @ drop 20 s)))"

section \<open>Processes\<close>

datatype process_state = LiveProcess | ZombieProcess

record observed_process =
  op_started_at_ms :: int
  op_state :: process_state

text \<open>What this process knows of its machine: its own number, the host's name, and the kernel's answers.\<close>

record machine =
  mc_pid :: nat
  mc_host_name :: "rstr option"
  mc_observe :: "nat \<Rightarrow> observed_process option"
  mc_now_ms :: "int option"

definition identity_of :: "machine \<Rightarrow> nat \<Rightarrow> process_identity option" where
  "identity_of mc pid =
     (case mc_observe mc pid of
        None \<Rightarrow> None
      | Some observed \<Rightarrow>
          map_option (\<lambda>host. \<lparr>pi_pid = pid, pi_started_at_ms = op_started_at_ms observed, pi_host = host\<rparr>)
            (mc_host_name mc))"

definition of_this_process :: "machine \<Rightarrow> process_identity option" where
  "of_this_process mc = identity_of mc (mc_pid mc)"

definition human_gap :: "int \<Rightarrow> rstr" where
  "human_gap ms =
     (let seconds = (if ms < 0 then - ((- ms) div 1000) else ms div 1000)
      in if seconds < 0 then u ''no time''
         else if seconds = 0 then (if ms < 0 then u ''-'' else []) @ decimal (nat \<bar>ms\<bar>) @ u ''ms''
         else if seconds < 60 then decimal (nat seconds) @ u ''s''
         else if seconds < 3600 then decimal (nat (seconds div 60)) @ u ''m '' @ decimal (nat (seconds mod 60)) @ u ''s''
         else decimal (nat (seconds div 3600)) @ u ''h '' @ decimal (nat (seconds mod 3600 div 60)) @ u ''m'')"

definition age_of :: "machine \<Rightarrow> int \<Rightarrow> rstr option" where
  "age_of mc started_at_ms =
     (case mc_now_ms mc of
        None \<Rightarrow> None
      | Some now_ms \<Rightarrow>
          (let elapsed = now_ms - started_at_ms
           in if - (2 ^ 63) \<le> elapsed \<and> elapsed < 2 ^ 63 \<and> elapsed \<ge> 0 then Some (human_gap elapsed) else None))"

definition identity_text :: "machine \<Rightarrow> process_identity \<Rightarrow> rstr" where
  "identity_text mc i =
     u ''process '' @ decimal (pi_pid i) @ u '' on '' @ pi_host i @
     (case age_of mc (pi_started_at_ms i) of None \<Rightarrow> [] | Some age \<Rightarrow> u '', started '' @ age @ u '' ago'')"

datatype process_verdict =
    ForeignHost rstr rstr
  | Gone
  | Verified
  | Mismatched int int

definition verify_identity :: "machine \<Rightarrow> process_identity \<Rightarrow> rstr \<Rightarrow> process_verdict" where
  "verify_identity mc recorded this_host =
     (if pi_host recorded \<noteq> this_host then ForeignHost (pi_host recorded) this_host
      else (case mc_observe mc (pi_pid recorded) of
              None \<Rightarrow> Gone
            | Some observed \<Rightarrow>
                if op_state observed \<noteq> LiveProcess then Gone
                else if op_started_at_ms observed = pi_started_at_ms recorded then Verified
                else Mismatched (pi_started_at_ms recorded) (op_started_at_ms observed)))"

section \<open>The tables\<close>

record progress_row =
  pg_session_id :: rstr
  pg_declared_at :: int
  pg_renewed_at :: int
  pg_expires_at :: int

record session_message =
  sm_seq :: nat
  sm_session :: rstr
  sm_sender :: "rstr option"
  sm_body :: rstr
  sm_at :: int

record session_db =
  sd_project :: rstr
  sd_sessions :: "session_row list"
  sd_claims :: "file_claim list"
  sd_progress :: "progress_row list"
  sd_messages :: "session_message list"

text \<open>A method that changes the tables: its result and the tables after it.\<close>

type_synonym 'a store_method = "session_db \<Rightarrow> (session_error + 'a) \<times> session_db"

definition transaction :: "(session_db \<Rightarrow> session_error + ('a \<times> session_db)) \<Rightarrow> 'a store_method" where
  "transaction body db =
     (case body db of Inl e \<Rightarrow> (Inl e, db) | Inr (value', db') \<Rightarrow> (Inr value', db'))"

text \<open>\<open>length\<close> of SQLite counts the characters before the first NUL.\<close>

definition sql_length :: "rstr \<Rightarrow> nat" where
  "sql_length t = length (takeWhile (\<lambda>c. c \<noteq> 0) t)"

text \<open>The words the \<open>CHECK\<close> clauses of the schema spell out, column by column.\<close>

definition ROLE_CHECK :: "rstr list" where
  "ROLE_CHECK = [u ''normal'', u ''orchestrator'', u ''worker'']"

definition LIFECYCLE_CHECK :: "rstr list" where
  "LIFECYCLE_CHECK = [u ''starting'', u ''running'', u ''idle'', u ''waiting_for_user'', u ''stopped'',
     u ''failed'', u ''closed'']"

definition PRESENTATION_CHECK :: "rstr list" where
  "PRESENTATION_CHECK = [u ''embedded'', u ''headless'', u ''external'']"

definition PAIRING_CHECK :: "rstr list" where
  "PAIRING_CHECK = [u ''vendor-native'', u ''vendor-supported'', u ''protocol-native'',
     u ''protocol-compatible'', u ''protocol-translated'', u ''unknown'']"

definition PROTOCOL_CHECK :: "rstr list" where
  "PROTOCOL_CHECK = [u ''anthropic-messages'', u ''openai-responses'', u ''openai-chat'', u ''unknown'']"

definition MECHANISM_CHECK :: "rstr list" where
  "MECHANISM_CHECK = [u ''native'', u ''additive'', u ''none'']"

definition SUPERVISION_CHECK :: "rstr list" where
  "SUPERVISION_CHECK = [u ''owned'', u ''adopted'', u ''quarantined'', u ''lost'']"

definition row_checks :: "session_row \<Rightarrow> bool" where
  "row_checks row \<longleftrightarrow>
     c_role row \<in> set ROLE_CHECK \<and> c_lifecycle row \<in> set LIFECYCLE_CHECK \<and>
     c_presentation row \<in> set PRESENTATION_CHECK \<and>
     (case c_model row of None \<Rightarrow> True
      | Some m \<Rightarrow> m = u ''harness-default'' \<or> (take 6 m = u ''named:'' \<and> sql_length m > 6)) \<and>
     (case c_pairing_class row of None \<Rightarrow> True | Some w \<Rightarrow> w \<in> set PAIRING_CHECK) \<and>
     (case c_protocol row of None \<Rightarrow> True | Some w \<Rightarrow> w \<in> set PROTOCOL_CHECK) \<and>
     (case c_response_mechanism row of None \<Rightarrow> True | Some w \<Rightarrow> w \<in> set MECHANISM_CHECK) \<and>
     (case c_display_name row of None \<Rightarrow> True | Some n \<Rightarrow> n \<noteq> [] \<and> sql_length n \<le> 64) \<and>
     (case c_purpose row of None \<Rightarrow> True | Some p \<Rightarrow> p \<noteq> [] \<and> sql_length p \<le> 32) \<and>
     (case c_process_id row of None \<Rightarrow> True | Some pid \<Rightarrow> pid > 0) \<and>
     (case c_process_started_at row of None \<Rightarrow> True | Some at' \<Rightarrow> at' \<ge> 0) \<and>
     (case c_process_host row of None \<Rightarrow> True | Some host \<Rightarrow> host \<noteq> []) \<and>
     (case c_supervision row of None \<Rightarrow> True | Some w \<Rightarrow> w \<in> set SUPERVISION_CHECK) \<and>
     (case c_supervision_reason row of None \<Rightarrow> True | Some reason \<Rightarrow> reason \<noteq> []) \<and>
     (case c_observed_compactions row of None \<Rightarrow> True | Some n \<Rightarrow> n \<ge> 0)"

text \<open>The schema and the reader know the same words: the drift the repository's own test guards against.\<close>

lemma schema_words:
  "w \<in> set ROLE_CHECK \<longleftrightarrow> role_from_str w \<noteq> None"
  "w \<in> set LIFECYCLE_CHECK \<longleftrightarrow> lifecycle_from_str w \<noteq> None"
  "w \<in> set PRESENTATION_CHECK \<longleftrightarrow> presentation_from_str w \<noteq> None"
  "w \<in> set PAIRING_CHECK \<longleftrightarrow> pairing_from_str w \<noteq> None"
  "w \<in> set PROTOCOL_CHECK \<longleftrightarrow> protocol_from_str w \<noteq> None"
  "w \<in> set MECHANISM_CHECK \<longleftrightarrow> mechanism_from_str w \<noteq> None"
  "w \<in> set SUPERVISION_CHECK \<longleftrightarrow> supervision_from_str w \<noteq> None"
  unfolding ROLE_CHECK_def LIFECYCLE_CHECK_def PRESENTATION_CHECK_def PAIRING_CHECK_def PROTOCOL_CHECK_def
    MECHANISM_CHECK_def SUPERVISION_CHECK_def role_from_str_def lifecycle_from_str_def
    presentation_from_str_def pairing_from_str_def protocol_from_str_def mechanism_from_str_def
    supervision_from_str_def
  by (simp_all del: u.simps)

lemmas row_checks_iff = row_checks_def [unfolded schema_words]

text \<open>The unique index over the conversations of each harness.\<close>

definition conversations :: "session_row list \<Rightarrow> (rstr \<times> rstr) list" where
  "conversations rows =
     List.map_filter (\<lambda>row. map_option (\<lambda>native. (c_harness row, native)) (c_native row)) rows"

definition insert_session :: "rstr \<Rightarrow> session_row \<Rightarrow> session_db \<Rightarrow> (session_error + session_db)" where
  "insert_session action row db =
     (let rows = sd_sessions db @ [row]
      in if row_checks row \<and> c_id row \<notin> set (map c_id (sd_sessions db)) \<and> distinct (conversations rows)
         then Inr (db\<lparr>sd_sessions := rows\<rparr>) else Inl (SqlFailure action))"

definition update_rows :: "rstr \<Rightarrow> rstr \<Rightarrow> (session_row \<Rightarrow> session_row) \<Rightarrow> session_db \<Rightarrow>
    (session_error + (nat \<times> session_db))" where
  "update_rows action i f db =
     (let changed = filter (\<lambda>row. c_id row = i) (sd_sessions db);
          rows = map (\<lambda>row. if c_id row = i then f row else row) (sd_sessions db)
      in if list_all row_checks (map f changed) \<and> distinct (conversations rows)
         then Inr (length changed, db\<lparr>sd_sessions := rows\<rparr>) else Inl (SqlFailure action))"

section \<open>Reading\<close>

definition session_row_of :: "rstr \<Rightarrow> session_db \<Rightarrow> session_row option" where
  "session_row_of i db = List.find (\<lambda>row. c_id row = i) (sd_sessions db)"

definition get_session :: "rstr \<Rightarrow> session_db \<Rightarrow> (session_error + session_record option)" where
  "get_session i db =
     (case session_row_of i db of
        None \<Rightarrow> Inr None
      | Some row \<Rightarrow> and_then (read_record row) (\<lambda>r. Inr (Some r)))"

definition fetch_session :: "rstr \<Rightarrow> session_db \<Rightarrow> (session_error + session_record)" where
  "fetch_session i db =
     and_then (get_session i db) (\<lambda>found. case found of None \<Rightarrow> Inl (NoSession i) | Some r \<Rightarrow> Inr r)"

primrec read_records :: "session_row list \<Rightarrow> (session_error + session_record list)" where
  "read_records [] = Inr []"
| "read_records (row # rows) =
     and_then (read_record row) (\<lambda>r. and_then (read_records rows) (\<lambda>rs. Inr (r # rs)))"

definition list_sessions :: "session_db \<Rightarrow> (session_error + session_record list)" where
  "list_sessions db = read_records (sort_key (\<lambda>row. (- c_last_activity_at row, c_id row)) (sd_sessions db))"

definition live_orchestrators :: "session_db \<Rightarrow> (session_error + session_record list)" where
  "live_orchestrators db =
     and_then (list_sessions db)
       (\<lambda>rs. Inr (filter (\<lambda>r. ss_role r = OrchestratorSession \<and> is_live (ss_lifecycle r)) rs))"

definition is_hex :: "uchar \<Rightarrow> bool" where
  "is_hex c \<longleftrightarrow> is_ascii_digit c \<or> 65 \<le> c \<and> c \<le> 70 \<or> 97 \<le> c \<and> c \<le> 102"

definition resolve_session_id :: "rstr \<Rightarrow> session_db \<Rightarrow> (session_error + rstr)" where
  "resolve_session_id given db =
     (let prefix = trim given
      in if prefix = [] \<or> \<not> list_all is_hex prefix then Inl (MalformedPrefix prefix)
         else (let prefix = map ascii_lower prefix;
                   matches = sort (filter (\<lambda>i. take (length prefix) i = prefix) (map c_id (sd_sessions db)))
               in (case matches of
                     [] \<Rightarrow> Inl (NoSession prefix)
                   | [only] \<Rightarrow> Inr only
                   | _ \<Rightarrow> Inl (AmbiguousPrefix prefix matches))))"

definition u32_of :: "int \<Rightarrow> nat option" where
  "u32_of n = (if 0 \<le> n \<and> n < 2 ^ 32 then Some (nat n) else None)"

definition row_identity :: "session_row \<Rightarrow> process_identity option" where
  "row_identity row =
     (case (c_process_id row, c_process_started_at row, c_process_host row) of
        (Some pid, Some started_at_ms, Some host) \<Rightarrow>
          map_option (\<lambda>pid. \<lparr>pi_pid = pid, pi_started_at_ms = started_at_ms, pi_host = host\<rparr>) (u32_of pid)
      | _ \<Rightarrow> None)"

definition supervision_of :: "rstr \<Rightarrow> session_db \<Rightarrow> (session_error + supervision_record)" where
  "supervision_of i db =
     (case session_row_of i db of
        None \<Rightarrow> Inl (NoSession i)
      | Some row \<Rightarrow>
          and_then (optional i (u ''supervision'') (c_supervision row) supervision_from_str)
            (\<lambda>supervision. Inr \<lparr>sv_identity = row_identity row, sv_supervision = supervision,
               sv_reason = c_supervision_reason row\<rparr>))"

section \<open>Starting and changing a session\<close>

definition refuse_if_quarantined_holds :: "rstr \<Rightarrow> rstr \<Rightarrow> session_db \<Rightarrow> (session_error + unit)" where
  "refuse_if_quarantined_holds harness native db =
     (case List.find (\<lambda>row. c_harness row = harness \<and> c_native row = Some native \<and>
            c_supervision row = Some (u ''quarantined'')) (sd_sessions db) of
        None \<Rightarrow> Inr ()
      | Some row \<Rightarrow>
          Inl (Refused (QuarantineHolds (c_id row) (u ''the '' @ harness @ u '' conversation `'' @ native @ u ''`'')
            (u ''a process Glasshouse cannot account for was still running when '' @
             u ''that session was last examined''))))"

definition new_record :: "rstr \<Rightarrow> rstr \<Rightarrow> int \<Rightarrow> new_session \<Rightarrow> session_record" where
  "new_record project i now new =
     \<lparr>ss_id = i, ss_project_id = project, ss_harness = ns_harness new, ss_native = ns_native new,
      ss_role = ns_role new, ss_lifecycle = Starting, ss_presentation = ns_presentation new,
      ss_presentation_ref = ns_presentation_ref new, ss_created_at = now, ss_last_activity_at = now,
      ss_launch_profile = ns_launch_profile new, ss_backend_resource = ns_backend_resource new,
      ss_model = ns_model new, ss_pairing_class = ns_pairing_class new, ss_protocol = ns_protocol new,
      ss_response_profile = ns_response_profile new, ss_response_mechanism = ns_response_mechanism new,
      ss_display_name = None, ss_purpose = None, ss_source_session_id = ns_source_session_id new,
      ss_observed_compactions = Some 0, ss_last_seen_commit = None, ss_entitlement = ns_entitlement new\<rparr>"

definition create_session :: "machine \<Rightarrow> int \<Rightarrow> rstr \<Rightarrow> new_session \<Rightarrow> session_record store_method" where
  "create_session mc now i new db =
     (let outcome =
        and_then (owning_harness (ns_harness new)) (\<lambda>_.
        and_then (case ns_native new of None \<Rightarrow> Inr ()
                  | Some native \<Rightarrow> refuse_if_quarantined_holds (ns_harness new) native db) (\<lambda>_.
          (let r = new_record (sd_project db) i now new
           in and_then (insert_session (u ''record a new session'') (insert_row r (of_this_process mc)) db)
                (\<lambda>db'. Inr (r, db')))))
      in (case outcome of Inl e \<Rightarrow> (Inl e, db) | Inr (r, db') \<Rightarrow> (Inr r, db')))"

definition read_lifecycle_locked :: "rstr \<Rightarrow> session_db \<Rightarrow> (session_error + lifecycle)" where
  "read_lifecycle_locked i db =
     (case session_row_of i db of
        None \<Rightarrow> Inl (NoSession i)
      | Some row \<Rightarrow>
          (case lifecycle_from_str (c_lifecycle row) of
             Some l \<Rightarrow> Inr l
           | None \<Rightarrow> Inl (UnknownColumnValue i (u ''lifecycle'') (c_lifecycle row))))"

datatype activity = Active | Inactive

datatype revival = Forbidden | Authorized

definition write_lifecycle_locked ::
    "rstr \<Rightarrow> lifecycle \<Rightarrow> activity \<Rightarrow> revival \<Rightarrow> rstr \<Rightarrow> int \<Rightarrow> session_db \<Rightarrow> (session_error + session_db)" where
  "write_lifecycle_locked i to activity revival action now db =
     and_then (read_lifecycle_locked i db) (\<lambda>current.
       if revival = Forbidden \<and> \<not> is_live current \<and> is_live to then Inr db
       else and_then (update_rows action i
              (\<lambda>row. row\<lparr>c_lifecycle := lifecycle_str to,
                 c_last_activity_at := (if activity = Active then now else c_last_activity_at row)\<rparr>) db)
              (\<lambda>(_, db'). Inr db'))"

text \<open>A transaction without a result, and the record as it stands after it.\<close>

definition locked_then_fetch ::
    "rstr \<Rightarrow> (session_db \<Rightarrow> session_error + session_db) \<Rightarrow> session_record store_method" where
  "locked_then_fetch i body db =
     (case transaction (\<lambda>d. and_then (body d) (\<lambda>d'. Inr ((), d'))) db of
        (Inl e, db') \<Rightarrow> (Inl e, db')
      | (Inr _, db') \<Rightarrow> (fetch_session i db', db'))"

definition set_lifecycle :: "int \<Rightarrow> rstr \<Rightarrow> lifecycle \<Rightarrow> session_record store_method" where
  "set_lifecycle now i to =
     locked_then_fetch i (write_lifecycle_locked i to Active Forbidden (u ''update a session'' @ [39] @ u ''s lifecycle'') now)"

definition record_supervision ::
    "int \<Rightarrow> rstr \<Rightarrow> supervision \<Rightarrow> rstr \<Rightarrow> lifecycle option \<Rightarrow> session_record store_method" where
  "record_supervision now i supervision reason state =
     locked_then_fetch i (\<lambda>db.
       and_then (update_rows (u ''record a supervision conclusion'') i
           (\<lambda>row. row\<lparr>c_supervision := Some (supervision_str supervision), c_supervision_reason := Some reason\<rparr>) db)
         (\<lambda>(changed, db').
           if changed = 0 then Inl (NoSession i)
           else (case state of
                   Some to \<Rightarrow> write_lifecycle_locked i to Active Forbidden (u ''record a supervision conclusion'') now db'
                 | None \<Rightarrow> Inr db')))"

definition update_session :: "rstr \<Rightarrow> rstr \<Rightarrow> (session_row \<Rightarrow> session_row) \<Rightarrow> session_record store_method" where
  "update_session action i f db =
     (case update_rows action i f db of
        Inl e \<Rightarrow> (Inl e, db)
      | Inr (changed, db') \<Rightarrow> if changed = 0 then (Inl (NoSession i), db') else (fetch_session i db', db'))"

definition set_native_session_id :: "int \<Rightarrow> rstr \<Rightarrow> rstr \<Rightarrow> session_record store_method" where
  "set_native_session_id now i native =
     update_session (u ''record a native session identifier'') i
       (\<lambda>row. row\<lparr>c_native := Some native, c_last_activity_at := now\<rparr>)"

definition touch_session :: "int \<Rightarrow> rstr \<Rightarrow> session_record store_method" where
  "touch_session now i =
     update_session (u ''record session activity'') i (\<lambda>row. row\<lparr>c_last_activity_at := now\<rparr>)"

text \<open>The counter is a whole number here and a signed 64-bit column in the table, where the addition of the
  2 to the 63rd compaction would fail.\<close>

definition record_observed_compaction :: "rstr \<Rightarrow> session_record store_method" where
  "record_observed_compaction i =
     update_session (u ''count an observed compaction'') i
       (\<lambda>row. row\<lparr>c_observed_compactions := Some ((case c_observed_compactions row of Some n \<Rightarrow> n | None \<Rightarrow> 0) + 1)\<rparr>)"

definition record_seen_commit :: "rstr \<Rightarrow> rstr \<Rightarrow> session_record store_method" where
  "record_seen_commit i commit =
     update_session (u ''record where HEAD stood for a session'') i (\<lambda>row. row\<lparr>c_last_seen_commit := Some commit\<rparr>)"

definition rename_session :: "rstr \<Rightarrow> rstr \<Rightarrow> session_record store_method" where
  "rename_session i name =
     update_session (u ''rename a session'') i (\<lambda>row. row\<lparr>c_display_name := Some name\<rparr>)"

definition clear_name :: "rstr \<Rightarrow> session_record store_method" where
  "clear_name i = update_session (u ''clear a session'' @ [39] @ u ''s name'') i (\<lambda>row. row\<lparr>c_display_name := None\<rparr>)"

definition set_purpose :: "rstr \<Rightarrow> rstr \<Rightarrow> session_record store_method" where
  "set_purpose i purpose =
     update_session (u ''tag a session'') i (\<lambda>row. row\<lparr>c_purpose := Some purpose\<rparr>)"

definition clear_purpose :: "rstr \<Rightarrow> session_record store_method" where
  "clear_purpose i = update_session (u ''clear a session'' @ [39] @ u ''s purpose'') i (\<lambda>row. row\<lparr>c_purpose := None\<rparr>)"

definition set_presentation :: "rstr \<Rightarrow> presentation \<Rightarrow> rstr option \<Rightarrow> session_record store_method" where
  "set_presentation i shown pane =
     update_session (u ''record where a session is presented'') i
       (\<lambda>row. row\<lparr>c_presentation := presentation_str shown, c_presentation_ref := pane\<rparr>)"

definition close_session :: "int \<Rightarrow> rstr \<Rightarrow> session_record store_method" where
  "close_session now i =
     locked_then_fetch i (\<lambda>db.
       and_then (read_lifecycle_locked i db) (\<lambda>current.
         if is_live current then Inl (StillLive i current)
         else write_lifecycle_locked i Closed Inactive Forbidden (u ''close a session record'') now db))"

section \<open>Supervision\<close>

definition holdings :: "(rstr \<Rightarrow> rstr) \<Rightarrow> session_record \<Rightarrow> rstr list" where
  "holdings session_dir r =
     (case ss_native r of None \<Rightarrow> []
      | Some native \<Rightarrow> [u ''the '' @ ss_harness r @ u '' conversation `'' @ native @ u ''`'']) @
     [u ''its session directory `'' @ session_dir (ss_id r) @ u ''`'']"

definition guard_start ::
    "machine \<Rightarrow> (rstr \<Rightarrow> rstr) \<Rightarrow> session_record \<Rightarrow> supervision_record \<Rightarrow> process_identity option \<Rightarrow>
       (supervision_refusal + unit)" where
  "guard_start mc session_dir r recorded this =
     (if sv_supervision recorded = Some Quarantined
      then Inl (QuarantineHolds (ss_id r) (join_with (u '', and '') (holdings session_dir r))
             (case sv_reason recorded of Some reason \<Rightarrow> reason | None \<Rightarrow> u ''no reason was recorded''))
      else if \<not> is_live (ss_lifecycle r) then Inr ()
      else (case sv_identity recorded of
              None \<Rightarrow> Inr ()
            | Some identity \<Rightarrow>
                if this = Some identity then Inr ()
                else (case mc_host_name mc of
                        None \<Rightarrow> Inr ()
                      | Some host \<Rightarrow>
                          if verify_identity mc identity host = Verified then Inl (Duplicate (ss_id r) identity)
                          else Inr ())))"

definition guard_error :: "(supervision_refusal + unit) \<Rightarrow> (session_error + unit)" where
  "guard_error r = (case r of Inl refusal \<Rightarrow> Inl (Refused refusal) | Inr x \<Rightarrow> Inr x)"

definition disposition_text :: "disposition \<Rightarrow> rstr" where
  "disposition_text d =
     (case d of DispActive \<Rightarrow> u ''still running'' | DispClosed \<Rightarrow> u ''closed'' | DispFailed \<Rightarrow> u ''failed''
      | DispResumable \<Rightarrow> [])"

definition open_for_resume ::
    "machine \<Rightarrow> (rstr \<Rightarrow> rstr) \<Rightarrow> rstr \<Rightarrow> session_db \<Rightarrow> (session_error + resumable_session)" where
  "open_for_resume mc session_dir i db =
     and_then (fetch_session i db) (\<lambda>r.
       if ss_project_id r \<noteq> sd_project db then Inl (ForeignProject i (sd_project db) (ss_project_id r))
       else and_then (supervision_of (ss_id r) db) (\<lambda>recorded.
            and_then (guard_error (guard_start mc session_dir r recorded (of_this_process mc))) (\<lambda>_.
              (case (disposition_of r, ss_native r) of
                 (DispResumable, Some native) \<Rightarrow>
                   Inr \<lparr>rs_id = ss_id r, rs_harness = ss_harness r, rs_native = native\<rparr>
               | (d, _) \<Rightarrow> Inl (NotResumable i (disposition_text d))))))"

definition write_identity_locked ::
    "rstr \<Rightarrow> process_identity option \<Rightarrow> rstr \<Rightarrow> session_db \<Rightarrow> (session_error + session_db)" where
  "write_identity_locked i identity action db =
     and_then (update_rows action i
         (\<lambda>row. row\<lparr>c_process_id := map_option (\<lambda>p. int (pi_pid p)) identity,
            c_process_started_at := map_option pi_started_at_ms identity,
            c_process_host := map_option pi_host identity,
            c_supervision := map_option (\<lambda>_. supervision_str Owned) identity,
            c_supervision_reason := None\<rparr>) db)
       (\<lambda>(changed, db'). if changed = 0 then Inl (NoSession i) else Inr db')"

definition begin_resume ::
    "machine \<Rightarrow> (rstr \<Rightarrow> rstr) \<Rightarrow> int \<Rightarrow> resumable_session \<Rightarrow> session_record store_method" where
  "begin_resume mc session_dir now resumable =
     (let i = rs_id resumable; action = u ''record a session resume''; identity = of_this_process mc
      in locked_then_fetch i (\<lambda>db.
           and_then (fetch_session i db) (\<lambda>r.
             if disposition_of r \<noteq> DispResumable then Inl (NotResumable i (disposition_text (disposition_of r)))
             else and_then (supervision_of i db) (\<lambda>recorded.
                  and_then (guard_error (guard_start mc session_dir r recorded identity)) (\<lambda>_.
                  and_then (write_identity_locked i identity action db) (\<lambda>db'.
                    write_lifecycle_locked i Running Active Authorized action now db'))))))"

section \<open>Reconciling the records with the machine\<close>

definition NEVER_READY_AFTER :: int where
  "NEVER_READY_AFTER = 300"

record supervised_session =
  su_id :: rstr
  su_harness :: rstr
  su_supervision :: supervision
  su_reason :: rstr
  su_identity :: "process_identity option"
  su_holds :: "rstr list"

record supervision_report =
  sp_adopted :: "supervised_session list"
  sp_quarantined :: "supervised_session list"
  sp_lost :: "supervised_session list"
  sp_never_ready :: "supervised_session list"

definition empty_report :: supervision_report where
  "empty_report = \<lparr>sp_adopted = [], sp_quarantined = [], sp_lost = [], sp_never_ready = []\<rparr>"

definition report_is_empty :: "supervision_report \<Rightarrow> bool" where
  "report_is_empty r \<longleftrightarrow> sp_adopted r = [] \<and> sp_quarantined r = [] \<and> sp_lost r = [] \<and> sp_never_ready r = []"

definition saturating_sub :: "int \<Rightarrow> int \<Rightarrow> int" where
  "saturating_sub a b = max (- (2 ^ 63)) (min (2 ^ 63 - 1) (a - b))"

text \<open>The list of the report a conclusion is pushed on.\<close>

datatype conclusion_list = AdoptedList | QuarantinedList | LostList | NeverReadyList

definition push_conclusion :: "conclusion_list \<Rightarrow> supervised_session \<Rightarrow> supervision_report \<Rightarrow> supervision_report" where
  "push_conclusion which s r =
     (case which of
        AdoptedList \<Rightarrow> r\<lparr>sp_adopted := sp_adopted r @ [s]\<rparr>
      | QuarantinedList \<Rightarrow> r\<lparr>sp_quarantined := sp_quarantined r @ [s]\<rparr>
      | LostList \<Rightarrow> r\<lparr>sp_lost := sp_lost r @ [s]\<rparr>
      | NeverReadyList \<Rightarrow> r\<lparr>sp_never_ready := sp_never_ready r @ [s]\<rparr>)"

text \<open>What one pass concludes of one live record: nothing, or a conclusion, its reason and the state it implies.\<close>

definition conclude ::
    "machine \<Rightarrow> process_identity option \<Rightarrow> int \<Rightarrow> rstr \<Rightarrow> session_record \<Rightarrow> process_identity option \<Rightarrow>
       (supervision \<times> rstr \<times> lifecycle option \<times> conclusion_list) option" where
  "conclude mc this now this_host r identity =
     (case identity of
        None \<Rightarrow>
          if ss_lifecycle r = Starting \<and> saturating_sub now (ss_created_at r) > NEVER_READY_AFTER
          then Some (Lost,
            u ''it has been starting for '' @ decimal (nat (saturating_sub now (ss_created_at r))) @
              u ''s and no process identity was ever recorded for it, so it never became ready'',
            Some Failed, NeverReadyList)
          else None
      | Some recorded \<Rightarrow>
          (case verify_identity mc recorded this_host of
             Verified \<Rightarrow>
               if this = Some recorded then None
               else Some (Adopted,
                 u ''verified still running as '' @ identity_text mc recorded @
                   u ''; adopted rather than started a second time'', None, AdoptedList)
           | Mismatched recorded_at observed_at \<Rightarrow>
               Some (Quarantined,
                 u ''process '' @ decimal (pi_pid recorded) @ u '' is running, but it started '' @
                   human_gap \<bar>observed_at - recorded_at\<bar> @ u '' '' @
                   (if observed_at \<ge> recorded_at then u ''after'' else u ''before'') @
                   u '' the process this session recorded, so the id was reused and what is running under '' @
                   u ''it now cannot be accounted for'', None, QuarantinedList)
           | ForeignHost recorded_on actual \<Rightarrow>
               Some (Quarantined,
                 u ''it was recorded on `'' @ recorded_on @ u ''` and this is `'' @ actual @
                   u ''`, so its process id cannot be checked here and it is neither alive nor '' @
                   u ''stopped as far as this machine can tell'', None, QuarantinedList)
           | Gone \<Rightarrow>
               if ss_lifecycle r = Starting
               then Some (Lost,
                 u ''its process ('' @ decimal (pi_pid recorded) @
                   u '') is gone and it never left `starting`, so the start never became ready'',
                 Some Failed, NeverReadyList)
               else Some (Lost,
                 u ''its process ('' @ decimal (pi_pid recorded) @ u '') is no longer running'',
                 Some Stopped, LostList)))"

definition discover :: "session_db \<Rightarrow> (session_error + session_record list)" where
  "discover db =
     and_then (list_sessions db)
       (\<lambda>rs. Inr (filter (\<lambda>r. ss_project_id r = sd_project db \<and> is_live (ss_lifecycle r)) rs))"

text \<open>
  The pass asks for the time once, \<open>now\<close>, and each conclusion it writes asks the store's clock again:
  \<open>clock i\<close> is the instant the conclusion on the session \<open>i\<close> is written at, of which a pass makes one
  at most. What runs on the machine is read once for the whole pass.
\<close>

primrec reconcile_from ::
    "machine \<Rightarrow> (rstr \<Rightarrow> rstr) \<Rightarrow> process_identity option \<Rightarrow> int \<Rightarrow> (rstr \<Rightarrow> int) \<Rightarrow> rstr \<Rightarrow> session_record list \<Rightarrow>
       supervision_report \<Rightarrow> supervision_report store_method" where
  "reconcile_from mc session_dir this now clock this_host [] report db = (Inr report, db)"
| "reconcile_from mc session_dir this now clock this_host (r # rs) report db =
     (case supervision_of (ss_id r) db of
        Inl e \<Rightarrow> (Inl e, db)
      | Inr recorded \<Rightarrow>
          (case conclude mc this now this_host r (sv_identity recorded) of
             None \<Rightarrow> reconcile_from mc session_dir this now clock this_host rs report db
           | Some (supervision, reason, state, which) \<Rightarrow>
               (case record_supervision (clock (ss_id r)) (ss_id r) supervision reason state db of
                  (Inl e, db') \<Rightarrow> (Inl e, db')
                | (Inr _, db') \<Rightarrow>
                    reconcile_from mc session_dir this now clock this_host rs
                      (push_conclusion which
                        \<lparr>su_id = ss_id r, su_harness = ss_harness r, su_supervision = supervision,
                         su_reason = reason, su_identity = sv_identity recorded,
                         su_holds = holdings session_dir r\<rparr> report) db')))"

definition reconcile ::
    "machine \<Rightarrow> (rstr \<Rightarrow> rstr) \<Rightarrow> process_identity option \<Rightarrow> int \<Rightarrow> (rstr \<Rightarrow> int) \<Rightarrow> supervision_report store_method" where
  "reconcile mc session_dir this now clock db =
     (case mc_host_name mc of
        None \<Rightarrow> (Inr empty_report, db)
      | Some this_host \<Rightarrow>
          (case discover db of
             Inl e \<Rightarrow> (Inl e, db)
           | Inr rs \<Rightarrow> reconcile_from mc session_dir this now clock this_host rs empty_report db))"

definition short_id :: "rstr \<Rightarrow> rstr" where
  "short_id i = (if length i \<ge> 8 then take 8 i else i)"

text \<open>What is said of a pass; the two kinds a person can act on.\<close>

definition describe_report :: "machine \<Rightarrow> supervision_report \<Rightarrow> rstr option" where
  "describe_report mc r =
     (if sp_quarantined r = [] \<and> sp_never_ready r = [] then None
      else Some (
        concat (map (\<lambda>s.
          u ''glasshouse: session '' @ short_id (su_id s) @ u '' ('' @ su_harness s @ u '') is quarantined: '' @
          su_reason s @ [10] @
          (case su_identity s of None \<Rightarrow> [] | Some i \<Rightarrow> u ''  it was recorded as '' @ identity_text mc i @ [10]) @
          concat (map (\<lambda>held. u ''  it still holds '' @ held @ [10]) (su_holds s)) @
          u ''  Glasshouse will not reuse it, replace it, or end it. '' @
          u ''Decide what to do with that process yourself.'' @ [10]) (sp_quarantined r)) @
        concat (map (\<lambda>s.
          u ''glasshouse: session '' @ short_id (su_id s) @ u '' ('' @ su_harness s @ u '') never started: '' @
          su_reason s @ [10]) (sp_never_ready r))))"

end
