(* ===== verification/Session_Claims.thy ===== *)
theory Session_Claims
  imports Session_Store
begin

text \<open>
  What a live session holds in the project database beside its record: the files it claims
  (\<open>session/store/claims.rs\<close>), the declaration that its task is nearly done (\<open>progress.rs\<close>), its inbox
  (\<open>messages.rs\<close>), and what can be said of its context (\<open>context.rs\<close>). Claims and declarations are both
  leases, which the locale \<open>lease\<close> states: they end with their owner or when they expire, and a read
  never shows one that has ended, whether or not its row was swept.
\<close>

text \<open>Looking a row up by a key no two rows share does not depend on their order.\<close>

definition find_unique :: "('r \<Rightarrow> 'k) \<Rightarrow> 'k \<Rightarrow> 'r list \<Rightarrow> 'r option" where
  "find_unique key k rows = List.find (\<lambda>r. key r = k) rows"

lemma find_unique_Some:
  "distinct (map key rows) \<Longrightarrow> find_unique key k rows = Some r \<longleftrightarrow> r \<in> set rows \<and> key r = k"
  by (induction rows) (auto simp: find_unique_def)

lemma find_unique_mset:
  assumes "distinct (map key rows)" and "mset rows = mset rows'"
  shows "find_unique key k rows = find_unique key k rows'"
proof -
  have "mset (map key rows') = mset (map key rows)" by (simp only: mset_map assms(2))
  then have "distinct (map key rows')" using assms(1) mset_eq_imp_distinct_iff by blast
  moreover have "set rows = set rows'" using assms(2) by (rule mset_eq_setD)
  ultimately have "find_unique key k rows = Some r \<longleftrightarrow> find_unique key k rows' = Some r" for r
    using assms(1) by (simp add: find_unique_Some)
  then show ?thesis by (metis not_None_eq)
qed

lemma find_unique_filter:
  "distinct (map key rows) \<Longrightarrow> find_unique key k (filter P rows) =
     (case find_unique key k rows of None \<Rightarrow> None | Some r \<Rightarrow> if P r then Some r else None)"
  by (induction rows) (auto simp: find_unique_def find_None_iff find_Some_iff split: option.split)

section \<open>Paths of claims\<close>

definition normalize_observed_path :: "rstr \<Rightarrow> rstr option" where
  "normalize_observed_path given =
     (let path = trim given
      in if path = [] then None
         else (let slashed = map (\<lambda>c. if c = 92 then 47 else c) path
               in if starts_with slashed [47] then None
                  else if length slashed \<ge> 2 \<and> slashed ! 1 = 58 \<and> is_ascii_alpha (slashed ! 0) then None
                  else (let parts = filter (\<lambda>p. p \<noteq> [] \<and> p \<noteq> u ''.'') (split_on (\<lambda>c. c = 47) slashed)
                        in if u ''..'' \<in> set parts \<or> parts = [] then None else Some (join_with (u ''/'') parts))))"

definition normalize_claim_path :: "rstr \<Rightarrow> (session_error + rstr)" where
  "normalize_claim_path path =
     (case normalize_observed_path path of Some p \<Rightarrow> Inr p | None \<Rightarrow> Inl (ClaimPath path))"

section \<open>Claims\<close>

definition STALE_CLAIM_AFTER :: int where
  "STALE_CLAIM_AFTER = 2 * 60 * 60"

text \<open>The sessions the subquery of the statements selects.\<close>

definition live_sessions :: "session_db \<Rightarrow> rstr list" where
  "live_sessions db =
     map c_id (filter (\<lambda>row. c_lifecycle row \<in> set (map lifecycle_str LIVE_LIFECYCLES)) (sd_sessions db))"

definition release_abandoned :: "rstr list \<Rightarrow> int \<Rightarrow> file_claim list \<Rightarrow> file_claim list" where
  "release_abandoned live now rows =
     filter (\<lambda>c. \<not> (fc_expires_at c \<le> now \<or> fc_session_id c \<notin> set live)) rows"

definition upsert_claim :: "rstr \<times> rstr \<Rightarrow> int \<Rightarrow> file_claim list \<Rightarrow> file_claim list" where
  "upsert_claim key now rows =
     (if list_ex (\<lambda>c. (fc_session_id c, fc_path c) = key) rows
      then map (\<lambda>c. if (fc_session_id c, fc_path c) = key
             then c\<lparr>fc_renewed_at := now, fc_expires_at := now + STALE_CLAIM_AFTER\<rparr> else c) rows
      else rows @ [\<lparr>fc_session_id = fst key, fc_path = snd key, fc_claimed_at = now, fc_renewed_at = now,
                     fc_expires_at = now + STALE_CLAIM_AFTER\<rparr>])"

definition claim_of :: "rstr \<times> rstr \<Rightarrow> file_claim list \<Rightarrow> file_claim option" where
  "claim_of key rows = List.find (\<lambda>c. (fc_session_id c, fc_path c) = key) rows"

definition claim_file :: "int \<Rightarrow> rstr \<Rightarrow> rstr \<Rightarrow> file_claim store_method" where
  "claim_file now session given db =
     (case normalize_claim_path given of
        Inl e \<Rightarrow> (Inl e, db)
      | Inr path \<Rightarrow>
          transaction (\<lambda>db.
            and_then (get_session session db) (\<lambda>found.
              case found of
                None \<Rightarrow> Inl (NoSession session)
              | Some r \<Rightarrow>
                  if \<not> is_live (ss_lifecycle r) then Inl (NotClaimable session (ss_lifecycle r))
                  else (let swept = release_abandoned (live_sessions db) now (sd_claims db);
                            rows = upsert_claim (session, path) now swept
                        in (case claim_of (session, path) rows of
                              Some c \<Rightarrow> Inr (c, db\<lparr>sd_claims := rows\<rparr>)
                            | None \<Rightarrow> Inl (SqlFailure (u ''record a file claim'')))))) db)"

definition release_claim :: "rstr \<Rightarrow> rstr \<Rightarrow> bool store_method" where
  "release_claim session given db =
     (case normalize_claim_path given of
        Inl e \<Rightarrow> (Inl e, db)
      | Inr path \<Rightarrow>
          (let rows = filter (\<lambda>c. \<not> (fc_session_id c = session \<and> fc_path c = path)) (sd_claims db)
           in (Inr (length rows < length (sd_claims db)), db\<lparr>sd_claims := rows\<rparr>)))"

definition release_claims_of :: "rstr \<Rightarrow> nat store_method" where
  "release_claims_of session db =
     (let rows = filter (\<lambda>c. fc_session_id c \<noteq> session) (sd_claims db)
      in (Inr (length (sd_claims db) - length rows), db\<lparr>sd_claims := rows\<rparr>))"

definition visible_claims :: "rstr list \<Rightarrow> int \<Rightarrow> file_claim list \<Rightarrow> file_claim list" where
  "visible_claims live now rows =
     sort_key (\<lambda>c. (fc_path c, fc_claimed_at c, fc_session_id c))
       (filter (\<lambda>c. fc_expires_at c > now \<and> fc_session_id c \<in> set live) rows)"

definition active_claims :: "int \<Rightarrow> session_db \<Rightarrow> file_claim list" where
  "active_claims now db = visible_claims (live_sessions db) now (sd_claims db)"

section \<open>Declarations\<close>

definition TASK_PROGRESS_EXPIRES_AFTER :: int where
  "TASK_PROGRESS_EXPIRES_AFTER = 30 * 60"

definition withdraw_abandoned :: "rstr list \<Rightarrow> int \<Rightarrow> progress_row list \<Rightarrow> progress_row list" where
  "withdraw_abandoned live now rows =
     filter (\<lambda>d. \<not> (pg_expires_at d \<le> now \<or> pg_session_id d \<notin> set live)) rows"

definition upsert_progress :: "rstr \<Rightarrow> int \<Rightarrow> progress_row list \<Rightarrow> progress_row list" where
  "upsert_progress session now rows =
     (if list_ex (\<lambda>d. pg_session_id d = session) rows
      then map (\<lambda>d. if pg_session_id d = session
             then d\<lparr>pg_renewed_at := now, pg_expires_at := now + TASK_PROGRESS_EXPIRES_AFTER\<rparr> else d) rows
      else rows @ [\<lparr>pg_session_id = session, pg_declared_at = now, pg_renewed_at = now,
                     pg_expires_at = now + TASK_PROGRESS_EXPIRES_AFTER\<rparr>])"

definition progress_of :: "rstr \<Rightarrow> progress_row list \<Rightarrow> progress_row option" where
  "progress_of session rows = List.find (\<lambda>d. pg_session_id d = session) rows"

definition declare_task_nearly_complete :: "int \<Rightarrow> rstr \<Rightarrow> progress_row store_method" where
  "declare_task_nearly_complete now session db =
     transaction (\<lambda>db.
       and_then (get_session session db) (\<lambda>found.
         case found of
           None \<Rightarrow> Inl (NoSession session)
         | Some r \<Rightarrow>
             if \<not> is_live (ss_lifecycle r) then Inl (NotDeclarable session (ss_lifecycle r))
             else (let swept = withdraw_abandoned (live_sessions db) now (sd_progress db);
                       rows = upsert_progress session now swept
                   in (case progress_of session rows of
                         Some d \<Rightarrow> Inr (d, db\<lparr>sd_progress := rows\<rparr>)
                       | None \<Rightarrow> Inl (SqlFailure (u ''record a task-progress declaration'')))))) db"

definition withdraw_task_progress :: "rstr \<Rightarrow> bool store_method" where
  "withdraw_task_progress session db =
     (let rows = filter (\<lambda>d. pg_session_id d \<noteq> session) (sd_progress db)
      in (Inr (length rows < length (sd_progress db)), db\<lparr>sd_progress := rows\<rparr>))"

definition visible_progress :: "rstr list \<Rightarrow> int \<Rightarrow> progress_row list \<Rightarrow> progress_row list" where
  "visible_progress live now rows =
     sort_key (\<lambda>d. (pg_declared_at d, pg_session_id d))
       (filter (\<lambda>d. pg_expires_at d > now \<and> pg_session_id d \<in> set live) rows)"

definition active_task_progress :: "int \<Rightarrow> session_db \<Rightarrow> progress_row list" where
  "active_task_progress now db = visible_progress (live_sessions db) now (sd_progress db)"

definition sessions_declaring :: "int \<Rightarrow> session_db \<Rightarrow> rstr set" where
  "sessions_declaring now db = set (map pg_session_id (active_task_progress now db))"

section \<open>Leases\<close>

text \<open>
  Rows kept under a key that names an owner, until they expire or the owner is gone. A sweep drops the
  ended ones, a put takes or renews one, and a reader shows what a sweep would keep.
\<close>

locale lease =
  fixes key :: "'r \<Rightarrow> 'k"
    and owner :: "'k \<Rightarrow> rstr"
    and since :: "'r \<Rightarrow> int"
    and expires :: "'r \<Rightarrow> int"
    and fresh :: "'k \<Rightarrow> int \<Rightarrow> int \<Rightarrow> 'r"
    and sweep :: "rstr list \<Rightarrow> int \<Rightarrow> 'r list \<Rightarrow> 'r list"
    and put :: "'k \<Rightarrow> int \<Rightarrow> 'r list \<Rightarrow> 'r list"
    and visible :: "rstr list \<Rightarrow> int \<Rightarrow> 'r list \<Rightarrow> 'r list"
  assumes swept: "sweep live now rows = filter (\<lambda>r. now < expires r \<and> owner (key r) \<in> set live) rows"
    and shown: "mset (visible live now rows) = mset (sweep live now rows)"
    and put_new: "k \<notin> key ` set rows \<Longrightarrow> put k now rows = rows @ [fresh k now now]"
    and put_again: "k \<in> key ` set rows \<Longrightarrow>
      put k now rows = map (\<lambda>r. if key r = k then fresh k (since r) now else r) rows"
    and fresh_key: "key (fresh k start now) = k"
    and fresh_lasts: "now < expires (fresh k start now)"
begin

lemma find_shown:
  assumes "distinct (map key rows)"
  shows "List.find (\<lambda>r. key r = k) (visible live now rows) = List.find (\<lambda>r. key r = k) (sweep live now rows)"
proof -
  have "distinct (map key (sweep live now rows))"
    using assms by (simp add: swept distinct_map_filter)
  then have "find_unique key k (sweep live now rows) = find_unique key k (visible live now rows)"
    by (intro find_unique_mset) (simp_all add: shown)
  then show ?thesis by (simp add: find_unique_def)
qed

lemma put_distinct: "distinct (map key rows) \<Longrightarrow> distinct (map key (put k now rows))"
proof (cases "k \<in> key ` set rows")
  case True
  moreover have "map key (map (\<lambda>r. if key r = k then fresh k (since r) now else r) rows) = map key rows"
    by (simp add: fresh_key)
  moreover assume "distinct (map key rows)"
  ultimately show ?thesis by (simp only: put_again)
next
  case False
  moreover assume "distinct (map key rows)"
  ultimately show ?thesis by (simp add: put_new fresh_key)
qed

lemma sweep_distinct: "distinct (map key rows) \<Longrightarrow> distinct (map key (sweep live now rows))"
  by (simp add: swept distinct_map_filter)

lemma find_put:
  "List.find (\<lambda>r. key r = k') (put k now rows) =
     (if k' = k
      then Some (fresh k (case List.find (\<lambda>r. key r = k) rows of Some r \<Rightarrow> since r | None \<Rightarrow> now) now)
      else List.find (\<lambda>r. key r = k') rows)"
proof (cases "k \<in> key ` set rows")
  case True
  have "List.find (\<lambda>r. key r = k') (map (\<lambda>r. if key r = k then fresh k (since r) now else r) rows) =
      (if k' = k then map_option (\<lambda>r. fresh k (since r) now) (List.find (\<lambda>r. key r = k) rows)
       else List.find (\<lambda>r. key r = k') rows)" for rows
    by (induction rows) (auto simp: fresh_key)
  moreover obtain r where "List.find (\<lambda>r. key r = k) rows = Some r"
    using True by (cases "List.find (\<lambda>r. key r = k) rows") (auto simp: find_None_iff)
  ultimately show ?thesis by (simp add: put_again [OF True])
next
  case False
  then have "List.find (\<lambda>r. key r = k) rows = None" by (auto simp: find_None_iff)
  moreover have "List.find P (rows @ [x]) = (case List.find P rows of Some y \<Rightarrow> Some y | None \<Rightarrow> if P x then Some x else None)"
    for P and x :: 'r
    by (induction rows) auto
  ultimately show ?thesis by (simp add: put_new [OF False] fresh_key split: option.split)
qed

text \<open>
  Taking or renewing a lease changes what any later reader sees at its key, until it expires, and
  nothing else.
\<close>

lemma taken:
  assumes "distinct (map key rows)" and "owner k \<in> set live" and "now \<le> later"
    and f: "f = fresh k (case List.find (\<lambda>r. key r = k) (visible live now rows) of Some r \<Rightarrow> since r | None \<Rightarrow> now) now"
  shows "List.find (\<lambda>r. key r = k') (visible live later (put k now (sweep live now rows))) =
    (if k' = k then (if later < expires f then Some f else None)
     else List.find (\<lambda>r. key r = k') (visible live later rows))"
proof -
  note ends = find_unique_filter [OF sweep_distinct [OF assms(1)], unfolded find_unique_def]
    find_unique_filter [OF put_distinct [OF sweep_distinct [OF assms(1)]], unfolded find_unique_def]
    find_unique_filter [OF assms(1), unfolded find_unique_def]
  have "List.find (\<lambda>r. key r = k') (visible live later (put k now (sweep live now rows))) =
      List.find (\<lambda>r. key r = k') (sweep live later (put k now (sweep live now rows)))"
    by (simp add: find_shown assms(1) put_distinct sweep_distinct)
  also have "\<dots> = (if k' = k then (if later < expires f then Some f else None)
     else List.find (\<lambda>r. key r = k') (sweep live later rows))"
    unfolding swept [of _ later] ends find_put using assms
    by (auto simp: find_shown fresh_key ends swept split: option.split)
  finally show ?thesis by (simp add: find_shown assms(1))
qed

text \<open>A sweep is not observed, whenever the reader comes.\<close>

lemma sweep_unobserved:
  "now \<le> later \<Longrightarrow> mset (visible live later (sweep live now rows)) = mset (visible live later rows)"
  unfolding shown swept filter_filter by (rule arg_cong [where f = mset]) (auto intro: filter_cong)

end

lemmas claim_simps = release_abandoned_def upsert_claim_def visible_claims_def STALE_CLAIM_AFTER_def

interpretation claims: lease "\<lambda>c. (fc_session_id c, fc_path c)" fst fc_claimed_at fc_expires_at
    "\<lambda>k since now. \<lparr>fc_session_id = fst k, fc_path = snd k, fc_claimed_at = since, fc_renewed_at = now,
       fc_expires_at = now + STALE_CLAIM_AFTER\<rparr>"
    release_abandoned upsert_claim visible_claims
proof unfold_locales
  fix live now and rows :: "file_claim list"
  show "release_abandoned live now rows =
      filter (\<lambda>r. now < fc_expires_at r \<and> fst (fc_session_id r, fc_path r) \<in> set live) rows"
    by (simp add: release_abandoned_def not_le)
qed (auto simp: claim_simps list_ex_iff image_iff not_le intro!: arg_cong [where f = mset] filter_cong)

interpretation declarations: lease pg_session_id "\<lambda>i. i" pg_declared_at pg_expires_at
    "\<lambda>k since now. \<lparr>pg_session_id = k, pg_declared_at = since, pg_renewed_at = now,
       pg_expires_at = now + TASK_PROGRESS_EXPIRES_AFTER\<rparr>"
    withdraw_abandoned upsert_progress visible_progress
  by unfold_locales (auto simp: withdraw_abandoned_def upsert_progress_def visible_progress_def
      TASK_PROGRESS_EXPIRES_AFTER_def list_ex_iff image_iff not_le intro!: arg_cong [where f = mset] filter_cong)

section \<open>The inbox\<close>

text \<open>The key of a new row is one more than the largest: no message is ever deleted.\<close>

definition append_session_message :: "int \<Rightarrow> rstr \<Rightarrow> rstr option \<Rightarrow> rstr \<Rightarrow> nat store_method" where
  "append_session_message now session sender body db =
     (let seq = (if sd_messages db = [] then 1 else Max (set (map sm_seq (sd_messages db))) + 1)
      in (Inr seq, db\<lparr>sd_messages := sd_messages db @
            [\<lparr>sm_seq = seq, sm_session = session, sm_sender = sender, sm_body = body, sm_at = now\<rparr>]\<rparr>))"

definition session_messages :: "rstr \<Rightarrow> int \<Rightarrow> nat \<Rightarrow> session_db \<Rightarrow> session_message list" where
  "session_messages session after limit db =
     take limit (sort_key sm_seq (filter (\<lambda>m. sm_session m = session \<and> int (sm_seq m) > after) (sd_messages db)))"

definition session_messages_head :: "rstr \<Rightarrow> session_db \<Rightarrow> nat" where
  "session_messages_head session db =
     (case map sm_seq (filter (\<lambda>m. sm_session m = session) (sd_messages db)) of
        [] \<Rightarrow> 0 | seqs \<Rightarrow> Max (set seqs))"

section \<open>Context\<close>

datatype cache_state = Hot | Warm | Cold | UnknownCache

definition cache_word :: "cache_state \<Rightarrow> rstr" where
  "cache_word c = (case c of Hot \<Rightarrow> u ''hot'' | Warm \<Rightarrow> u ''warm'' | Cold \<Rightarrow> u ''cold'' | UnknownCache \<Rightarrow> u ''unknown'')"

definition HOT_PROMPT_CACHE_SECONDS :: int where
  "HOT_PROMPT_CACHE_SECONDS = 5 * 60"

definition WARM_PROMPT_CACHE_SECONDS :: int where
  "WARM_PROMPT_CACHE_SECONDS = 60 * 60"

definition estimate_cache :: "int \<Rightarrow> int \<Rightarrow> cache_state" where
  "estimate_cache now last_activity_at =
     (let idle = now - last_activity_at
      in if idle < - (2 ^ 63) \<or> 2 ^ 63 \<le> idle then UnknownCache
         else if idle < 0 then UnknownCache
         else if idle \<le> HOT_PROMPT_CACHE_SECONDS then Hot
         else if idle \<le> WARM_PROMPT_CACHE_SECONDS then Warm
         else Cold)"

datatype checkpoint_recency = CurrentCheckpoint int | StaleCheckpoint int | NeverCheckpoint

definition recency_word :: "checkpoint_recency \<Rightarrow> rstr" where
  "recency_word c =
     (case c of CurrentCheckpoint _ \<Rightarrow> u ''current'' | StaleCheckpoint _ \<Rightarrow> u ''stale'' | NeverCheckpoint \<Rightarrow> u ''never'')"

definition stored_at :: "checkpoint_recency \<Rightarrow> int option" where
  "stored_at c = (case c of CurrentCheckpoint t \<Rightarrow> Some t | StaleCheckpoint t \<Rightarrow> Some t | NeverCheckpoint \<Rightarrow> None)"

datatype task_continuity = UnknownTask | OneTask | BoundariesCrossed nat

definition continuity_text :: "task_continuity \<Rightarrow> rstr" where
  "continuity_text t =
     (case t of UnknownTask \<Rightarrow> u ''unknown'' | OneTask \<Rightarrow> u ''one task''
      | BoundariesCrossed n \<Rightarrow>
          if n = 1 then u ''1 task boundary completed'' else decimal n @ u '' task boundaries completed'')"

record session_context =
  sx_session :: rstr
  sx_observed_compactions :: "int option"
  sx_last_activity_at :: int
  sx_prompt_cache :: cache_state
  sx_checkpoint :: checkpoint_recency
  sx_task_continuity :: task_continuity

text \<open>
  The two sibling tables are arguments: the instants of the session's checkpoints, and its logged events
  with whether each is a completed turn.
\<close>

definition context_of ::
    "int \<Rightarrow> int list \<Rightarrow> bool list \<Rightarrow> rstr \<Rightarrow> session_db \<Rightarrow> (session_error + session_context option)" where
  "context_of now checkpoints completed i db =
     and_then (get_session i db) (\<lambda>found.
       case found of
         None \<Rightarrow> Inr None
       | Some r \<Rightarrow>
           Inr (Some
             \<lparr>sx_session = ss_id r, sx_observed_compactions = ss_observed_compactions r,
              sx_last_activity_at = ss_last_activity_at r,
              sx_prompt_cache = estimate_cache now (ss_last_activity_at r),
              sx_checkpoint =
                (if checkpoints = [] then NeverCheckpoint
                 else if Max (set checkpoints) \<ge> ss_last_activity_at r then CurrentCheckpoint (Max (set checkpoints))
                 else StaleCheckpoint (Max (set checkpoints))),
              sx_task_continuity =
                (if completed = [] then UnknownTask
                 else if length (filter id completed) = 0 then OneTask
                 else BoundariesCrossed (length (filter id completed)))\<rparr>))"

end
