(* ===== verification/Sessions.thy ===== *)
theory Sessions
  imports Session_Claims
begin

text \<open>
  The session tables under any sequence of calls: the calls of the store as data, the states they reach,
  and what holds in every one of them. A reconciliation is a sequence of supervision records, one
  transaction each, so its steps are the calls here.
\<close>

section \<open>Calls\<close>

text \<open>A label reaches the store only through its parser, which refuses what it does not store.\<close>

definition with_label :: "nat \<Rightarrow> rstr \<Rightarrow> (rstr \<Rightarrow> session_record store_method) \<Rightarrow> session_record store_method" where
  "with_label limit text' method db =
     (case parse_label limit text' of Inl e \<Rightarrow> (Inl (BadLabel e), db) | Inr label \<Rightarrow> method label db)"

datatype store_call =
    Create machine int rstr new_session
  | SetLifecycle int rstr lifecycle
  | RecordSupervision int rstr supervision rstr "lifecycle option"
  | SetNativeId int rstr rstr
  | Touch int rstr
  | CountCompaction rstr
  | SeeCommit rstr rstr
  | Rename rstr rstr
  | ClearName rstr
  | Tag rstr rstr
  | ClearTag rstr
  | Present rstr presentation "rstr option"
  | Close int rstr
  | BeginResume machine "rstr \<Rightarrow> rstr" int resumable_session
  | ClaimFile int rstr rstr
  | ReleaseClaim rstr rstr
  | ReleaseClaims rstr
  | Declare int rstr
  | Withdraw rstr
  | Message int rstr "rstr option" rstr

definition apply_call :: "store_call \<Rightarrow> session_db \<Rightarrow> session_db" where
  "apply_call c db =
     (case c of
        Create mc now i new \<Rightarrow> snd (create_session mc now i new db)
      | SetLifecycle now i to \<Rightarrow> snd (set_lifecycle now i to db)
      | RecordSupervision now i supervision reason to \<Rightarrow> snd (record_supervision now i supervision reason to db)
      | SetNativeId now i native \<Rightarrow> snd (set_native_session_id now i native db)
      | Touch now i \<Rightarrow> snd (touch_session now i db)
      | CountCompaction i \<Rightarrow> snd (record_observed_compaction i db)
      | SeeCommit i seen \<Rightarrow> snd (record_seen_commit i seen db)
      | Rename i name \<Rightarrow> snd (with_label MAX_SESSION_NAME name (rename_session i) db)
      | ClearName i \<Rightarrow> snd (clear_name i db)
      | Tag i purpose \<Rightarrow> snd (with_label MAX_SESSION_PURPOSE purpose (set_purpose i) db)
      | ClearTag i \<Rightarrow> snd (clear_purpose i db)
      | Present i shown pane \<Rightarrow> snd (set_presentation i shown pane db)
      | Close now i \<Rightarrow> snd (close_session now i db)
      | BeginResume mc session_dir now r \<Rightarrow> snd (begin_resume mc session_dir now r db)
      | ClaimFile now i path \<Rightarrow> snd (claim_file now i path db)
      | ReleaseClaim i path \<Rightarrow> snd (release_claim i path db)
      | ReleaseClaims i \<Rightarrow> snd (release_claims_of i db)
      | Declare now i \<Rightarrow> snd (declare_task_nearly_complete now i db)
      | Withdraw i \<Rightarrow> snd (withdraw_task_progress i db)
      | Message now i sender body \<Rightarrow> snd (append_session_message now i sender body db))"

definition empty_sessions :: "rstr \<Rightarrow> session_db" where
  "empty_sessions project =
     \<lparr>sd_project = project, sd_sessions = [], sd_claims = [], sd_progress = [], sd_messages = []\<rparr>"

inductive sessions_reachable :: "session_db \<Rightarrow> bool" where
  opened: "sessions_reachable (empty_sessions project)"
| called: "sessions_reachable db \<Longrightarrow> sessions_reachable (apply_call c db)"

section \<open>What a call does to a row\<close>

lemma update_rows_Inr:
  assumes "update_rows action i f db = Inr (n, db')"
  shows "db' = db\<lparr>sd_sessions := map (\<lambda>row. if c_id row = i then f row else row) (sd_sessions db)\<rparr>"
    and "n = length (filter (\<lambda>row. c_id row = i) (sd_sessions db))"
    and "distinct (conversations (sd_sessions db'))"
    and "\<forall>row\<in>set (sd_sessions db). c_id row = i \<longrightarrow> row_checks (f row)"
  using assms by (auto simp: update_rows_def Let_def list_all_iff split: if_splits)

lemma row_of_update:
  assumes "\<And>row. c_id (f row) = c_id row"
  shows "session_row_of j (db\<lparr>sd_sessions := map (\<lambda>row. if c_id row = i then f row else row) (sd_sessions db)\<rparr>) =
    (if j = i then map_option f (session_row_of j db) else session_row_of j db)"
proof -
  have "List.find (\<lambda>row. c_id row = j) (map (\<lambda>row. if c_id row = i then f row else row) rows) =
      (if j = i then map_option f (List.find (\<lambda>row. c_id row = j) rows) else List.find (\<lambda>row. c_id row = j) rows)" for rows
    by (induction rows) (auto simp: assms)
  then show ?thesis by (simp add: session_row_of_def)
qed

lemma session_row_of_id: "session_row_of i db = Some row \<Longrightarrow> c_id row = i \<and> row \<in> set (sd_sessions db)"
  by (auto simp: session_row_of_def find_Some_iff)

lemma transaction_cases:
  obtains (failed) e where "transaction body db = (Inl e, db)" "body db = Inl e"
  | (committed) x db' where "transaction body db = (Inr x, db')" "body db = Inr (x, db')"
  by (cases "body db") (auto simp: transaction_def)

lemma locked_cases:
  obtains (failed) e where "snd (locked_then_fetch i body db) = db" "body db = Inl e"
  | (committed) db' where "snd (locked_then_fetch i body db) = db'" "body db = Inr db'"
  by (cases "body db") (auto simp: locked_then_fetch_def transaction_def)

lemma update_session_cases:
  obtains (failed) "snd (update_session action i f db) = db"
  | (updated) n db' where "snd (update_session action i f db) = db'" "update_rows action i f db = Inr (n, db')"
  by (cases "update_rows action i f db") (auto simp: update_session_def split: if_splits)

section \<open>Rows stay readable\<close>

definition reads :: "(rstr \<Rightarrow> 'a option) \<Rightarrow> rstr option \<Rightarrow> bool" where
  "reads decode stored \<longleftrightarrow> (case stored of None \<Rightarrow> True | Some w \<Rightarrow> decode w \<noteq> None)"

definition row_readable :: "session_row \<Rightarrow> bool" where
  "row_readable row \<longleftrightarrow>
     role_from_str (c_role row) \<noteq> None \<and> lifecycle_from_str (c_lifecycle row) \<noteq> None \<and>
     presentation_from_str (c_presentation row) \<noteq> None \<and> reads decode_assigned_model (c_model row) \<and>
     reads pairing_from_str (c_pairing_class row) \<and> reads protocol_from_str (c_protocol row) \<and>
     reads decode_response_profile (c_response_profile row) \<and> reads mechanism_from_str (c_response_mechanism row) \<and>
     reads (label_read MAX_SESSION_NAME) (c_display_name row) \<and> reads (label_read MAX_SESSION_PURPOSE) (c_purpose row)"

lemma optional_reads_iff: "(\<exists>v. optional i column stored decode = Inr v) \<longleftrightarrow> reads decode stored"
  by (auto simp: optional_def reads_def split: option.splits)

lemma decode_word_iff: "(\<exists>v. decode_word i column w parsed = Inr v) \<longleftrightarrow> parsed \<noteq> None"
  by (auto simp: decode_word_def split: option.splits)

lemma and_then_total: "(\<exists>y. and_then r f = Inr y) \<longleftrightarrow> (\<exists>x. r = Inr x \<and> (\<exists>y. f x = Inr y))"
  by (cases r) simp_all

lemma row_readable_iff: "row_readable row \<longleftrightarrow> (\<exists>r. read_record row = Inr r)"
  by (simp only: row_readable_def read_record_def Let_def and_then_total ex_simps simp_thms sum.inject
      optional_reads_iff decode_word_iff)

definition row_ok :: "rstr \<Rightarrow> session_row \<Rightarrow> bool" where
  "row_ok project row \<longleftrightarrow>
     row_readable row \<and> c_project_id row = project \<and> reads supervision_from_str (c_supervision row)"

definition sessions_ok :: "session_db \<Rightarrow> bool" where
  "sessions_ok db \<longleftrightarrow>
     (\<forall>row\<in>set (sd_sessions db). row_ok (sd_project db) row) \<and>
     distinct (map c_id (sd_sessions db)) \<and> distinct (conversations (sd_sessions db))"

lemma parse_label_again: "parse_label limit text' = Inr label \<Longrightarrow> parse_label limit label = Inr label"
  by (auto simp: parse_label_def Let_def trim_trim split: if_splits)

lemma update_ok:
  assumes "update_rows action i f db = Inr (n, db')" and "sessions_ok db"
    and "\<And>row. row_ok (sd_project db) row \<Longrightarrow> row_ok (sd_project db) (f row)"
    and "\<And>row. c_id (f row) = c_id row"
  shows "sessions_ok db'"
proof -
  note u = update_rows_Inr [OF assms(1)]
  have "map c_id (sd_sessions db') = map c_id (sd_sessions db)"
    by (simp add: u(1) comp_def assms(4) cong: if_cong)
  then have "distinct (map c_id (sd_sessions db'))"
    using assms(2) by (simp add: sessions_ok_def)
  moreover have "\<forall>row\<in>set (sd_sessions db'). row_ok (sd_project db') row"
    using assms(2,3) by (auto simp: sessions_ok_def u(1))
  ultimately show ?thesis
    using u(3) by (simp add: sessions_ok_def)
qed

lemma update_session_ok:
  assumes "sessions_ok db" and "\<And>row. row_ok (sd_project db) row \<Longrightarrow> row_ok (sd_project db) (f row)"
    and "\<And>row. c_id (f row) = c_id row"
  shows "sessions_ok (snd (update_session action i f db))"
proof (cases rule: update_session_cases [of action i f db])
  case (updated n db')
  then show ?thesis using update_ok [OF _ assms] by simp
qed (simp add: assms(1))

lemma write_lifecycle_cases:
  assumes "write_lifecycle_locked i to activity revival action now db = Inr db'"
  obtains (declined) "db' = db" "revival = Forbidden" "is_live to"
      "\<And>l. read_lifecycle_locked i db = Inr l \<Longrightarrow> \<not> is_live l"
  | (written) l n f where "read_lifecycle_locked i db = Inr l" "revival = Forbidden \<longrightarrow> is_live l \<or> \<not> is_live to"
      "update_rows action i f db = Inr (n, db')"
      "f = (\<lambda>row. row\<lparr>c_lifecycle := lifecycle_str to,
         c_last_activity_at := (if activity = Active then now else c_last_activity_at row)\<rparr>)"
proof -
  obtain l where l: "read_lifecycle_locked i db = Inr l"
    using assms by (auto simp: write_lifecycle_locked_def and_then_Inr)
  show ?thesis
  proof (cases "revival = Forbidden \<and> \<not> is_live l \<and> is_live to")
    case True
    then show ?thesis using assms l declined by (simp add: write_lifecycle_locked_def)
  next
    case False
    then show ?thesis
      using assms l written by (auto simp: write_lifecycle_locked_def and_then_Inr)
  qed
qed

lemmas row_ok_defs = row_ok_def row_readable_def reads_def word_codecs

lemma write_lifecycle_ok:
  "write_lifecycle_locked i to activity revival action now db = Inr db' \<Longrightarrow> sessions_ok db \<Longrightarrow> sessions_ok db'"
  by (erule write_lifecycle_cases) (auto elim!: update_ok simp: row_ok_defs)

lemma write_identity_ok:
  "write_identity_locked i identity action db = Inr db' \<Longrightarrow> sessions_ok db \<Longrightarrow> sessions_ok db'"
  by (auto simp: write_identity_locked_def and_then_Inr row_ok_defs split: if_splits option.split elim!: update_ok)

lemma create_cases:
  obtains (failed) "snd (create_session mc now i new db) = db"
  | (inserted) db' where "snd (create_session mc now i new db) = db'"
      "insert_session (u ''record a new session'')
         (insert_row (new_record (sd_project db) i now new) (of_this_process mc)) db = Inr db'"
proof (cases "create_session mc now i new db")
  case (Pair r db')
  show ?thesis
  proof (cases r)
    case (Inl e)
    then show ?thesis using Pair failed by (auto simp: create_session_def Let_def split: sum.splits)
  next
    case (Inr rec)
    then show ?thesis
      using Pair inserted by (auto simp: create_session_def Let_def and_then_Inr split: sum.splits prod.splits)
  qed
qed

lemma create_ok:
  assumes "sessions_ok db"
  shows "sessions_ok (snd (create_session mc now i new db))"
proof (cases rule: create_cases [of mc now i new db])
  case failed
  then show ?thesis by (simp add: assms)
next
  case (inserted db')
  have readable: "row_ok (sd_project db) (insert_row (new_record (sd_project db) i now new) identity)"
    if "row_checks (insert_row (new_record (sd_project db) i now new) identity)" for identity
  proof -
    have "read_record (insert_row (new_record (sd_project db) i now new) identity) =
        Inr (new_record (sd_project db) i now new)"
    proof (rule recorded_reads)
      show "ss_model (new_record (sd_project db) i now new) \<noteq> Some (Named [])"
        using that by (auto simp: row_checks_iff insert_row_def encode_assigned_model_def sql_length_def)
    qed (simp_all add: new_record_def)
    then have "row_readable (insert_row (new_record (sd_project db) i now new) identity)"
      unfolding row_readable_iff by (rule exI)
    then show ?thesis
      by (simp add: row_ok_def insert_row_def new_record_def reads_def word_codecs split: option.split)
  qed
  have "sessions_ok db'"
    using assms inserted(2) readable by (auto simp: insert_session_def Let_def sessions_ok_def split: if_splits)
  then show ?thesis by (simp add: inserted(1))
qed

lemma locked_ok:
  assumes "sessions_ok db" and "\<And>db'. body db = Inr db' \<Longrightarrow> sessions_ok db'"
  shows "sessions_ok (snd (locked_then_fetch i body db))"
  by (cases rule: locked_cases [of i body db]) (simp_all add: assms)

lemma record_supervision_ok:
  assumes "sessions_ok db"
  shows "sessions_ok (snd (record_supervision now i supervision reason to db))"
  unfolding record_supervision_def
proof (rule locked_ok [OF assms])
  fix db'
  assume "and_then (update_rows (u ''record a supervision conclusion'') i
      (\<lambda>row. row\<lparr>c_supervision := Some (supervision_str supervision), c_supervision_reason := Some reason\<rparr>) db)
    (\<lambda>(changed, db'). if changed = 0 then Inl (NoSession i)
       else (case to of
           Some to \<Rightarrow> write_lifecycle_locked i to Active Forbidden (u ''record a supervision conclusion'') now db'
         | None \<Rightarrow> Inr db')) = Inr db'"
  then obtain n d where "update_rows (u ''record a supervision conclusion'') i
        (\<lambda>row. row\<lparr>c_supervision := Some (supervision_str supervision), c_supervision_reason := Some reason\<rparr>) db = Inr (n, d)"
      and rest: "d = db' \<or> (\<exists>to. write_lifecycle_locked i to Active Forbidden (u ''record a supervision conclusion'') now d = Inr db')"
    by (auto simp: and_then_Inr split: if_splits option.splits)
  then have "sessions_ok d"
    by (elim update_ok) (simp_all add: assms row_ok_defs)
  then show "sessions_ok db'" using rest write_lifecycle_ok by auto
qed

lemma begin_resume_ok:
  assumes "sessions_ok db"
  shows "sessions_ok (snd (begin_resume mc session_dir now r db))"
  unfolding begin_resume_def Let_def
  by (rule locked_ok [OF assms])
    (auto simp: and_then_Inr split: if_splits dest: write_identity_ok [OF _ assms] intro: write_lifecycle_ok)

lemma close_ok: "sessions_ok db \<Longrightarrow> sessions_ok (snd (close_session now i db))"
  unfolding close_session_def
  by (rule locked_ok) (auto simp: and_then_Inr split: if_splits intro: write_lifecycle_ok)

text \<open>The other tables are not the sessions'.\<close>

lemma other_tables_ok:
  "sd_sessions db' = sd_sessions db \<Longrightarrow> sd_project db' = sd_project db \<Longrightarrow> sessions_ok db' \<longleftrightarrow> sessions_ok db"
  by (simp add: sessions_ok_def)

lemma transaction_keeps:
  assumes "\<And>x db'. body db = Inr (x, db') \<Longrightarrow> P db'" and "P db"
  shows "P (snd (transaction body db))"
  using assms by (cases rule: transaction_cases [of body db]) auto

lemma side_tables:
  "sd_sessions (snd (claim_file now i path db)) = sd_sessions db"
  "sd_project (snd (claim_file now i path db)) = sd_project db"
  "sd_sessions (snd (release_claim i path db)) = sd_sessions db"
  "sd_project (snd (release_claim i path db)) = sd_project db"
  "sd_sessions (snd (release_claims_of i db)) = sd_sessions db"
  "sd_project (snd (release_claims_of i db)) = sd_project db"
  "sd_sessions (snd (declare_task_nearly_complete now i db)) = sd_sessions db"
  "sd_project (snd (declare_task_nearly_complete now i db)) = sd_project db"
  "sd_sessions (snd (withdraw_task_progress i db)) = sd_sessions db"
  "sd_project (snd (withdraw_task_progress i db)) = sd_project db"
  "sd_sessions (snd (append_session_message now i sender body db)) = sd_sessions db"
  "sd_project (snd (append_session_message now i sender body db)) = sd_project db"
  by (auto simp: claim_file_def release_claim_def release_claims_of_def declare_task_nearly_complete_def
      withdraw_task_progress_def append_session_message_def Let_def transaction_def and_then_def
      split: sum.splits option.splits if_splits)

lemma with_label_ok:
  assumes "sessions_ok db"
    and "\<And>label. parse_label limit label = Inr label \<Longrightarrow> sessions_ok (snd (method label db))"
  shows "sessions_ok (snd (with_label limit text' method db))"
  using assms parse_label_again [of limit text'] by (cases "parse_label limit text'") (simp_all add: with_label_def)

lemma apply_call_ok:
  assumes "sessions_ok db"
  shows "sessions_ok (apply_call c db)"
proof (cases c)
  case (Rename i name)
  have "sessions_ok (snd (with_label MAX_SESSION_NAME name (rename_session i) db))"
  proof (rule with_label_ok [OF assms])
    fix label
    assume "parse_label MAX_SESSION_NAME label = Inr label"
    then show "sessions_ok (snd (rename_session i label db))"
      unfolding rename_session_def by (intro update_session_ok [OF assms]) (simp_all add: row_ok_defs label_read_def)
  qed
  then show ?thesis by (simp add: apply_call_def Rename)
next
  case (Tag i name)
  have "sessions_ok (snd (with_label MAX_SESSION_PURPOSE name (set_purpose i) db))"
  proof (rule with_label_ok [OF assms])
    fix label
    assume "parse_label MAX_SESSION_PURPOSE label = Inr label"
    then show "sessions_ok (snd (set_purpose i label db))"
      unfolding set_purpose_def by (intro update_session_ok [OF assms]) (simp_all add: row_ok_defs label_read_def)
  qed
  then show ?thesis by (simp add: apply_call_def Tag)
next
  case (SetLifecycle now i to)
  then show ?thesis
    by (auto simp: apply_call_def set_lifecycle_def intro: locked_ok [OF assms] write_lifecycle_ok [OF _ assms])
next
  case (SetNativeId now i native)
  then show ?thesis
    by (auto simp: apply_call_def set_native_session_id_def row_ok_defs intro!: update_session_ok [OF assms])
next
  case (Touch now i)
  then show ?thesis
    by (auto simp: apply_call_def touch_session_def row_ok_defs intro!: update_session_ok [OF assms])
next
  case (CountCompaction i)
  then show ?thesis
    by (auto simp: apply_call_def record_observed_compaction_def row_ok_defs intro!: update_session_ok [OF assms])
next
  case (SeeCommit i seen)
  then show ?thesis
    by (auto simp: apply_call_def record_seen_commit_def row_ok_defs intro!: update_session_ok [OF assms])
next
  case (ClearName i)
  then show ?thesis
    by (auto simp: apply_call_def clear_name_def row_ok_defs intro!: update_session_ok [OF assms])
next
  case (ClearTag i)
  then show ?thesis
    by (auto simp: apply_call_def clear_purpose_def row_ok_defs intro!: update_session_ok [OF assms])
next
  case (Present i shown pane)
  then show ?thesis
    by (auto simp: apply_call_def set_presentation_def row_ok_defs intro!: update_session_ok [OF assms])
qed (simp_all add: apply_call_def assms create_ok record_supervision_ok close_ok begin_resume_ok
      other_tables_ok [of _ db] side_tables)

lemma reachable_ok: "sessions_reachable db \<Longrightarrow> sessions_ok db"
proof (induction rule: sessions_reachable.induct)
  case (opened project)
  show ?case by (simp add: sessions_ok_def empty_sessions_def conversations_def map_filter_simps)
qed (rule apply_call_ok)

lemma read_records_readable:
  "\<forall>row\<in>set rows. row_readable row \<Longrightarrow> \<exists>rs. read_records rows = Inr rs \<and> map ss_id rs = map c_id rows"
proof (induction rows)
  case (Cons row rows)
  then obtain r rs where "read_record row = Inr r" "read_records rows = Inr rs" "map ss_id rs = map c_id rows"
    by (auto simp: row_readable_iff)
  moreover from this have "ss_id r = c_id row"
    by (auto simp: read_record_def Let_def and_then_Inr)
  ultimately show ?case by simp
qed simp

lemma read_record_fields:
  "read_record row = Inr r \<Longrightarrow> ss_id r = c_id row \<and> ss_project_id r = c_project_id row \<and>
     ss_native r = c_native row \<and> lifecycle_from_str (c_lifecycle row) = Some (ss_lifecycle r) \<and>
     ss_created_at r = c_created_at row \<and> ss_harness r = c_harness row"
  by (auto simp: read_record_def Let_def and_then_Inr decode_word_def split: option.splits)

section \<open>Only a resume makes a finished session live\<close>

definition recorded_state :: "rstr \<Rightarrow> session_db \<Rightarrow> lifecycle option" where
  "recorded_state i db =
     (case session_row_of i db of None \<Rightarrow> None | Some row \<Rightarrow> lifecycle_from_str (c_lifecycle row))"

lemma state_of_update:
  assumes "update_rows action i f db = Inr (n, db')" and "\<And>row. c_id (f row) = c_id row"
  shows "session_row_of j db' = (if j = i then map_option f (session_row_of j db) else session_row_of j db)"
  using row_of_update [OF assms(2)] by (simp add: update_rows_Inr(1) [OF assms(1)])

lemma state_kept:
  assumes "update_rows action i f db = Inr (n, db')" and "\<And>row. c_id (f row) = c_id row"
    and "\<And>row. c_lifecycle (f row) = c_lifecycle row"
  shows "recorded_state j db' = recorded_state j db"
  using state_of_update [OF assms(1,2), of j] assms(3)
  by (simp add: recorded_state_def option.case_distrib split: option.split)

lemma update_session_keeps:
  assumes "\<And>row. c_id (f row) = c_id row" and "\<And>row. c_lifecycle (f row) = c_lifecycle row"
  shows "recorded_state j (snd (update_session action i f db)) = recorded_state j db"
  by (cases rule: update_session_cases [of action i f db]) (auto dest: state_kept [OF _ assms])

lemma read_lifecycle_state: "read_lifecycle_locked i db = Inr l \<longleftrightarrow> recorded_state i db = Some l"
  by (auto simp: read_lifecycle_locked_def recorded_state_def split: option.splits)

lemma forbidden_keeps_finished:
  assumes "write_lifecycle_locked i to activity Forbidden action now db = Inr db'"
    and "recorded_state j db = Some before" and "\<not> is_live before" and "recorded_state j db' = Some after"
  shows "\<not> is_live after"
  using assms(1)
proof (cases rule: write_lifecycle_cases)
  case declined
  then show ?thesis using assms by simp
next
  case (written l n f)
  have row: "session_row_of j db' = (if j = i then map_option f (session_row_of j db) else session_row_of j db)"
    by (rule state_of_update [OF written(3)]) (simp add: written(4))
  show ?thesis
  proof (cases "j = i")
    case True
    then have "after = to"
      using row assms(2,4) by (auto simp: recorded_state_def written(4) lifecycle_words.reads_back split: option.splits)
    then show ?thesis using written(1,2) assms(2,3) True by (auto simp: read_lifecycle_state)
  next
    case False
    then show ?thesis using row assms(2-4) by (simp add: recorded_state_def)
  qed
qed

lemma side_tables_keep: "sd_sessions db' = sd_sessions db \<Longrightarrow> recorded_state j db' = recorded_state j db"
  by (simp add: recorded_state_def session_row_of_def)

lemma create_keeps:
  assumes "recorded_state j db = Some before"
  shows "recorded_state j (snd (create_session mc now i new db)) = Some before"
proof -
  consider "snd (create_session mc now i new db) = db"
    | row where "sd_sessions (snd (create_session mc now i new db)) = sd_sessions db @ [row]"
  proof (cases rule: create_cases [of mc now i new db])
    case (inserted db')
    from inserted(2) have "sd_sessions db' = sd_sessions db @ [insert_row (new_record (sd_project db) i now new) (of_this_process mc)]"
      by (auto simp: insert_session_def Let_def split: if_splits)
    then show ?thesis using that(2) inserted(1) by simp
  qed (rule that(1))
  then show ?thesis
  proof cases
    case 2
    have "List.find P (rows @ [row]) = (case List.find P rows of Some x \<Rightarrow> Some x | None \<Rightarrow> List.find P [row])" for P rows
      by (induction rows) auto
    then show ?thesis using assms 2 by (auto simp: recorded_state_def session_row_of_def split: option.splits)
  qed (simp add: assms)
qed

lemma locked_keeps_finished:
  assumes "recorded_state j db = Some before" and "\<not> is_live before"
    and "recorded_state j (snd (locked_then_fetch i body db)) = Some after"
    and "\<And>db'. body db = Inr db' \<Longrightarrow> recorded_state j db' = Some after \<Longrightarrow> \<not> is_live after"
  shows "\<not> is_live after"
  by (cases rule: locked_cases [of i body db]) (use assms in auto)

lemma record_supervision_keeps_finished:
  assumes "recorded_state j db = Some before" and "\<not> is_live before"
    and "recorded_state j (snd (record_supervision now i supervision reason to db)) = Some after"
  shows "\<not> is_live after"
proof -
  let ?f = "\<lambda>row. row\<lparr>c_supervision := Some (supervision_str supervision), c_supervision_reason := Some reason\<rparr>"
  show ?thesis
    using assms(3) unfolding record_supervision_def
  proof (cases rule: locked_cases [of i "\<lambda>db. and_then (update_rows (u ''record a supervision conclusion'') i ?f db)
      (\<lambda>(changed, db'). if changed = 0 then Inl (NoSession i)
         else (case to of
             Some to \<Rightarrow> write_lifecycle_locked i to Active Forbidden (u ''record a supervision conclusion'') now db'
           | None \<Rightarrow> Inr db'))" db])
    case failed
    then show ?thesis using assms(1-3) by (simp add: record_supervision_def)
  next
    case (committed db')
    then obtain n d where d: "update_rows (u ''record a supervision conclusion'') i ?f db = Inr (n, d)"
        and rest: "d = db' \<or> (\<exists>to. write_lifecycle_locked i to Active Forbidden (u ''record a supervision conclusion'') now d = Inr db')"
      by (auto simp: and_then_Inr split: if_splits option.splits)
    have "recorded_state j d = Some before"
      using state_kept [OF d] assms(1) by simp
    moreover have "recorded_state j db' = Some after"
      using committed(1) assms(3) by (simp add: record_supervision_def)
    ultimately show ?thesis
      using rest assms(2) forbidden_keeps_finished by auto
  qed
qed

lemma guard_error_Inr: "guard_error g = Inr x \<longleftrightarrow> g = Inr ()"
  by (cases g) (simp_all add: guard_error_def)

lemma begin_resume_effect:
  assumes "recorded_state i db = Some before" and "\<not> is_live before"
    and "recorded_state i (snd (begin_resume mc session_dir now r db)) = Some after" and "is_live after"
  shows "rs_id r = i \<and> (\<exists>row. session_row_of i db = Some row \<and> before = Stopped \<and> c_native row \<noteq> None \<and>
    c_supervision row \<noteq> Some (supervision_str Quarantined))"
proof -
  let ?body = "\<lambda>db. and_then (fetch_session (rs_id r) db) (\<lambda>rec.
     if disposition_of rec \<noteq> DispResumable then Inl (NotResumable (rs_id r) (disposition_text (disposition_of rec)))
     else and_then (supervision_of (rs_id r) db) (\<lambda>recorded.
          and_then (guard_error (guard_start mc session_dir rec recorded (of_this_process mc))) (\<lambda>_.
          and_then (write_identity_locked (rs_id r) (of_this_process mc) (u ''record a session resume'') db) (\<lambda>db'.
            write_lifecycle_locked (rs_id r) Running Active Authorized (u ''record a session resume'') now db'))))"
  have def': "begin_resume mc session_dir now r = locked_then_fetch (rs_id r) ?body"
    unfolding begin_resume_def Let_def by (rule refl)
  show ?thesis
  proof (cases rule: locked_cases [of "rs_id r" ?body db])
    case failed
    then show ?thesis using assms by (simp add: def')
  next
    case (committed db')
    from committed(2) obtain rec recorded d where
      fetched: "fetch_session (rs_id r) db = Inr rec" "disposition_of rec = DispResumable"
        "supervision_of (rs_id r) db = Inr recorded"
        "guard_start mc session_dir rec recorded (of_this_process mc) = Inr ()"
      and d: "write_identity_locked (rs_id r) (of_this_process mc) (u ''record a session resume'') db = Inr d"
        "write_lifecycle_locked (rs_id r) Running Active Authorized (u ''record a session resume'') now d = Inr db'"
      by (auto simp: and_then_Inr guard_error_Inr split: if_splits)
    show ?thesis
    proof (cases "rs_id r = i")
      case True
      obtain row where row: "session_row_of i db = Some row" "read_record row = Inr rec"
        using fetched(1) True
        by (auto simp: fetch_session_def get_session_def and_then_Inr split: option.splits)
      have "ss_lifecycle rec = Stopped" "ss_native rec \<noteq> None"
        using fetched(2) by (auto simp: disposition_of_def split: lifecycle.splits if_splits)
      moreover have "lifecycle_from_str (c_lifecycle row) = Some (ss_lifecycle rec)" "c_native row = ss_native rec"
        using row(2) by (auto simp: read_record_def Let_def and_then_Inr decode_word_def split: option.splits)
      moreover have "c_supervision row \<noteq> Some (supervision_str Quarantined)"
        using fetched(3,4) row(1) True
        by (auto simp: supervision_of_def and_then_Inr optional_def guard_start_def supervision_words.reads_back
            split: if_splits)
      ultimately show ?thesis
        using True row(1) assms(1) by (auto simp: recorded_state_def)
    next
      case False
      have "recorded_state i d = recorded_state i db"
        using d(1) by (auto simp: write_identity_locked_def and_then_Inr split: if_splits intro!: state_kept)
      moreover have "recorded_state i db' = recorded_state i d"
        using d(2) False
      proof (cases rule: write_lifecycle_cases)
        case (written l n f)
        then show ?thesis
          using state_of_update [OF written(3), of i] False by (simp add: recorded_state_def)
      qed simp
      ultimately show ?thesis using committed(1) assms by (simp add: def')
    qed
  qed
qed

lemmas row_updates = set_native_session_id_def touch_session_def record_observed_compaction_def
  record_seen_commit_def rename_session_def clear_name_def set_purpose_def clear_purpose_def set_presentation_def

lemma with_label_keeps:
  "(\<And>label. recorded_state j (snd (method label db)) = recorded_state j db) \<Longrightarrow>
     recorded_state j (snd (with_label limit text' method db)) = recorded_state j db"
  by (simp add: with_label_def split: sum.split)

definition moves_state :: "store_call \<Rightarrow> bool" where
  "moves_state c =
     (case c of SetLifecycle _ _ _ \<Rightarrow> True | RecordSupervision _ _ _ _ _ \<Rightarrow> True | Close _ _ \<Rightarrow> True
      | BeginResume _ _ _ _ \<Rightarrow> True | _ \<Rightarrow> False)"

lemma quiet_calls_keep:
  assumes "\<not> moves_state c" and "recorded_state j db = Some before"
  shows "recorded_state j (apply_call c db) = Some before"
  using assms
  by (cases c) (simp_all add: moves_state_def apply_call_def row_updates update_session_keeps with_label_keeps
      create_keeps side_tables_keep [OF side_tables(1)] side_tables_keep [OF side_tables(3)]
      side_tables_keep [OF side_tables(5)] side_tables_keep [OF side_tables(7)]
      side_tables_keep [OF side_tables(9)] side_tables_keep [OF side_tables(11)])

lemma set_lifecycle_keeps_finished:
  assumes "recorded_state j db = Some before" and "\<not> is_live before"
    and "recorded_state j (snd (set_lifecycle now i to db)) = Some after"
  shows "\<not> is_live after"
  using assms(3) unfolding set_lifecycle_def
  by (rule locked_keeps_finished [OF assms(1,2)]) (rule forbidden_keeps_finished [OF _ assms(1,2)])

lemma close_keeps_finished:
  assumes "recorded_state j db = Some before" and "\<not> is_live before"
    and "recorded_state j (snd (close_session now i db)) = Some after"
  shows "\<not> is_live after"
  using assms(3) unfolding close_session_def
  by (rule locked_keeps_finished [OF assms(1,2)])
    (auto simp: and_then_Inr split: if_splits dest: forbidden_keeps_finished [OF _ assms(1,2)])

text \<open>A closed example: one stopped session of a harness, on a machine whose kernel says nothing.\<close>

definition example_row :: session_row where
  "example_row = insert_row (example_session\<lparr>ss_project_id := u ''p'', ss_lifecycle := Stopped\<rparr>) None"

definition example_db :: session_db where
  "example_db = (empty_sessions (u ''p''))\<lparr>sd_sessions := [example_row]\<rparr>"

definition quiet_machine :: machine where
  "quiet_machine = \<lparr>mc_pid = 1, mc_host_name = None, mc_observe = (\<lambda>_. None), mc_now_ms = None\<rparr>"

definition example_resume :: store_call where
  "example_resume = BeginResume quiet_machine (\<lambda>i. i) 9
     \<lparr>rs_id = u ''a1'', rs_harness = u ''codex'', rs_native = u ''n''\<rparr>"

lemma example_row_fields:
  "c_id example_row = u ''a1''" "c_lifecycle example_row = lifecycle_str Stopped"
  "c_native example_row = Some (u ''n'')" "c_harness example_row = u ''codex''" "c_supervision example_row = None"
  by (simp_all add: example_row_def insert_row_def example_session_def)

lemma example_row_checks: "row_checks example_row"
  by (simp add: example_row_def insert_row_def example_session_def row_checks_iff word_codecs
      encode_assigned_model_def sql_length_def)

lemma example_reads:
  "read_record example_row = Inr (example_session\<lparr>ss_project_id := u ''p'', ss_lifecycle := Stopped\<rparr>)"
  unfolding example_row_def by (rule recorded_reads) (simp_all add: example_session_def)

lemmas example_eval = apply_call_def locked_then_fetch_def transaction_def fetch_session_def get_session_def
  session_row_of_def example_db_def empty_sessions_def example_row_fields example_reads update_rows_def Let_def
  write_lifecycle_locked_def read_lifecycle_locked_def word_codecs conversations_def map_filter_simps is_live_def

lemmas example_row_eval = example_row_def insert_row_def example_session_def row_checks_iff word_codecs
  encode_assigned_model_def sql_length_def

lemma example_resumes: "recorded_state (u ''a1'') (apply_call example_resume example_db) = Some Running"
  by (simp add: example_eval example_resume_def begin_resume_def disposition_of_def supervision_of_def
      guard_start_def guard_error_def example_session_def write_identity_locked_def of_this_process_def
      identity_of_def quiet_machine_def recorded_state_def)
    (simp add: example_row_eval)

definition closed_db :: session_db where
  "closed_db = example_db\<lparr>sd_sessions := [example_row\<lparr>c_lifecycle := lifecycle_str Closed\<rparr>]\<rparr>"

lemma example_closes: "apply_call (Close 7 (u ''a1'')) example_db = closed_db"
  by (simp add: example_eval close_session_def closed_db_def) (simp add: example_row_eval)

lemma example_stops_again:
  "apply_call (SetLifecycle 9 (u ''a1'') Stopped) closed_db =
     example_db\<lparr>sd_sessions := [example_row\<lparr>c_last_activity_at := 9\<rparr>]\<rparr>"
  by (simp add: example_eval set_lifecycle_def closed_db_def) (simp add: example_row_eval)

section \<open>Properties\<close>

text \<open>
  C17. Whatever is called in whatever order, every row of the table can be read back: no session is ever stored
  under a word, a model, a profile or a label that its reader refuses, listing the sessions never fails and
  lists each of them, and every session belongs to the project of the store.
\<close>

theorem every_session_can_be_read:
  assumes "sessions_reachable db"
  shows "(\<exists>rs. list_sessions db = Inr rs \<and> mset (map ss_id rs) = mset (map c_id (sd_sessions db))) \<and>
    list_all (\<lambda>row. (\<exists>r. get_session (c_id row) db = Inr (Some r) \<and> ss_id r = c_id row \<and>
        ss_project_id r = sd_project db) \<and> (\<exists>v. supervision_of (c_id row) db = Inr v)) (sd_sessions db)"
proof
  have ok: "sessions_ok db" by (rule reachable_ok [OF assms])
  then have "\<forall>row\<in>set (sort_key (\<lambda>row. (- c_last_activity_at row, c_id row)) (sd_sessions db)). row_readable row"
    by (simp add: sessions_ok_def row_ok_def)
  from read_records_readable [OF this] obtain rs where "list_sessions db = Inr rs"
      "map ss_id rs = map c_id (sort_key (\<lambda>row. (- c_last_activity_at row, c_id row)) (sd_sessions db))"
    by (auto simp: list_sessions_def)
  then show "\<exists>rs. list_sessions db = Inr rs \<and> mset (map ss_id rs) = mset (map c_id (sd_sessions db))"
    by (intro exI [of _ rs]) (simp only: mset_map mset_sort simp_thms)
  show "list_all (\<lambda>row. (\<exists>r. get_session (c_id row) db = Inr (Some r) \<and> ss_id r = c_id row \<and>
      ss_project_id r = sd_project db) \<and> (\<exists>v. supervision_of (c_id row) db = Inr v)) (sd_sessions db)"
    unfolding list_all_iff
  proof
    fix row
    assume "row \<in> set (sd_sessions db)"
    then have "session_row_of (c_id row) db \<noteq> None"
      by (auto simp: session_row_of_def find_None_iff)
    then obtain found where found: "session_row_of (c_id row) db = Some found" by auto
    then have "row_ok (sd_project db) found" and i: "c_id found = c_id row"
      using ok session_row_of_id [OF found] by (auto simp: sessions_ok_def)
    then obtain r where "read_record found = Inr r" "c_project_id found = sd_project db"
        "reads supervision_from_str (c_supervision found)"
      by (auto simp: row_ok_def row_readable_iff)
    then show "(\<exists>r. get_session (c_id row) db = Inr (Some r) \<and> ss_id r = c_id row \<and>
        ss_project_id r = sd_project db) \<and> (\<exists>v. supervision_of (c_id row) db = Inr v)"
      using found i optional_reads_iff [of "c_id row" "u ''supervision''" "c_supervision found" supervision_from_str]
      by (auto simp: get_session_def supervision_of_def read_record_fields)
  qed
qed

theorem every_session_can_be_read_witness:
  "\<exists>rs. list_sessions (apply_call (Create quiet_machine 5 (u ''a1'') (embedded_session (u ''codex''))) (empty_sessions (u ''p''))) = Inr rs"
  using every_session_can_be_read [OF called [OF opened [of "u ''p''"]],
      of "Create quiet_machine 5 (u ''a1'') (embedded_session (u ''codex''))"] by blast

text \<open>
  C18. A finished session is made live again by a resume of that session and by nothing else, from a record that
  is stopped, names a conversation of its harness and is not quarantined.
\<close>

theorem only_a_resume_revives:
  assumes "recorded_state i db = Some before" and "\<not> is_live before"
    and "recorded_state i (apply_call c db) = Some after" and "is_live after"
  shows "\<exists>mc session_dir now r row. c = BeginResume mc session_dir now r \<and> rs_id r = i \<and>
    session_row_of i db = Some row \<and> before = Stopped \<and> c_native row \<noteq> None \<and>
    c_supervision row \<noteq> Some (supervision_str Quarantined)"
proof (cases "moves_state c")
  case True
  then show ?thesis
    using assms set_lifecycle_keeps_finished [OF assms(1,2)] record_supervision_keeps_finished [OF assms(1,2)]
      close_keeps_finished [OF assms(1,2)] begin_resume_effect [OF assms(1,2)]
    by (cases c) (auto simp: moves_state_def apply_call_def)
next
  case False
  then show ?thesis using quiet_calls_keep [OF False assms(1)] assms by simp
qed

theorem only_a_resume_revives_witness:
  "\<exists>row. session_row_of (u ''a1'') example_db = Some row \<and> c_native row \<noteq> None \<and>
     c_supervision row \<noteq> Some (supervision_str Quarantined)"
proof -
  have "recorded_state (u ''a1'') example_db = Some Stopped"
    by (simp add: example_eval recorded_state_def)
  from only_a_resume_revives [OF this _ example_resumes] show ?thesis
    by (auto simp: is_live_def)
qed

text \<open>
  Being finished is kept, but not how: a record the user closed is stopped again by a state that arrives
  late, though a finished session is to take no further state, and then it can be resumed.
\<close>

theorem a_closed_record_comes_back:
  "let i = u ''a1''; shut = apply_call (Close 7 i) example_db; back = apply_call (SetLifecycle 9 i Stopped) shut
   in recorded_state i shut = Some Closed \<and> \<not> may_apply Closed Stopped \<and>
      open_for_resume quiet_machine (\<lambda>i. i) i shut = Inl (NotResumable i (u ''closed'')) \<and>
      recorded_state i back = Some Stopped \<and>
      open_for_resume quiet_machine (\<lambda>i. i) i back =
        Inr \<lparr>rs_id = i, rs_harness = u ''codex'', rs_native = u ''n''\<rparr>"
proof -
  have "example_row\<lparr>c_lifecycle := lifecycle_str Closed\<rparr> =
      insert_row (example_session\<lparr>ss_project_id := u ''p'', ss_lifecycle := Closed\<rparr>) None"
    "example_row\<lparr>c_last_activity_at := 9\<rparr> =
      insert_row (example_session\<lparr>ss_project_id := u ''p'', ss_lifecycle := Stopped, ss_last_activity_at := 9\<rparr>) None"
    by (simp_all add: example_row_def insert_row_def example_session_def)
  then have reads: "read_record (example_row\<lparr>c_lifecycle := lifecycle_str Closed\<rparr>) =
      Inr (example_session\<lparr>ss_project_id := u ''p'', ss_lifecycle := Closed\<rparr>)"
    "read_record (example_row\<lparr>c_last_activity_at := 9\<rparr>) =
      Inr (example_session\<lparr>ss_project_id := u ''p'', ss_lifecycle := Stopped, ss_last_activity_at := 9\<rparr>)"
    by (simp_all add: recorded_reads example_session_def)
  show ?thesis
    unfolding Let_def example_closes example_stops_again
    by (simp add: recorded_state_def session_row_of_def closed_db_def example_row_fields lifecycle_words.reads_back
        may_apply_def is_live_def open_for_resume_def fetch_session_def get_session_def reads example_db_def
        empty_sessions_def example_session_def supervision_of_def guard_start_def guard_error_def disposition_of_def
        disposition_text_def)
qed

end
