(* ===== verification/Supervision.thy ===== *)
theory Supervision
  imports Sessions
begin

text \<open>
  What one pass of supervision does to the table: \<open>reconcile\<close> reads the live sessions once and writes its
  conclusions one transaction at a time, and that is the map over the rows which \<open>concluded_row\<close> states.
\<close>

section \<open>The pass as a map\<close>

definition conclusion_row ::
    "int \<Rightarrow> supervision \<Rightarrow> rstr \<Rightarrow> lifecycle option \<Rightarrow> session_row \<Rightarrow> session_row" where
  "conclusion_row now supervision reason state row =
     (let row = row\<lparr>c_supervision := Some (supervision_str supervision), c_supervision_reason := Some reason\<rparr>
      in (case state of None \<Rightarrow> row
          | Some to \<Rightarrow> row\<lparr>c_lifecycle := lifecycle_str to, c_last_activity_at := now\<rparr>))"

definition concluded_row ::
    "machine \<Rightarrow> process_identity option \<Rightarrow> int \<Rightarrow> (rstr \<Rightarrow> int) \<Rightarrow> rstr \<Rightarrow> session_row \<Rightarrow> session_row" where
  "concluded_row mc this now clock this_host row =
     (case read_record row of
        Inl _ \<Rightarrow> row
      | Inr r \<Rightarrow>
          if is_live (ss_lifecycle r)
          then (case conclude mc this now this_host r (row_identity row) of
                  None \<Rightarrow> row
                | Some (supervision, reason, state, _) \<Rightarrow>
                    conclusion_row (clock (c_id row)) supervision reason state row)
          else row)"

section \<open>The schema's checks hold of every row\<close>

definition checks_ok :: "session_db \<Rightarrow> bool" where
  "checks_ok db \<longleftrightarrow> (\<forall>row\<in>set (sd_sessions db). row_checks row)"

lemma update_checks: "update_rows action i f db = Inr (n, db') \<Longrightarrow> checks_ok db \<Longrightarrow> checks_ok db'"
  using update_rows_Inr [of action i f db n db'] by (auto simp: checks_ok_def)

lemma update_session_checks: "checks_ok db \<Longrightarrow> checks_ok (snd (update_session action i f db))"
  by (cases rule: update_session_cases [of action i f db]) (auto dest: update_checks)

lemma write_lifecycle_checks:
  "write_lifecycle_locked i to activity revival action now db = Inr db' \<Longrightarrow> checks_ok db \<Longrightarrow> checks_ok db'"
  by (erule write_lifecycle_cases) (auto dest: update_checks)

lemma locked_checks:
  "checks_ok db \<Longrightarrow> (\<And>db'. body db = Inr db' \<Longrightarrow> checks_ok db') \<Longrightarrow> checks_ok (snd (locked_then_fetch i body db))"
  by (cases rule: locked_cases [of i body db]) simp_all

lemma locked_call_checks:
  assumes "checks_ok db"
  shows "checks_ok (snd (set_lifecycle now i to db))" "checks_ok (snd (close_session now i db))"
    "checks_ok (snd (record_supervision now i supervision reason state db))"
    "checks_ok (snd (begin_resume mc session_dir now r db))"
  unfolding set_lifecycle_def close_session_def record_supervision_def begin_resume_def Let_def
  by (rule locked_checks [OF assms],
      use assms in \<open>auto simp: and_then_Inr write_identity_locked_def split: if_splits option.splits
        intro: write_lifecycle_checks update_checks\<close>)+

lemma with_label_checks:
  "checks_ok db \<Longrightarrow> (\<And>label. checks_ok (snd (method label db))) \<Longrightarrow> checks_ok (snd (with_label limit text' method db))"
  by (simp add: with_label_def split: sum.split)

lemma create_checks: "checks_ok db \<Longrightarrow> checks_ok (snd (create_session mc now i new db))"
proof (cases rule: create_cases [of mc now i new db])
  case (inserted db')
  assume ok: "checks_ok db"
  from inserted(2) ok have "checks_ok db'"
    by (auto simp: insert_session_def Let_def checks_ok_def split: if_splits)
  then show ?thesis by (simp add: inserted(1))
qed simp

lemma apply_call_checks:
  assumes "checks_ok db"
  shows "checks_ok (apply_call c db)"
proof -
  have side: "checks_ok d \<longleftrightarrow> checks_ok db" if "sd_sessions d = sd_sessions db" for d
    using that by (simp add: checks_ok_def)
  show ?thesis
    by (cases c) (simp_all add: apply_call_def assms locked_call_checks create_checks row_updates
        update_session_checks with_label_checks side side_tables)
qed

lemma reachable_checks: "sessions_reachable db \<Longrightarrow> checks_ok db"
proof (induction rule: sessions_reachable.induct)
  case (opened project)
  show ?case by (simp add: checks_ok_def empty_sessions_def)
qed (rule apply_call_checks)

section \<open>One conclusion\<close>

lemma conversations_update:
  assumes "\<And>row. c_harness (f row) = c_harness row" and "\<And>row. c_native (f row) = c_native row"
  shows "conversations (map (\<lambda>row. if c_id row = i then f row else row) rows) = conversations rows"
  unfolding conversations_def by (induction rows) (simp_all add: map_filter_simps assms split: option.split)

lemma update_succeeds:
  assumes "sessions_ok db" and "\<And>row. c_harness (f row) = c_harness row" and "\<And>row. c_native (f row) = c_native row"
    and "\<And>row. row \<in> set (sd_sessions db) \<Longrightarrow> c_id row = i \<Longrightarrow> row_checks (f row)"
  shows "update_rows action i f db =
    Inr (length (filter (\<lambda>row. c_id row = i) (sd_sessions db)),
      db\<lparr>sd_sessions := map (\<lambda>row. if c_id row = i then f row else row) (sd_sessions db)\<rparr>)"
  using assms(1,4) by (simp add: update_rows_def Let_def conversations_update [OF assms(2,3)] sessions_ok_def list_all_iff)

lemma known_session:
  assumes "sessions_ok db" and "session_row_of i db = Some row"
  shows "\<exists>l. read_lifecycle_locked i db = Inr l" and "\<exists>r. fetch_session i db = Inr r"
proof -
  have "row_readable row"
    using assms session_row_of_id [OF assms(2)] by (auto simp: sessions_ok_def row_ok_def)
  then show "\<exists>l. read_lifecycle_locked i db = Inr l"
    using assms(2) by (auto simp: read_lifecycle_locked_def row_readable_def)
  show "\<exists>r. fetch_session i db = Inr r"
    using \<open>row_readable row\<close> assms(2) by (auto simp: fetch_session_def get_session_def row_readable_iff)
qed

definition conclusion_fits :: "supervision \<Rightarrow> rstr \<Rightarrow> lifecycle option \<Rightarrow> bool" where
  "conclusion_fits supervision reason state \<longleftrightarrow>
     reason \<noteq> [] \<and> (case state of None \<Rightarrow> True | Some to \<Rightarrow> \<not> is_live to)"

lemma conclusion_checks:
  "row_checks row \<Longrightarrow> reason \<noteq> [] \<Longrightarrow> row_checks (conclusion_row now supervision reason state row)"
  by (cases state) (simp_all add: conclusion_row_def Let_def row_checks_iff word_codecs)

lemma conclude_fits:
  "conclude mc this now this_host r identity = Some (supervision, reason, state, which) \<Longrightarrow>
     conclusion_fits supervision reason state"
  by (auto simp: conclude_def conclusion_fits_def is_live_def split: option.splits process_verdict.splits if_splits)

lemma record_supervision_effect:
  assumes "sessions_ok db" and "checks_ok db" and "session_row_of i db = Some row"
    and "conclusion_fits supervision reason state"
  shows "\<exists>r. record_supervision now i supervision reason state db =
    (Inr r, db\<lparr>sd_sessions := map (\<lambda>row. if c_id row = i then conclusion_row now supervision reason state row else row)
      (sd_sessions db)\<rparr>)"
proof -
  let ?f = "\<lambda>row. row\<lparr>c_supervision := Some (supervision_str supervision), c_supervision_reason := Some reason\<rparr>"
  let ?after = "\<lambda>f. db\<lparr>sd_sessions := map (\<lambda>row. if c_id row = i then f row else row) (sd_sessions db)\<rparr>"
  let ?g = "conclusion_row now supervision reason state"
  have checks: "row_checks (?f row)" "row_checks (?g row)" if "row \<in> set (sd_sessions db)" for row
  proof -
    have "row_checks row" "reason \<noteq> []"
      using that assms(2,4) by (auto simp: checks_ok_def conclusion_fits_def)
    from conclusion_checks [OF this] show "row_checks (?g row)" .
    from conclusion_checks [OF \<open>row_checks row\<close> \<open>reason \<noteq> []\<close>, where state = None]
    show "row_checks (?f row)" by (simp add: conclusion_row_def Let_def)
  qed
  have found: "filter (\<lambda>row. c_id row = i) (sd_sessions db) \<noteq> []"
    using session_row_of_id [OF assms(3)] by (auto simp: filter_empty_conv)
  have first: "update_rows (u ''record a supervision conclusion'') i ?f db =
      Inr (length (filter (\<lambda>row. c_id row = i) (sd_sessions db)), ?after ?f)"
    by (rule update_succeeds [OF assms(1)]) (simp_all add: checks)
  have ok: "sessions_ok (?after ?f)"
    by (rule update_ok [OF first assms(1)]) (simp_all add: row_ok_defs)
  have second: "write_lifecycle_locked i to Active Forbidden (u ''record a supervision conclusion'') now (?after ?f) =
      Inr (?after ?g)" if "state = Some to" for to
  proof -
    let ?h = "\<lambda>row. row\<lparr>c_lifecycle := lifecycle_str to, c_last_activity_at := now\<rparr>"
    have "\<exists>l. read_lifecycle_locked i (?after ?f) = Inr l"
      using known_session [OF ok, of i "?f row"] row_of_update [where i = i and j = i and f = ?f and db = db] assms(3)
      by simp
    moreover have "update_rows (u ''record a supervision conclusion'') i ?h (?after ?f) = Inr
        (length (filter (\<lambda>row. c_id row = i) (sd_sessions (?after ?f))),
         (?after ?f)\<lparr>sd_sessions := map (\<lambda>row. if c_id row = i then ?h row else row) (sd_sessions (?after ?f))\<rparr>)"
      by (rule update_succeeds [OF ok]) (use checks that in \<open>auto simp: conclusion_row_def Let_def split: if_splits\<close>)
    moreover have "(?after ?f)\<lparr>sd_sessions := map (\<lambda>row. if c_id row = i then ?h row else row) (sd_sessions (?after ?f))\<rparr> =
        ?after ?g"
      using that by (auto simp: conclusion_row_def Let_def comp_def)
    ultimately show ?thesis
      using assms(4) that by (auto simp: write_lifecycle_locked_def conclusion_fits_def)
  qed
  have ok': "sessions_ok (?after ?g)"
  proof (cases state)
    case None
    then show ?thesis using ok by (simp add: conclusion_row_def Let_def cong: if_cong)
  next
    case (Some to)
    then show ?thesis using write_lifecycle_ok [OF second [OF Some] ok] by simp
  qed
  have "\<exists>r. fetch_session i (?after ?g) = Inr r"
  proof -
    have "session_row_of i (?after ?g) = Some (?g row)"
      using row_of_update [where i = i and j = i and f = ?g and db = db] assms(3)
      by (simp add: conclusion_row_def Let_def split: option.split)
    then show ?thesis using known_session [OF ok'] by blast
  qed
  moreover have "(\<lambda>db. and_then (update_rows (u ''record a supervision conclusion'') i ?f db)
       (\<lambda>(changed, db'). if changed = 0 then Inl (NoSession i)
         else (case state of
             Some to \<Rightarrow> write_lifecycle_locked i to Active Forbidden (u ''record a supervision conclusion'') now db'
           | None \<Rightarrow> Inr db'))) db = Inr (?after ?g)"
    unfolding first using found second
    by (cases state) (simp_all add: conclusion_row_def Let_def)
  ultimately show ?thesis
    unfolding record_supervision_def locked_then_fetch_def transaction_def by auto
qed

section \<open>The whole pass\<close>

definition concluded_among ::
    "machine \<Rightarrow> process_identity option \<Rightarrow> int \<Rightarrow> (rstr \<Rightarrow> int) \<Rightarrow> rstr \<Rightarrow> rstr set \<Rightarrow> session_db \<Rightarrow> session_db" where
  "concluded_among mc this now clock this_host ids db =
     db\<lparr>sd_sessions := map (\<lambda>row. if c_id row \<in> ids then concluded_row mc this now clock this_host row else row)
       (sd_sessions db)\<rparr>"

lemma conclusion_row_id [simp]: "c_id (conclusion_row now supervision reason state row) = c_id row"
  by (simp add: conclusion_row_def Let_def split: option.split)

lemma concluded_row_id [simp]: "c_id (concluded_row mc this now clock this_host row) = c_id row"
  by (simp add: concluded_row_def split: sum.split option.split)

lemma supervision_of_row:
  "sessions_ok db \<Longrightarrow> session_row_of i db = Some row \<Longrightarrow>
     \<exists>v. supervision_of i db = Inr v \<and> sv_identity v = row_identity row"
  using session_row_of_id [of i db row] optional_reads_iff [of i "u ''supervision''" "c_supervision row" supervision_from_str]
  by (auto simp: sessions_ok_def row_ok_def supervision_of_def)

lemma one_conclusion:
  assumes ok: "sessions_ok db" "checks_ok db" and row: "session_row_of (ss_id r) db = Some row"
    and r: "read_record row = Inr r" "is_live (ss_lifecycle r)"
    and conclusion: "conclude mc this now this_host r (row_identity row) = Some (supervision, reason, state, which)"
  shows "\<exists>r'. record_supervision (clock (ss_id r)) (ss_id r) supervision reason state db =
    (Inr r', concluded_among mc this now clock this_host {ss_id r} db)"
proof -
  have "concluded_row mc this now clock this_host row' = conclusion_row (clock (ss_id r)) supervision reason state row'"
    if "row' \<in> set (sd_sessions db)" "c_id row' = ss_id r" for row'
  proof -
    have "row' = row"
      using that session_row_of_id [OF row] ok(1) by (auto simp: sessions_ok_def distinct_map inj_on_def)
    then show ?thesis using that(2) by (simp add: concluded_row_def r conclusion)
  qed
  then have "map (\<lambda>row. if c_id row = ss_id r then conclusion_row (clock (ss_id r)) supervision reason state row else row) (sd_sessions db) =
      map (\<lambda>row. if c_id row \<in> {ss_id r} then concluded_row mc this now clock this_host row else row) (sd_sessions db)"
    by simp
  then show ?thesis
    using record_supervision_effect [OF ok row conclude_fits [OF conclusion], of "clock (ss_id r)"]
    by (simp only: concluded_among_def)
qed

lemma concluded_among_row:
  "session_row_of j (concluded_among mc this now clock this_host ids db) =
     map_option (\<lambda>row. if j \<in> ids then concluded_row mc this now clock this_host row else row) (session_row_of j db)"
proof -
  have "List.find (\<lambda>row. c_id row = j) (map (\<lambda>row. if c_id row \<in> ids then concluded_row mc this now clock this_host row else row) rows) =
      map_option (\<lambda>row. if j \<in> ids then concluded_row mc this now clock this_host row else row) (List.find (\<lambda>row. c_id row = j) rows)" for rows
    by (induction rows) auto
  then show ?thesis by (simp add: concluded_among_def session_row_of_def)
qed

lemma no_conclusion:
  assumes "sessions_ok db" and "session_row_of (ss_id r) db = Some row" and "read_record row = Inr r"
    and "conclude mc this now this_host r (row_identity row) = None"
  shows "concluded_among mc this now clock this_host {ss_id r} db = db"
proof -
  have "concluded_row mc this now clock this_host row' = row'"
    if "row' \<in> set (sd_sessions db)" "c_id row' = ss_id r" for row'
  proof -
    have "row' = row"
      using that session_row_of_id [OF assms(2)] assms(1) by (auto simp: sessions_ok_def distinct_map inj_on_def)
    then show ?thesis by (simp add: concluded_row_def assms(3,4))
  qed
  then have "map (\<lambda>row. if c_id row \<in> {ss_id r} then concluded_row mc this now clock this_host row else row) (sd_sessions db) =
      sd_sessions db"
    by (simp add: map_idI)
  then show ?thesis by (simp only: concluded_among_def) simp
qed

lemma concluded_among_twice:
  "i \<notin> ids \<Longrightarrow> concluded_among mc this now clock this_host ids (concluded_among mc this now clock this_host {i} db) =
     concluded_among mc this now clock this_host (insert i ids) db"
  by (auto simp: concluded_among_def)

lemma reconcile_from_map:
  assumes "sessions_ok db" and "checks_ok db" and "distinct (map ss_id rs)"
    and "\<forall>r\<in>set rs. is_live (ss_lifecycle r) \<and>
      (\<exists>row. session_row_of (ss_id r) db = Some row \<and> read_record row = Inr r)"
  shows "\<exists>report'. reconcile_from mc session_dir this now clock this_host rs report db =
    (Inr report', concluded_among mc this now clock this_host (set (map ss_id rs)) db)"
  using assms
proof (induction rs arbitrary: report db)
  case Nil
  show ?case by (simp add: concluded_among_def)
next
  case (Cons r rs)
  obtain row where row: "session_row_of (ss_id r) db = Some row" "read_record row = Inr r" "is_live (ss_lifecycle r)"
    using Cons.prems(4) by auto
  obtain v where v: "supervision_of (ss_id r) db = Inr v" "sv_identity v = row_identity row"
    using supervision_of_row [OF Cons.prems(1) row(1)] by auto
  let ?db = "concluded_among mc this now clock this_host {ss_id r} db"
  have rest: "\<exists>report'. reconcile_from mc session_dir this now clock this_host rs report ?db =
      (Inr report', concluded_among mc this now clock this_host (set (map ss_id (r # rs))) db)"
    if "sessions_ok ?db" "checks_ok ?db" for report
  proof -
    have "\<forall>r'\<in>set rs. is_live (ss_lifecycle r') \<and>
        (\<exists>row. session_row_of (ss_id r') ?db = Some row \<and> read_record row = Inr r')"
      using Cons.prems(3,4) by (force simp: concluded_among_row)
    then show ?thesis
      using Cons.IH [OF that] Cons.prems(3) by (simp add: concluded_among_twice)
  qed
  show ?case
  proof (cases "conclude mc this now this_host r (row_identity row)")
    case None
    then show ?thesis
      using rest Cons.prems(1,2) v no_conclusion [OF Cons.prems(1) row(1,2) None] by simp
  next
    case (Some c)
    obtain supervision reason state which where c: "c = (supervision, reason, state, which)" by (cases c)
    obtain r' where r': "record_supervision (clock (ss_id r)) (ss_id r) supervision reason state db = (Inr r', ?db)"
      using one_conclusion [OF Cons.prems(1,2) row(1) row(2,3)] Some c by blast
    moreover have "sessions_ok ?db" "checks_ok ?db"
      using record_supervision_ok [OF Cons.prems(1)] locked_call_checks(3) [OF Cons.prems(2)] r' by (metis snd_conv)+
    ultimately show ?thesis
      using rest v Some c by simp
  qed
qed

lemma read_records_list: "read_records rows = Inr rs \<Longrightarrow> list_all2 (\<lambda>row r. read_record row = Inr r) rows rs"
  by (induction rows arbitrary: rs) (auto simp: and_then_Inr)

lemma read_members:
  "list_all2 (\<lambda>row r. read_record row = Inr r) rows rs \<Longrightarrow>
     r \<in> set rs \<longleftrightarrow> (\<exists>row\<in>set rows. read_record row = Inr r)"
  by (induction rows rs rule: list_all2_induct) auto

lemma discovered:
  assumes "sessions_ok db"
  obtains rs where "discover db = Inr rs" "distinct (map ss_id rs)"
    "\<And>r. r \<in> set rs \<longleftrightarrow> is_live (ss_lifecycle r) \<and> (\<exists>row\<in>set (sd_sessions db). read_record row = Inr r)"
proof -
  let ?rows = "sort_key (\<lambda>row. (- c_last_activity_at row, c_id row)) (sd_sessions db)"
  have "\<forall>row\<in>set ?rows. row_readable row"
    using assms by (simp add: sessions_ok_def row_ok_def)
  from read_records_readable [OF this] obtain rs where rs: "read_records ?rows = Inr rs" "map ss_id rs = map c_id ?rows"
    by auto
  have members: "r \<in> set rs \<longleftrightarrow> (\<exists>row\<in>set (sd_sessions db). read_record row = Inr r)" for r
    using read_members [OF read_records_list [OF rs(1)]] by simp
  have "distinct (map c_id ?rows)"
    using assms by (simp add: sessions_ok_def distinct_map)
  then have "distinct (map ss_id rs)" by (simp only: rs(2))
  moreover have "ss_project_id r = sd_project db" if "r \<in> set rs" for r
    using that assms by (auto simp: members sessions_ok_def row_ok_def dest!: read_record_fields)
  ultimately show ?thesis
    using that [of "filter (\<lambda>r. ss_project_id r = sd_project db \<and> is_live (ss_lifecycle r)) rs"] rs(1) members
    by (auto simp: discover_def list_sessions_def distinct_map_filter)
qed

lemma row_of_member: "sessions_ok db \<Longrightarrow> row \<in> set (sd_sessions db) \<Longrightarrow> session_row_of (c_id row) db = Some row"
  by (cases "session_row_of (c_id row) db")
    (auto simp: session_row_of_def sessions_ok_def distinct_map inj_on_def find_Some_iff find_None_iff)

lemma reconcile_map:
  assumes "sessions_reachable db" and "mc_host_name mc = Some this_host"
  shows "\<exists>report. reconcile mc session_dir this now clock db =
    (Inr report, db\<lparr>sd_sessions := map (concluded_row mc this now clock this_host) (sd_sessions db)\<rparr>)"
proof -
  have ok: "sessions_ok db" "checks_ok db"
    using reachable_ok reachable_checks assms(1) by auto
  obtain rs where rs: "discover db = Inr rs" "distinct (map ss_id rs)"
      "\<And>r. r \<in> set rs \<longleftrightarrow> is_live (ss_lifecycle r) \<and> (\<exists>row\<in>set (sd_sessions db). read_record row = Inr r)"
    by (rule discovered [OF ok(1)]) blast
  have "\<forall>r\<in>set rs. is_live (ss_lifecycle r) \<and> (\<exists>row. session_row_of (ss_id r) db = Some row \<and> read_record row = Inr r)"
    using row_of_member [OF ok(1)] by (auto simp: rs(3)) (metis read_record_fields)
  from reconcile_from_map [OF ok rs(2) this] obtain report where
    "reconcile_from mc session_dir this now clock this_host rs empty_report db =
      (Inr report, concluded_among mc this now clock this_host (set (map ss_id rs)) db)" by blast
  moreover have "concluded_row mc this now clock this_host row = row"
    if "row \<in> set (sd_sessions db)" "c_id row \<notin> set (map ss_id rs)" for row
  proof -
    have "\<not> is_live (ss_lifecycle r)" if "read_record row = Inr r" for r
      using \<open>row \<in> set (sd_sessions db)\<close> \<open>c_id row \<notin> set (map ss_id rs)\<close> that read_record_fields [OF that] rs(3)
      by (metis image_eqI list.set_map)
    then show ?thesis by (simp add: concluded_row_def split: sum.split)
  qed
  then have "concluded_among mc this now clock this_host (set (map ss_id rs)) db =
      db\<lparr>sd_sessions := map (concluded_row mc this now clock this_host) (sd_sessions db)\<rparr>"
    unfolding concluded_among_def by (intro arg_cong [where f = "\<lambda>rows. db\<lparr>sd_sessions := rows\<rparr>"] map_cong) auto
  ultimately show ?thesis
    using rs(1) assms(2) by (simp add: reconcile_def)
qed

text \<open>A closed example: a session that has been starting for too long on a machine that recorded no process.\<close>

definition started_db :: session_db where
  "started_db = apply_call (Create quiet_machine 5 (u ''a1'') (embedded_session (u ''codex''))) (empty_sessions (u ''p''))"

definition started_row :: session_row where
  "started_row = insert_row (new_record (u ''p'') (u ''a1'') 5 (embedded_session (u ''codex''))) None"

definition named_machine :: machine where
  "named_machine = quiet_machine\<lparr>mc_host_name := Some (u ''h'')\<rparr>"

lemma started_db_reachable: "sessions_reachable started_db"
  unfolding started_db_def by (intro sessions_reachable.intros)

lemma started_row_only: "sd_sessions started_db = [started_row]"
proof -
  have "row_checks started_row"
    by (simp add: started_row_def new_record_def embedded_session_def insert_row_def row_checks_iff word_codecs
        encode_assigned_model_def sql_length_def)
  moreover have "owning_harness (u ''codex'') = Inr ()" by code_simp
  ultimately show ?thesis
    by (simp add: started_db_def apply_call_def create_session_def Let_def insert_session_def empty_sessions_def
        embedded_session_def of_this_process_def identity_of_def quiet_machine_def started_row_def
        conversations_def map_filter_simps new_record_def insert_row_def)
qed

lemma started_row_reads: "read_record started_row = Inr (new_record (u ''p'') (u ''a1'') 5 (embedded_session (u ''codex'')))"
  unfolding started_row_def by (rule recorded_reads) (simp_all add: new_record_def embedded_session_def)

lemma started_row_identity: "row_identity started_row = None"
  by (simp add: started_row_def insert_row_def row_identity_def)

lemma started_row_state:
  "c_id started_row = u ''a1''" "c_created_at started_row = 5" "c_lifecycle started_row = lifecycle_str Starting"
  by (simp_all add: started_row_def insert_row_def new_record_def)

section \<open>Properties\<close>

text \<open>
  C19. A pass over the recorded sessions, one transaction for each conclusion, is the map over the rows that
  gives each live session the conclusion its own recorded process calls for, at the instant the clock
  shows when it is written: no session's conclusion depends on another's, none is lost, and no other row
  is touched.
\<close>

theorem reconcile_is_one_pass:
  assumes "sessions_reachable db" and "mc_host_name mc = Some this_host"
  shows "\<exists>report. reconcile mc session_dir this now clock db =
    (Inr report, db\<lparr>sd_sessions := map (concluded_row mc this now clock this_host) (sd_sessions db)\<rparr>)"
  by (rule reconcile_map [OF assms])

theorem reconcile_is_one_pass_witness:
  "\<exists>report. reconcile (quiet_machine\<lparr>mc_host_name := Some (u ''h'')\<rparr>) (\<lambda>i. i) None 1 (\<lambda>_. 2)
      (apply_call (Create quiet_machine 5 (u ''a1'') (embedded_session (u ''codex''))) (empty_sessions (u ''p''))) =
    (Inr report,
      (apply_call (Create quiet_machine 5 (u ''a1'') (embedded_session (u ''codex''))) (empty_sessions (u ''p'')))
        \<lparr>sd_sessions := map (concluded_row (quiet_machine\<lparr>mc_host_name := Some (u ''h'')\<rparr>) None 1 (\<lambda>_. 2) (u ''h''))
          (sd_sessions (apply_call (Create quiet_machine 5 (u ''a1'') (embedded_session (u ''codex''))) (empty_sessions (u ''p''))))\<rparr>)"
  by (rule reconcile_is_one_pass) (auto intro: sessions_reachable.intros)

text \<open>
  C20. Supervision ends a session only when its process is gone, or when it has been starting for longer than
  any start takes and no process was recorded for it; a session whose process runs, here or on another
  machine, whoever owns it, keeps its state.
\<close>

theorem supervision_ends_only_the_gone:
  assumes "sessions_reachable db" and "mc_host_name mc = Some this_host"
    and "session_row_of i db = Some row" and "recorded_state i db = Some before" and "is_live before"
    and "recorded_state i (snd (reconcile mc session_dir this now clock db)) = Some after" and "\<not> is_live after"
  shows "case row_identity row of
      Some identity \<Rightarrow> verify_identity mc identity this_host = Gone
    | None \<Rightarrow> before = Starting \<and> saturating_sub now (c_created_at row) > NEVER_READY_AFTER"
proof -
  have "session_row_of i (snd (reconcile mc session_dir this now clock db)) =
      Some (concluded_row mc this now clock this_host row)"
    using reconcile_map [OF assms(1,2), of session_dir this now clock] assms(3)
      concluded_among_row [of i mc this now clock this_host UNIV db]
    by (auto simp: concluded_among_def)
  then have after: "lifecycle_from_str (c_lifecycle (concluded_row mc this now clock this_host row)) = Some after"
    using assms(6) by (simp add: recorded_state_def)
  have "row_readable row"
    using reachable_ok [OF assms(1)] session_row_of_id [OF assms(3)] by (auto simp: sessions_ok_def row_ok_def)
  then obtain r where r: "read_record row = Inr r" by (auto simp: row_readable_iff)
  note fields = read_record_fields [OF r]
  have "ss_lifecycle r = before" using fields assms(3,4) by (simp add: recorded_state_def)
  then show ?thesis
    using after r assms(5,7) fields
    by (auto simp: concluded_row_def conclude_def conclusion_row_def Let_def lifecycle_words.reads_back
        split: option.splits process_verdict.splits if_splits)
qed

theorem supervision_ends_only_the_gone_witness:
  "recorded_state (u ''a1'') (snd (reconcile named_machine (\<lambda>i. i) None 1000 (\<lambda>_. 1001) started_db)) = Some Failed \<and>
     saturating_sub 1000 (c_created_at started_row) > NEVER_READY_AFTER"
proof -
  have host: "mc_host_name named_machine = Some (u ''h'')" by (simp add: named_machine_def)
  have row: "session_row_of (u ''a1'') started_db = Some started_row"
    by (simp add: session_row_of_def started_row_only started_row_state)
  have before: "recorded_state (u ''a1'') started_db = Some Starting"
    unfolding recorded_state_def row by (simp add: started_row_state lifecycle_words.reads_back)
  have after: "recorded_state (u ''a1'') (snd (reconcile named_machine (\<lambda>i. i) None 1000 (\<lambda>_. 1001) started_db)) = Some Failed"
  proof -
    have "c_lifecycle (concluded_row named_machine None 1000 (\<lambda>_. 1001) (u ''h'') started_row) = lifecycle_str Failed"
      by (simp add: concluded_row_def started_row_reads started_row_identity conclude_def new_record_def is_live_def
          saturating_sub_def NEVER_READY_AFTER_def conclusion_row_def)
    then show ?thesis
      using reconcile_map [OF started_db_reachable host, of "\<lambda>i. i" None 1000 "\<lambda>_. 1001"]
      by (auto simp: recorded_state_def session_row_of_def started_row_only started_row_state lifecycle_words.reads_back)
  qed
  show ?thesis
    using after supervision_ends_only_the_gone [OF started_db_reachable host row before _ after]
    by (simp add: is_live_def started_row_identity)
qed

end
