(* ===== verification/Leases.thy ===== *)
theory Leases
  imports Supervision
begin

text \<open>
  The tables beside the sessions' under any sequence of calls: their keys stay unique, and with that the
  interpretations of \<open>lease\<close> say what claiming a file and declaring a task nearly done do to every later
  reader, and an inbox read page by page is the inbox.
\<close>

section \<open>The calls that leave them alone\<close>

definition side :: "session_db \<Rightarrow> file_claim list \<times> progress_row list \<times> session_message list" where
  "side db = (sd_claims db, sd_progress db, sd_messages db)"

lemma update_side: "update_rows action i f db = Inr (n, db') \<Longrightarrow> side db' = side db"
  by (auto simp: update_rows_def Let_def side_def split: if_splits)

lemma update_session_side: "side (snd (update_session action i f db)) = side db"
  by (cases rule: update_session_cases [of action i f db]) (auto dest: update_side)

lemma write_lifecycle_side:
  "write_lifecycle_locked i to activity revival action now db = Inr db' \<Longrightarrow> side db' = side db"
  by (erule write_lifecycle_cases) (auto dest: update_side)

lemma write_identity_side: "write_identity_locked i identity action db = Inr db' \<Longrightarrow> side db' = side db"
  by (auto simp: write_identity_locked_def and_then_Inr split: if_splits dest: update_side)

lemma locked_side:
  "(\<And>db'. body db = Inr db' \<Longrightarrow> side db' = side db) \<Longrightarrow> side (snd (locked_then_fetch i body db)) = side db"
  by (cases rule: locked_cases [of i body db]) simp_all

lemma locked_call_side:
  "side (snd (set_lifecycle now i to db)) = side db" "side (snd (close_session now i db)) = side db"
  "side (snd (record_supervision now i supervision reason state db)) = side db"
  "side (snd (begin_resume mc session_dir now r db)) = side db"
  unfolding set_lifecycle_def close_session_def record_supervision_def begin_resume_def Let_def
  by (rule locked_side, auto simp: and_then_Inr split: if_splits option.splits
      dest!: write_lifecycle_side update_side write_identity_side)+

lemma create_side: "side (snd (create_session mc now i new db)) = side db"
proof (cases rule: create_cases [of mc now i new db])
  case (inserted db')
  from inserted(2) have "side db' = side db"
    by (auto simp: insert_session_def Let_def side_def split: if_splits)
  then show ?thesis by (simp add: inserted(1))
qed simp

lemma with_label_side:
  "(\<And>label. side (snd (method label db)) = side db) \<Longrightarrow> side (snd (with_label limit text' method db)) = side db"
  by (simp add: with_label_def split: sum.split)

section \<open>Keys stay unique\<close>

definition keyed :: "session_db \<Rightarrow> bool" where
  "keyed db \<longleftrightarrow>
     distinct (map (\<lambda>c. (fc_session_id c, fc_path c)) (sd_claims db)) \<and>
     distinct (map pg_session_id (sd_progress db)) \<and> sorted_wrt (<) (map sm_seq (sd_messages db))"

lemma keyed_side: "side db' = side db \<Longrightarrow> keyed db' \<longleftrightarrow> keyed db"
  by (simp add: side_def keyed_def)

lemma claims_keyed:
  assumes "keyed db"
  shows "keyed (snd (claim_file now i path db))" "keyed (snd (release_claim i path db))"
    "keyed (snd (release_claims_of i db))"
  using assms claims.put_distinct claims.sweep_distinct
  by (auto simp: keyed_def claim_file_def release_claim_def release_claims_of_def Let_def transaction_def
      and_then_def distinct_map_filter split: sum.splits option.splits if_splits)

lemma progress_keyed:
  assumes "keyed db"
  shows "keyed (snd (declare_task_nearly_complete now i db))" "keyed (snd (withdraw_task_progress i db))"
  using assms declarations.put_distinct declarations.sweep_distinct
  by (auto simp: keyed_def declare_task_nearly_complete_def withdraw_task_progress_def Let_def transaction_def
      and_then_def distinct_map_filter split: sum.splits option.splits if_splits)

lemma message_keyed: "keyed db \<Longrightarrow> keyed (snd (append_session_message now i sender body db))"
  by (auto simp: keyed_def append_session_message_def Let_def sorted_wrt_append less_Suc_eq_le)

lemma apply_call_keyed: "keyed db \<Longrightarrow> keyed (apply_call c db)"
  by (cases c) (simp_all add: apply_call_def claims_keyed progress_keyed message_keyed row_updates
      keyed_side [OF locked_call_side(1)] keyed_side [OF locked_call_side(2)] keyed_side [OF locked_call_side(3)]
      keyed_side [OF locked_call_side(4)] keyed_side [OF create_side] keyed_side [OF update_session_side]
      keyed_side [OF with_label_side] update_session_side)

lemma reachable_keyed: "sessions_reachable db \<Longrightarrow> keyed db"
proof (induction rule: sessions_reachable.induct)
  case (opened project)
  show ?case by (simp add: keyed_def empty_sessions_def)
qed (rule apply_call_keyed)

section \<open>A live session\<close>

lemma live_session:
  assumes "sessions_reachable db" and "recorded_state i db = Some l" and "is_live l"
  shows "\<exists>r. get_session i db = Inr (Some r) \<and> ss_lifecycle r = l" and "i \<in> set (live_sessions db)"
proof -
  obtain row where row: "session_row_of i db = Some row" "lifecycle_from_str (c_lifecycle row) = Some l"
    using assms(2) by (auto simp: recorded_state_def split: option.splits)
  then have "row_readable row"
    using reachable_ok [OF assms(1)] session_row_of_id by (auto simp: sessions_ok_def row_ok_def)
  then obtain r where "read_record row = Inr r" by (auto simp: row_readable_iff)
  then show "\<exists>r. get_session i db = Inr (Some r) \<and> ss_lifecycle r = l"
    using row by (auto simp: get_session_def dest!: read_record_fields)
  show "i \<in> set (live_sessions db)"
    using session_row_of_id [OF row(1)] assms(3) lifecycle_words.only_spellings [OF row(2)]
    by (force simp: live_sessions_def live_words)
qed

lemma claim_file_live:
  fixes now :: int
  assumes "sessions_reachable db" and "recorded_state i db = Some l" and "is_live l"
    and "normalize_observed_path given = Some path"
  defines "rows \<equiv> upsert_claim (i, path) now (release_abandoned (live_sessions db) now (sd_claims db))"
  shows "\<exists>c. claim_of (i, path) rows = Some c \<and> claim_file now i given db = (Inr c, db\<lparr>sd_claims := rows\<rparr>)"
proof -
  obtain c where c: "claim_of (i, path) rows = Some c"
    using claims.find_put [of "(i, path)" "(i, path)"] by (auto simp: claim_of_def rows_def)
  then show ?thesis
    using live_session(1) [OF assms(1-3)] assms(3,4)
    by (auto simp: claim_file_def normalize_claim_path_def transaction_def Let_def rows_def)
qed

section \<open>Pages\<close>

lemma after_the_last:
  assumes "sorted_wrt (\<lambda>a b. f a < (f b :: nat)) ys" and "0 < n" and "n \<le> length ys"
  shows "filter (\<lambda>y. f (ys ! (n - 1)) < f y) ys = drop n ys"
  using assms
proof (induction ys arbitrary: n)
  case (Cons y ys)
  show ?case
  proof (cases "n = 1")
    case True
    then show ?thesis using Cons.prems by (simp add: filter_id_conv)
  next
    case False
    then obtain k where k: "n = Suc k" "0 < k" "k \<le> length ys"
      using Cons.prems by (cases n) auto
    then have "f y < f (ys ! (k - Suc 0))" using Cons.prems(1) by simp
    then have "\<not> f (ys ! (k - Suc 0)) < f y" by simp
    then show ?thesis using Cons k by (simp add: nth_Cons')
  qed
qed simp

lemma page_of_inbox:
  assumes "sessions_reachable db"
  shows "session_messages i after n db =
    take n (filter (\<lambda>m. after < int (sm_seq m)) (filter (\<lambda>m. sm_session m = i) (sd_messages db)))"
    and "sorted_wrt (\<lambda>a b. sm_seq a < sm_seq b) (sd_messages db)"
proof -
  show sorted: "sorted_wrt (\<lambda>a b. sm_seq a < sm_seq b) (sd_messages db)"
    using reachable_keyed [OF assms] by (simp add: keyed_def sorted_wrt_map)
  have "sorted_wrt (\<lambda>a b. sm_seq a \<le> sm_seq b) (filter P (sd_messages db))" for P
    by (rule sorted_wrt_mono_rel [OF _ sorted_wrt_filter [OF sorted]]) simp
  then have "sort_key sm_seq (filter P (sd_messages db)) = filter P (sd_messages db)" for P
    by (intro sort_key_id_if_sorted) (simp add: sorted_map)
  then show "session_messages i after n db =
      take n (filter (\<lambda>m. after < int (sm_seq m)) (filter (\<lambda>m. sm_session m = i) (sd_messages db)))"
    by (simp add: session_messages_def conj_commute)
qed

section \<open>Properties\<close>

text \<open>
  C21. A live session's claim on a file always succeeds, whoever else holds it, when the path given is one of
  the project (relative, with no drive and no step upwards), and what readers see changes at
  that session and path alone: until it expires they see this claim, which keeps the time it was first taken
  and moves the rest; every other session's claims, on the same file too, are read as they were, although the
  ended ones were swept from the table.
\<close>

theorem claiming_changes_one_claim:
  assumes "sessions_reachable db" and "recorded_state i db = Some l" and "is_live l"
    and "normalize_observed_path given = Some path" and "now \<le> later"
  shows "\<exists>c db'. claim_file now i given db = (Inr c, db') \<and>
    c = \<lparr>fc_session_id = i, fc_path = path,
         fc_claimed_at = (case claim_of (i, path) (active_claims now db) of Some held \<Rightarrow> fc_claimed_at held | None \<Rightarrow> now),
         fc_renewed_at = now, fc_expires_at = now + STALE_CLAIM_AFTER\<rparr> \<and>
    (\<forall>key. claim_of key (active_claims later db') =
       (if key = (i, path) then (if later < fc_expires_at c then Some c else None)
        else claim_of key (active_claims later db)))"
proof -
  let ?rows = "upsert_claim (i, path) now (release_abandoned (live_sessions db) now (sd_claims db))"
  have keys: "distinct (map (\<lambda>c. (fc_session_id c, fc_path c)) (sd_claims db))"
    using reachable_keyed [OF assms(1)] by (simp add: keyed_def)
  have live: "fst (i, path) \<in> set (live_sessions db)" using live_session(2) [OF assms(1-3)] by simp
  obtain c where c: "claim_of (i, path) ?rows = Some c" "claim_file now i given db = (Inr c, db\<lparr>sd_claims := ?rows\<rparr>)"
    using claim_file_live [OF assms(1-4)] by blast
  have same: "live_sessions (db\<lparr>sd_claims := ?rows\<rparr>) = live_sessions db" by (simp add: live_sessions_def)
  note seen = claims.taken [OF keys live _ refl]
  have "c = \<lparr>fc_session_id = i, fc_path = path,
         fc_claimed_at = (case claim_of (i, path) (active_claims now db) of Some held \<Rightarrow> fc_claimed_at held | None \<Rightarrow> now),
         fc_renewed_at = now, fc_expires_at = now + STALE_CLAIM_AFTER\<rparr>"
    using c(1) unfolding claim_of_def active_claims_def claims.find_put claims.find_shown [OF keys] by simp
  moreover from this have "claim_of key (active_claims later (db\<lparr>sd_claims := ?rows\<rparr>)) =
      (if key = (i, path) then (if later < fc_expires_at c then Some c else None)
       else claim_of key (active_claims later db))" for key
    using seen [OF assms(5), of key] by (simp add: claim_of_def active_claims_def same)
  ultimately show ?thesis using c(2) by blast
qed

theorem claiming_changes_one_claim_witness:
  "\<exists>c db'. claim_file 7 (u ''a1'') (u ''./src//a.rs'') started_db = (Inr c, db') \<and> fc_path c = u ''src/a.rs'' \<and>
     fc_claimed_at c = 7 \<and> claim_of (u ''a1'', u ''src/a.rs'') (active_claims 9 db') = Some c"
proof -
  have "session_row_of (u ''a1'') started_db = Some started_row"
    by (simp add: session_row_of_def started_row_only started_row_state)
  then have state: "recorded_state (u ''a1'') started_db = Some Starting"
    unfolding recorded_state_def by (simp add: started_row_state lifecycle_words.reads_back)
  have path: "normalize_observed_path (u ''./src//a.rs'') = Some (u ''src/a.rs'')" by code_simp
  have none: "sd_claims started_db = []"
    using create_side [of quiet_machine 5 "u ''a1''" "embedded_session (u ''codex'')" "empty_sessions (u ''p'')"]
    by (simp add: started_db_def apply_call_def side_def empty_sessions_def)
  show ?thesis
    using claiming_changes_one_claim [OF started_db_reachable state _ path, of 7 9]
    by (auto simp: is_live_def active_claims_def visible_claims_def claim_of_def none STALE_CLAIM_AFTER_def)
qed

text \<open>
  An inbox read page by page is the inbox: a page that ends with a message, followed by the page after
  that message's number, is the page of both lengths; no message is lost or shown twice between them.
\<close>

theorem inbox_pages_join:
  assumes "sessions_reachable db" and "session_messages i after n db \<noteq> []"
    and "length (session_messages i after n db) = n"
  shows "session_messages i after n db @
      session_messages i (int (sm_seq (last (session_messages i after n db)))) m db =
    session_messages i after (n + m) db"
proof -
  define ys where "ys = filter (\<lambda>m. after < int (sm_seq m)) (filter (\<lambda>m. sm_session m = i) (sd_messages db))"
  have page: "session_messages i after k db = take k ys" for k
    unfolding page_of_inbox(1) [OF assms(1)] ys_def by (rule refl)
  have n: "0 < n" "n \<le> length ys" using assms(2,3) by (auto simp: page)
  then have last: "last (take n ys) = ys ! (n - 1)" by (subst last_conv_nth) (auto simp: min_def)
  have "after < int (sm_seq (ys ! (n - 1)))"
  proof -
    have "ys ! (n - 1) \<in> set ys" using n by simp
    then show ?thesis by (simp add: ys_def)
  qed
  then have "filter (\<lambda>m. int (sm_seq (ys ! (n - 1))) < int (sm_seq m)) (filter (\<lambda>m. sm_session m = i) (sd_messages db)) =
      filter (\<lambda>m. sm_seq (ys ! (n - 1)) < sm_seq m) ys"
    unfolding ys_def filter_filter by (intro filter_cong) auto
  also have "\<dots> = drop n ys"
    using page_of_inbox(2) [OF assms(1)] n by (intro after_the_last) (simp_all add: ys_def sorted_wrt_filter)
  finally have "session_messages i (int (sm_seq (ys ! (n - 1)))) m db = take m (drop n ys)"
    unfolding page_of_inbox(1) [OF assms(1)] by (rule arg_cong [where f = "take m"])
  then show ?thesis by (simp add: page last take_add)
qed

theorem inbox_pages_join_witness:
  "let db = apply_call (Message 6 (u ''a1'') None (u ''two'')) (apply_call (Message 5 (u ''a1'') None (u ''one'')) (empty_sessions (u ''p'')))
   in session_messages (u ''a1'') 0 1 db @ session_messages (u ''a1'') 1 1 db = session_messages (u ''a1'') 0 2 db \<and>
      map sm_body (session_messages (u ''a1'') 0 2 db) = [u ''one'', u ''two'']"
proof -
  let ?db = "apply_call (Message 6 (u ''a1'') None (u ''two'')) (apply_call (Message 5 (u ''a1'') None (u ''one'')) (empty_sessions (u ''p'')))"
  have "sessions_reachable ?db" by (intro sessions_reachable.intros)
  moreover have messages: "sd_messages ?db =
      [\<lparr>sm_seq = 1, sm_session = u ''a1'', sm_sender = None, sm_body = u ''one'', sm_at = 5\<rparr>,
       \<lparr>sm_seq = 2, sm_session = u ''a1'', sm_sender = None, sm_body = u ''two'', sm_at = 6\<rparr>]"
    by (simp add: apply_call_def append_session_message_def empty_sessions_def)
  ultimately show ?thesis
    using inbox_pages_join [of ?db "u ''a1''" 0 1 1] by (simp add: session_messages_def Let_def messages)
qed

text \<open>
  A claim's path is meant to be in the one spelling of a repository file, never absolute, and is not: the
  drive is looked for before the leading \<open>./\<close> is dropped. Such a claim is taken, under a path that
  its own release refuses.
\<close>

theorem a_drive_slips_through:
  "normalize_observed_path (u ''./C:/a.rs'') = Some (u ''C:/a.rs'') \<and>
   normalize_claim_path (u ''C:/a.rs'') = Inl (ClaimPath (u ''C:/a.rs''))"
  by code_simp

end
