(* ===== verification/Spec2Isabelle.thy ===== *)
theory Spec2Isabelle
  imports Approval Exact_Edit Gateway_Session Event_Bus Event_Window Calendar Sse Usage Assumption_Ledger Leases
begin

text \<open>
  Glasshouse is three Rust crates under \<open>src/crates\<close>. \<open>glasshouse\<close> starts and supervises coding harnesses,
  records their sessions in a project database and publishes what happens to them; \<open>pane\<close> is a harness of
  its own, which runs a model's tool calls behind a sandbox profile, a permission ladder and an approval
  gate; \<open>inference-gateway\<close> stands between a harness and the providers, chooses the backend a session is
  served by, moves the session when a backend fails, and relays and measures the responses. This
  development models the part of the three that decides: what may run, who is served by what, what is kept
  and what is delivered. The property of each \<open>C\<close>n is stated in the text before its theorem.

  \<^bold>\<open>The parts and how they meet.\<close> In pane a call is first checked against the compiled profile
  (\<open>Profile\<close>, built in \<open>Profile_Build\<close> from settings; its patterns are \<open>Glob\<close>, its paths \<open>Paths\<close>, its reader
  of shell lines \<open>Command_Line\<close>), which a request mode narrows (\<open>Modes\<close>); what the profile admits is judged
  by the ladder (\<open>Permissions\<close>), which may ask, and asking is the gate of \<open>Approval\<close>. \<open>Exact_Edit\<close> is the
  tool that changes files. What happens outside a turn reaches the model through the inbox of \<open>Event_Window\<close>,
  whose instants print as in \<open>Stamps\<close>. In the gateway, \<open>Backends\<close> holds the vocabulary, \<open>Free_Pool\<close> the
  health and allowance of free models, \<open>Upstream\<close> what is forwarded to whom, \<open>Interactive\<close> the choice of the
  next backend of a session, and \<open>Gateway_Session\<close> the state that joins them; \<open>Sse\<close> and \<open>Usage\<close> read what a
  provider sends. In glasshouse, \<open>Session_Store\<close> keeps a record of every session, with the rows and words of
  \<open>Session_Record\<close> and the answer profile of \<open>Response_Profile\<close>; \<open>Session_Claims\<close> keeps what a live session
  holds beside it (claimed files, declarations, an inbox), and supervision compares the records with the
  processes of the machine; \<open>Event_Bus\<close> publishes lifecycle events, from which the store's lifecycle
  follows, and \<open>Guardrails\<close> with \<open>Assumption_Ledger\<close> decides and records which changes need a person.

  \<^bold>\<open>Theories.\<close>
  \<^item> \<open>Prelude\<close>: Rust strings as lists of code points, the functions of the standard library the code calls
    on them, and their lemmas, collected in \<open>rust_std\<close> and \<open>scan_eval\<close>. \<open>Utf8\<close>: the encoding and its strict
    decoder, inverse to each other. \<open>Text_Format\<close>: numbers and escapes as text. \<open>Vocabulary\<close>: the macro that
    gives an enumeration its stored words.
  \<^item> \<open>Glob\<close>, \<open>Command_Line\<close>, \<open>Paths\<close>, \<open>Profile\<close>, \<open>Profile_Build\<close>: \<open>pane/src/sandbox/profile.rs\<close>; \<open>Modes\<close>:
    \<open>sandbox/modes.rs\<close>; \<open>Permissions\<close>: \<open>permissions.rs\<close>; \<open>Approval\<close>: \<open>approval.rs\<close> and \<open>decide.rs\<close>;
    \<open>Exact_Edit\<close>: \<open>tools/exact_edit.rs\<close>; \<open>Event_Window\<close>, \<open>Stamps\<close>, \<open>Calendar\<close>: \<open>events/\<close> and the turn of
    \<open>session.rs\<close> that waits for a batch.
  \<^item> \<open>Backends\<close>: \<open>inference-gateway/src/routing/mod.rs\<close> and \<open>domain.rs\<close>; \<open>Free_Pool\<close>: \<open>routing/free.rs\<close>;
    \<open>Interactive\<close>: \<open>routing/interactive\<close> and \<open>pairing.rs\<close>; \<open>Upstream\<close>: \<open>gateway/upstream.rs\<close>;
    \<open>Gateway_Session\<close>: \<open>gateway/session\<close>; \<open>Sse\<close>: \<open>gateway/translate/stream.rs\<close>; \<open>Usage\<close>: \<open>gateway/usage.rs\<close>.
  \<^item> \<open>Response_Profile\<close>: \<open>glasshouse/src/profile/response.rs\<close>; \<open>Session_Record\<close>: \<open>session/store/record.rs\<close>,
    \<open>session/lifecycle.rs\<close> and the events of \<open>events/mod.rs\<close>; \<open>Session_Store\<close>: \<open>session/store/mod.rs\<close> with the
    clauses of \<open>database/migrations\<close> on its table, and \<open>session/supervision.rs\<close>; \<open>Session_Claims\<close>:
    \<open>session/store/claims.rs\<close>, \<open>progress.rs\<close>, \<open>messages.rs\<close> and \<open>context.rs\<close>. \<open>Sessions\<close>, \<open>Supervision\<close> and
    \<open>Leases\<close> hold the calls of the store as data, the states they reach and what is proved of them.
  \<^item> \<open>Event_Bus\<close>: \<open>glasshouse/src/events/bus.rs\<close>; \<open>Guardrails\<close>, \<open>Vocabulary\<close>: \<open>guardrails/mod.rs\<close>;
    \<open>Assumption_Ledger\<close>: \<open>guardrails/store.rs\<close> and the preflight of \<open>api/unix/assumptions.rs\<close>.

  \<^bold>\<open>Conventions.\<close> A \<open>String\<close> is a list of code points and \<open>u ''...''\<close> a literal; bytes are numbers below
  256. A struct is a record whose fields carry a prefix, an enum a datatype. A method that changes its
  receiver returns the new one; a \<open>Result\<close> is a sum with the error on the left; a panic is \<open>None\<close>. Unsigned
  32-bit counters are words, instants and wall-clock seconds integers with the saturation or the overflow
  of the source written out, indices and lengths natural numbers, floats exact rationals. A lock or a
  database transaction makes its body one step, which leaves the tables alone when it fails. A table is the
  list of its rows: an \<open>UPDATE\<close> maps over them, a \<open>SELECT\<close> filters and sorts them, and a write is refused
  when a row breaks a \<open>CHECK\<close>, whose word lists are spelled out as the schema spells them (\<open>ROLE_CHECK\<close> and
  the others), or when an index that is unique would hold two equal keys; the lemma \<open>schema_words\<close> says
  that the schema and the readers know the same words. Where a call asks the clock more than once, each
  instant is an argument of its own. Paths are those of a Unix
  host, whose file system and environment are a record of functions. The platform and every library are
  parameters: Unicode case tables, the JSON parser, the digest, the decision model, the URL parser, clocks
  and random identifiers. A parameter is a variable of the theorem, so the theorem holds for each value
  of it, and the witnesses instantiate it.

  \<^bold>\<open>Interfaces.\<close> \<open>command_reader\<close> (\<open>Modes\<close>): what a reader of command lines promises to the modes and to the
  ladder; \<open>path_guard\<close> (\<open>Profile\<close>): the profile and the profile under a mode decide paths in the same shape;
  \<open>keyed_store\<close> (\<open>Free_Pool\<close>): histories under different keys do not touch, for health and for allowance;
  \<open>bounded_queue\<close> (\<open>Event_Bus\<close>): a queue that drops its oldest entry and counts it, for every subscriber and
  for the history; \<open>word_codec\<close> (\<open>Vocabulary\<close>): a written word reads back and no other does, for the columns of
  a session and the axes of a profile, extended by \<open>vocabulary\<close> to words and variants in bijection, for the
  enumerations of the guardrails; \<open>lease\<close> (\<open>Session_Claims\<close>): a row that ends with its owner or with its time
  is read only while it holds, swept or not, for claims and for declarations. Each is interpreted on the
  code's own definitions.

  \<^bold>\<open>Loops and bounds.\<close> Every recursion of the model ends by structure or by a measure given with it, save
  the walk over links of \<open>Paths\<close>, whose fuel is the source's own limit on links, and the waits of \<open>Approval\<close>
  and \<open>Event_Window\<close>, which are traces of the polls the environment makes. The reader of \<open>Sse\<close> is bounded
  by the input it holds.

  \<^bold>\<open>What the lemmas show.\<close> For the sandbox: the matchers are the declarative readings of a pattern, the check
  gives the first reason to refuse in the documented order and grants when there is none, told over paths
  and not over its loops (\<open>refusal_applies\<close>), and no document, mode or root lifts a built-in refusal. For the ladder and the
  gate: a stricter rung never runs more, and nothing runs that neither the ladder nor a person let through.
  For edits: a failed edit touches no name but that of its temporary file, a successful one is a
  simultaneous replacement. For the gateway: the session's assignment is what the upstream serves from, a
  request leaves it only for the model it names or for the one backend that claims its target, failovers stay within what is compatible and
  allowed, waits stated by a provider are kept, and usage does not depend on how a response is cut. For
  events: each is always in one known place, none but those of a failing task's batch is lost, order is
  kept, a turn waits a bounded time and a backlog delays an event by a bounded number of batches. For the
  sessions: every stored row can be read, only a resume brings a finished session back, a pass of
  supervision is one decision for each row and ends only what is gone, and a claim changes what is read of
  that claim alone. For the guardrails: more
  risk is never answered more mildly, a waiver needs a person, and the ledger keeps the last word.

  \<^bold>\<open>Runs.\<close> Where a component keeps state over calls, its reachable states are an inductive predicate over its
  own operations (\<open>built\<close>, \<open>session_reachable\<close>, \<open>sessions_reachable\<close>, \<open>inbox_reachable\<close>, \<open>ledger_run\<close> and the runs
  of the bus and of the pools); the inbox has a step for a task that fails as well as for one that ends.
  Instants and answers of the outside are arguments of each step, so no order or clock is assumed unless a
  theorem says so.

  \<^bold>\<open>Not modelled.\<close> What is input and output: the terminal interfaces, processes and pseudo-terminals,
  operating-system sandboxes, key stores, HTTP transport and the sockets, opening and migrating the database, and the failures
  of SQLite other than a refused row. What rests on a library that is
  not part of the repository: the JavaScript cells, JSON and SQL themselves. What was left out for its
  size: translation between protocols, memory, checkpoints, the shell and the settings screens. Texts of
  diagnostics are modelled where the program reads them or promises something of them, and are otherwise
  constructors.
\<close>

end
